(* ===== verification/Infod_Prelude.thy ===== *)
theory Infod_Prelude
  imports Main "HOL-Library.Word" "HOL-Library.List_Lexorder" "HOL-Library.Monad_Syntax"
    "HOL-Library.Code_Target_Numeral"
begin

text \<open>
  Shared vocabulary of the development: bytes and C strings, the C library's string
  comparison, 32-bit unsigned arithmetic with its wrap-around written out, byte-addressed
  memory with faulting accesses, and little-endian integers.

  A computation that may fault (an access outside a buffer or a mapping, a failed
  \<^verbatim>\<open>assert\<close>, an \<^verbatim>\<open>abort()\<close>, a call through an uninitialised function pointer) returns
  an option: \<^verbatim>\<open>None\<close> is the fault.  Error returns of the C code (\<^verbatim>\<open>-1\<close>) are ordinary
  values of the result and never \<^verbatim>\<open>None\<close>.
\<close>

unbundle bit_operations_syntax

named_theorems mem_simps \<open>reads and writes of a byte memory split at an offset\<close>
named_theorems u32_simps \<open>32-bit operations that do not wrap\<close>

subsection \<open>Bytes and C strings\<close>

type_synonym byte = "8 word"
type_synonym bytes = "byte list"

text \<open>A string literal of the C source, without its terminating NUL.\<close>

definition lit :: "string \<Rightarrow> bytes" where
  "lit s = map of_char s"

text \<open>
  A \<^verbatim>\<open>const char *\<close> that points to a NUL-terminated buffer is the list of the bytes it
  points to; the terminator past the end of the list is implicit.  \<open>cstr\<close> is the C string
  there, up to the first NUL.
\<close>

definition cstr :: "bytes \<Rightarrow> bytes" where
  "cstr bs = takeWhile (\<lambda>b. b \<noteq> 0) bs"

text \<open>\<^verbatim>\<open>memchr(data, 0, n) != NULL\<close> over the whole buffer.\<close>

definition has_nul :: "bytes \<Rightarrow> bool" where
  "has_nul bs \<longleftrightarrow> 0 \<in> set bs"

text \<open>
  \<^verbatim>\<open>strcmp\<close> of a C string (implicit terminator) against a finite memory region: it reads
  the region byte by byte until a difference or a NUL and faults when it runs off the end.
\<close>

fun strcmp :: "bytes \<Rightarrow> bytes \<Rightarrow> int option" where
  "strcmp ks [] = None"
| "strcmp [] (y # ys) = Some (- uint y)"
| "strcmp (k # ks) (y # ys) =
     (if k \<noteq> y then Some (uint k - uint y) else if k = 0 then Some 0 else strcmp ks ys)"

subsection \<open>32-bit unsigned arithmetic\<close>

definition add32 :: "nat \<Rightarrow> nat \<Rightarrow> nat" where
  "add32 a b = (a + b) mod 2 ^ 32"

definition sub32 :: "nat \<Rightarrow> nat \<Rightarrow> nat" where
  "sub32 a b = (a + (2 ^ 32 - b mod 2 ^ 32)) mod 2 ^ 32"

text \<open>Bitwise complement of a 32-bit value.\<close>

definition not32 :: "nat \<Rightarrow> nat" where
  "not32 a = 2 ^ 32 - 1 - a mod 2 ^ 32"

subsection \<open>Byte memory\<close>

text \<open>\<open>peek m a k\<close> reads \<open>k\<close> bytes at address \<open>a\<close>; \<open>poke m a bs\<close> stores \<open>bs\<close> there.\<close>

definition peek :: "bytes \<Rightarrow> nat \<Rightarrow> nat \<Rightarrow> bytes option" where
  "peek m a k = (if a + k \<le> length m then Some (take k (drop a m)) else None)"

definition poke :: "bytes \<Rightarrow> nat \<Rightarrow> bytes \<Rightarrow> bytes option" where
  "poke m a bs =
     (if a + length bs \<le> length m
      then Some (take a m @ bs @ drop (a + length bs) m) else None)"

text \<open>Little-endian integers of \<open>k\<close> bytes.\<close>

fun le_bytes :: "nat \<Rightarrow> nat \<Rightarrow> bytes" where
  "le_bytes 0 n = []"
| "le_bytes (Suc k) n = of_nat (n mod 256) # le_bytes k (n div 256)"

fun of_le :: "bytes \<Rightarrow> nat" where
  "of_le [] = 0"
| "of_le (b # bs) = unat b + 256 * of_le bs"

text \<open>The C string at an address: a fault when the memory ends before a NUL.\<close>

definition cstr_at :: "bytes \<Rightarrow> nat \<Rightarrow> bytes option" where
  "cstr_at m a = (if has_nul (drop a m) then Some (cstr (drop a m)) else None)"

subsection \<open>Printing numbers\<close>

text \<open>Decimal digits, as printed by \<^verbatim>\<open>%u\<close>, \<^verbatim>\<open>%d\<close> and \<^verbatim>\<open>%zu\<close>.\<close>

fun dec :: "nat \<Rightarrow> bytes" where
  "dec n = (if n < 10 then [of_nat (48 + n)] else dec (n div 10) @ [of_nat (48 + n mod 10)])"

declare dec.simps [simp del]

definition dec_int :: "int \<Rightarrow> bytes" where
  "dec_int i = (if i < 0 then 45 # dec (nat (- i)) else dec (nat i))"

text \<open>\<^verbatim>\<open>%.*s\<close>: at most \<open>n\<close> bytes, up to a NUL.\<close>

definition prec_s :: "nat \<Rightarrow> bytes \<Rightarrow> bytes" where
  "prec_s n s = take n (cstr s)"

subsection \<open>The operating system and the C allocator\<close>

text \<open>
  The outcomes of the calls the program makes outside its own sources, as an argument of the
  operations that make them.  A successful \<^verbatim>\<open>realloc\<close> keeps the old contents and leaves the
  rest of the block indeterminate, which is the byte \<open>os_junk\<close>.
\<close>

record os =
  os_realloc :: "nat \<Rightarrow> bool"         \<comment> \<open>\<^verbatim>\<open>realloc\<close>/\<^verbatim>\<open>malloc\<close> of that many bytes succeeds\<close>
  os_junk :: "nat \<Rightarrow> byte"            \<comment> \<open>fresh byte at an index of a block\<close>
  os_mmap :: "nat \<Rightarrow> bool"            \<comment> \<open>\<^verbatim>\<open>mmap\<close> of that many bytes succeeds\<close>
  os_fallocate :: "nat \<Rightarrow> nat \<Rightarrow> int"  \<comment> \<open>value of \<^verbatim>\<open>posix_fallocate(fd, offset, len)\<close>\<close>
  os_ftruncate :: "nat \<Rightarrow> int"        \<comment> \<open>value of \<^verbatim>\<open>ftruncate(fd, len)\<close>\<close>

text \<open>An operating system that never fails.\<close>

definition good_os :: os where
  "good_os = \<lparr>os_realloc = (\<lambda>_. True), os_junk = (\<lambda>_. 0), os_mmap = (\<lambda>_. True),
     os_fallocate = (\<lambda>_ _. 0), os_ftruncate = (\<lambda>_. 0)\<rparr>"

subsection \<open>Lemmas: C strings\<close>

lemma cstr_Nil [simp]: "cstr [] = []"
  by (simp add: cstr_def)

lemma cstr_Cons [simp]: "cstr (b # bs) = (if b = 0 then [] else b # cstr bs)"
  by (simp add: cstr_def)

lemma has_nul_simps [simp]:
  "\<not> has_nul []" "has_nul (b # bs) \<longleftrightarrow> b = 0 \<or> has_nul bs"
  "has_nul (as @ bs) \<longleftrightarrow> has_nul as \<or> has_nul bs"
  by (auto simp: has_nul_def)

lemma cstr_no_nul [simp]: "\<not> has_nul (cstr bs)"
  by (induction bs) auto

lemma cstr_id: "\<not> has_nul bs \<Longrightarrow> cstr bs = bs"
  by (induction bs) auto

lemma cstr_append_nul: "has_nul bs \<Longrightarrow> cstr (bs @ cs) = cstr bs"
  by (induction bs) auto

lemma cstr_split: "has_nul bs \<Longrightarrow> \<exists>v. bs = cstr bs @ 0 # v"
  by (induction bs) auto

lemma length_cstr_le: "length (cstr bs) \<le> length bs"
  by (simp add: cstr_def length_takeWhile_le)

lemma length_cstr_less: "has_nul bs \<Longrightarrow> length (cstr bs) < length bs"
  by (induction bs) auto

lemma take_cstr: "take (length (cstr bs)) bs = cstr bs"
  by (simp add: cstr_def takeWhile_eq_take [symmetric])

text \<open>
  \<^verbatim>\<open>strcmp\<close> decides the lexicographic order of the C strings (unsigned bytes, a proper prefix
  is smaller), which is the order of \<^verbatim>\<open>HOL-Library.List_Lexorder\<close>.
\<close>

lemma strcmp_total: "has_nul m \<Longrightarrow> \<exists>r. strcmp ks m = Some r"
  by (induction ks m rule: strcmp.induct) auto

lemma uint_pos_iff: "0 < uint (y :: byte) \<longleftrightarrow> y \<noteq> 0"
  by (simp add: word_neq_0_conv word_less_def)

lemma strcmp_eq_0: "has_nul m \<Longrightarrow> strcmp ks m = Some r \<Longrightarrow> r = 0 \<longleftrightarrow> cstr ks = cstr m"
  by (induction ks m rule: strcmp.induct) (auto simp: uint_0_iff split: if_splits dest: word_uint_eqI)

lemma strcmp_less_0: "has_nul m \<Longrightarrow> strcmp ks m = Some r \<Longrightarrow> r < 0 \<longleftrightarrow> cstr ks < cstr m"
proof (induction ks m rule: strcmp.induct)
  case (2 y ys)
  then show ?case using uint_pos_iff [of y] by (auto simp: uint_0_iff)
next
  case (3 k ks y ys)
  show ?case
  proof (cases "k = y")
    case True
    with 3 show ?thesis by (auto split: if_splits)
  next
    case False
    with "3.prems" show ?thesis
      using uint_pos_iff [of y] by (auto simp: word_less_def)
  qed
qed simp

lemma strcmp_greater_0: "has_nul m \<Longrightarrow> strcmp ks m = Some r \<Longrightarrow> 0 < r \<longleftrightarrow> cstr m < cstr ks"
  using strcmp_eq_0 [of m ks r] strcmp_less_0 [of m ks r] by (auto simp: not_less_iff_gr_or_eq)

subsection \<open>Lemmas: 32-bit arithmetic\<close>

lemma add32_id [u32_simps]: "a + b < 2 ^ 32 \<Longrightarrow> add32 a b = a + b"
  by (simp add: add32_def)

lemma sub32_id [u32_simps]: "b \<le> a \<Longrightarrow> a < 2 ^ 32 \<Longrightarrow> sub32 a b = a - b"
proof -
  assume "b \<le> a" "a < 2 ^ 32"
  then have "a + (2 ^ 32 - b mod 2 ^ 32) = (a - b) + 2 ^ 32" by simp
  then show ?thesis using \<open>a < 2 ^ 32\<close> by (simp add: sub32_def)
qed

lemma add32_less [simp]: "add32 a b < 4294967296"
  by (simp add: add32_def)

lemma sub32_less [simp]: "sub32 a b < 4294967296"
  by (simp add: sub32_def)

subsection \<open>Lemmas: memory\<close>

lemma unat_byte_less [simp]: "unat (b :: byte) < 256"
  using unsigned_less [of b] by simp

lemma length_le_bytes [simp]: "length (le_bytes k n) = k"
  by (induction k arbitrary: n) auto

lemma of_le_le_bytes: "of_le (le_bytes k n) = n mod 256 ^ k"
proof (induction k arbitrary: n)
  case (Suc k)
  then show ?case by (simp add: unat_of_nat mod_mult2_eq)
qed simp

lemma le_bytes_of_le: "le_bytes (length bs) (of_le bs) = bs"
proof (induction bs)
  case (Cons b bs)
  have "unat b < 256" by simp
  then show ?case using Cons by simp
qed simp

lemma of_le_less: "of_le bs < 256 ^ length bs"
proof (induction bs)
  case (Cons b bs)
  have "unat b < 256" by simp
  moreover have "256 * Suc (of_le bs) \<le> 256 * 256 ^ length bs" using Cons by (simp only: mult_le_mono Suc_leI)
  ultimately show ?case by (simp del: unat_byte_less)
qed simp

lemma peek_append [mem_simps]:
  "length a = n \<Longrightarrow> k \<le> length c \<Longrightarrow> peek (a @ c @ b) n k = Some (take k c)"
  by (simp add: peek_def)

lemma poke_append [mem_simps]:
  "length a = n \<Longrightarrow> length bs \<le> length c \<Longrightarrow>
   poke (a @ c @ b) n bs = Some (a @ (bs @ drop (length bs) c) @ b)"
  by (simp add: poke_def)

lemma poke_length: "poke m a bs = Some m' \<Longrightarrow> length m' = length m"
  by (auto simp: poke_def split: if_splits)

lemma peek_poke_same: "poke m a bs = Some m' \<Longrightarrow> peek m' a (length bs) = Some bs"
  by (auto simp: poke_def peek_def split: if_splits)

lemma peek_Some_iff: "peek m a k = Some bs \<longleftrightarrow> a + k \<le> length m \<and> bs = take k (drop a m)"
  by (auto simp: peek_def)

end
