(* ===== verification/Linked_List.thy ===== *)
theory Linked_List
  imports Infod_Prelude
begin

text \<open>
  The intrusive doubly linked lists of \<^verbatim>\<open>src/daemon/list.h\<close>.  Elements are addresses, 0 is
  \<^verbatim>\<open>NULL\<close>.  A cell of type \<^verbatim>\<open>T *\<close> is a head pointer or the \<^verbatim>\<open>next\<close> field of an element; \<^verbatim>\<open>prevp\<close>
  of an element is the cell that points to it.  The macros are translated assignment by
  assignment on this memory and are shown to be the operations on lists that the model of the
  daemon uses.
\<close>

subsection \<open>Memory and macros\<close>

datatype cell = Head nat | Next nat

record links =
  l_cell :: "cell \<Rightarrow> nat"
  l_prevp :: "nat \<Rightarrow> cell"

definition set_cell :: "cell \<Rightarrow> nat \<Rightarrow> links \<Rightarrow> links" where
  "set_cell c v m = m\<lparr>l_cell := (l_cell m)(c := v)\<rparr>"

definition set_prevp :: "nat \<Rightarrow> cell \<Rightarrow> links \<Rightarrow> links" where
  "set_prevp p c m = m\<lparr>l_prevp := (l_prevp m)(p := c)\<rparr>"

definition NEXT :: "nat \<Rightarrow> links \<Rightarrow> nat" where
  "NEXT p m = l_cell m (Next p)"

definition INSERT :: "nat \<Rightarrow> cell \<Rightarrow> links \<Rightarrow> links" where
  "INSERT p headp m =
     (let m1 = set_prevp p headp m;
          m2 = set_cell (Next p) (l_cell m1 headp) m1;
          m3 = (if NEXT p m2 \<noteq> 0 then set_prevp (NEXT p m2) (Next p) m2 else m2)
      in set_cell headp p m3)"

definition REMOVE :: "nat \<Rightarrow> links \<Rightarrow> links" where
  "REMOVE p m =
     (let m1 = (if NEXT p m \<noteq> 0 then set_prevp (NEXT p m) (l_prevp m p) m else m)
      in set_cell (l_prevp m1 p) (NEXT p m1) m1)"

text \<open>The result is the new tail; \<^verbatim>\<open>abort()\<close> is a fault.\<close>

definition APPEND :: "nat \<Rightarrow> cell \<Rightarrow> links \<Rightarrow> (cell \<times> links) option" where
  "APPEND p tail m =
     (if l_cell m tail \<noteq> 0 then None
      else
        let m1 = set_cell tail p m; m2 = set_prevp p tail m1
        in Some (Next p, set_cell (Next p) 0 m2))"

text \<open>The list that hangs off a cell, an initial part of one, and the cell at its end.\<close>

fun chain :: "links \<Rightarrow> cell \<Rightarrow> nat list \<Rightarrow> bool" where
  "chain m c [] \<longleftrightarrow> l_cell m c = 0"
| "chain m c (x # xs) \<longleftrightarrow> l_cell m c = x \<and> x \<noteq> 0 \<and> l_prevp m x = c \<and> chain m (Next x) xs"

fun seg :: "links \<Rightarrow> cell \<Rightarrow> nat list \<Rightarrow> bool" where
  "seg m c [] \<longleftrightarrow> True"
| "seg m c (x # xs) \<longleftrightarrow> l_cell m c = x \<and> x \<noteq> 0 \<and> l_prevp m x = c \<and> seg m (Next x) xs"

definition chain_end :: "cell \<Rightarrow> nat list \<Rightarrow> cell" where
  "chain_end c xs = (if xs = [] then c else Next (last xs))"

definition is_list :: "links \<Rightarrow> nat \<Rightarrow> nat list \<Rightarrow> bool" where
  "is_list m h xs \<longleftrightarrow> distinct xs \<and> chain m (Head h) xs"

text \<open>
  The use as a queue: elements are appended one after the other, and later taken off the front
  while there are any (\<open>k\<close> bounds the loop).
\<close>

fun append_all :: "(nat \<Rightarrow> 'c \<Rightarrow> 'm \<Rightarrow> ('c \<times> 'm) option) \<Rightarrow> nat list \<Rightarrow> 'c \<times> 'm \<Rightarrow> ('c \<times> 'm) option" where
  "append_all app [] s = Some s"
| "append_all app (p # ps) s = do { s1 \<leftarrow> app p (fst s) (snd s); append_all app ps s1 }"

fun take_all :: "('m \<Rightarrow> nat) \<Rightarrow> (nat \<Rightarrow> 'm \<Rightarrow> 'm) \<Rightarrow> nat \<Rightarrow> 'm \<Rightarrow> (nat list \<times> 'm) option" where
  "take_all front rem 0 m = None"
| "take_all front rem (Suc k) m =
     (if front m = 0 then Some ([], m)
      else do { (ps, m1) \<leftarrow> take_all front rem k (rem (front m) m); Some (front m # ps, m1) })"

subsection \<open>Lemmas\<close>

lemma chain_cong:
  "(\<And>y. y \<in> set xs \<Longrightarrow> l_cell m' (Next y) = l_cell m (Next y) \<and> l_prevp m' y = l_prevp m y) \<Longrightarrow>
   l_cell m' c = l_cell m c \<Longrightarrow> chain m' c xs = chain m c xs"
proof (induction xs arbitrary: c)
  case (Cons x xs)
  then have "l_cell m' (Next x) = l_cell m (Next x)" "l_prevp m' x = l_prevp m x" by simp_all
  moreover have "chain m' (Next x) xs = chain m (Next x) xs" using Cons by auto
  ultimately show ?case using Cons.prems(2) by simp
qed simp

lemma chain_append:
  "chain m c (xs @ ys) \<longleftrightarrow> seg m c xs \<and> chain m (chain_end c xs) ys"
  by (induction xs arbitrary: c) (auto simp: chain_end_def)

lemma seg_nonzero: "seg m c xs \<Longrightarrow> 0 \<notin> set xs"
  by (induction xs arbitrary: c) auto

lemma seg_cong:
  "(\<And>y. y \<in> set xs \<Longrightarrow> l_prevp m' y = l_prevp m y) \<Longrightarrow> (\<And>y. y \<in> set (butlast xs) \<Longrightarrow> l_cell m' (Next y) = l_cell m (Next y)) \<Longrightarrow>
   (xs \<noteq> [] \<Longrightarrow> l_cell m' c = l_cell m c) \<Longrightarrow> seg m' c xs = seg m c xs"
proof (induction xs arbitrary: c)
  case (Cons x xs)
  have b: "l_cell m' (Next y) = l_cell m (Next y)" if "y \<in> set (butlast xs) \<or> (y = x \<and> xs \<noteq> [])" for y
    by (rule Cons.prems(2)) (use that in \<open>cases xs; auto\<close>)
  have "seg m' (Next x) xs = seg m (Next x) xs" by (rule Cons.IH) (use Cons.prems(1) b in auto)
  then show ?case using Cons.prems by simp
qed simp

lemma last_notin_butlast: "distinct xs \<Longrightarrow> xs \<noteq> [] \<Longrightarrow> last xs \<notin> set (butlast xs)"
  by (induction xs) (auto dest: in_set_butlastD)

lemma set_cell_simps [simp]:
  "l_cell (set_cell c v m) = (l_cell m)(c := v)" "l_prevp (set_cell c v m) = l_prevp m"
  "l_cell (set_prevp p d m) = l_cell m" "l_prevp (set_prevp p d m) = (l_prevp m)(p := d)"
  by (simp_all add: set_cell_def set_prevp_def)

lemma INSERT_is_list:
  assumes "is_list m h xs" "p \<noteq> 0" "p \<notin> set xs"
  shows "is_list (INSERT p (Head h) m) h (p # xs)"
proof -
  have xs: "chain m (Head h) xs" "distinct xs" using assms(1) by (simp_all add: is_list_def)
  have "chain (INSERT p (Head h) m) (Next p) xs"
  proof (cases xs)
    case Nil
    then show ?thesis using xs by (simp add: INSERT_def Let_def NEXT_def)
  next
    case (Cons x ys)
    have "chain (INSERT p (Head h) m) (Next x) ys = chain m (Next x) ys"
      by (rule chain_cong) (use assms(3) Cons xs in \<open>auto simp: INSERT_def Let_def NEXT_def\<close>)
    then show ?thesis using xs Cons assms by (simp add: INSERT_def Let_def NEXT_def)
  qed
  moreover have "l_cell (INSERT p (Head h) m) (Head h) = p" "l_prevp (INSERT p (Head h) m) p = Head h"
    using xs assms by (cases xs; auto simp: INSERT_def Let_def NEXT_def)+
  ultimately show ?thesis using assms xs by (simp add: is_list_def)
qed

lemma REMOVE_upd:
  assumes "NEXT p m \<noteq> p"
  shows "l_cell (REMOVE p m) = (l_cell m)(l_prevp m p := NEXT p m)"
    "l_prevp (REMOVE p m) = (if NEXT p m \<noteq> 0 then (l_prevp m)(NEXT p m := l_prevp m p) else l_prevp m)"
  using assms by (auto simp: REMOVE_def Let_def NEXT_def)

lemma REMOVE_is_list:
  assumes "is_list m h (xs @ p # ys)"
  shows "is_list (REMOVE p m) h (xs @ ys)"
proof -
  let ?c = "chain_end (Head h) xs" and ?m = "REMOVE p m"
  have d: "distinct xs" "distinct ys" "p \<notin> set xs" "p \<notin> set ys" "set xs \<inter> set ys = {}" and
    ch: "seg m (Head h) xs" "l_cell m ?c = p" "p \<noteq> 0" "l_prevp m p = ?c" "chain m (Next p) ys"
    using assms by (auto simp: is_list_def chain_append)
  have c: "?c \<noteq> Next y \<and> Next y \<noteq> ?c" if "y \<in> set ys \<or> y \<in> set (butlast xs)" for y
    using that d last_notin_butlast [of xs] by (auto simp: chain_end_def dest: last_in_set split: if_splits)
  have c0: "xs \<noteq> [] \<Longrightarrow> ?c \<noteq> Head h" by (simp add: chain_end_def)
  have "NEXT p m = (case ys of [] \<Rightarrow> 0 | y # zs \<Rightarrow> y)" using ch(5) by (cases ys) (simp_all add: NEXT_def)
  then have n: "NEXT p m \<noteq> p" "NEXT p m \<notin> set xs" using ch(3) d seg_nonzero [OF ch(1)] by (auto split: list.splits)
  note upd = REMOVE_upd [OF n(1), unfolded ch(4)]
  have "seg ?m (Head h) xs = seg m (Head h) xs"
    by (rule seg_cong) (use c c0 n in \<open>auto simp: upd\<close>)
  moreover have "chain ?m ?c ys"
  proof (cases ys)
    case Nil
    then show ?thesis using ch by (simp add: upd NEXT_def)
  next
    case (Cons y zs)
    have y: "NEXT p m = y" "y \<noteq> 0" using ch Cons by (simp_all add: NEXT_def)
    have "chain ?m (Next y) zs = chain m (Next y) zs"
      by (rule chain_cong) (use d c y Cons in \<open>auto simp: upd\<close>)
    then show ?thesis using ch Cons y by (simp add: upd)
  qed
  ultimately show ?thesis using d ch by (simp add: is_list_def chain_append)
qed

lemma APPEND_is_list:
  assumes "is_list m h xs" "p \<noteq> 0" "p \<notin> set xs" "t = chain_end (Head h) xs"
  obtains m' where "APPEND p t m = Some (Next p, m')" "is_list m' h (xs @ [p])"
proof -
  have xs: "seg m (Head h) xs" "l_cell m t = 0" "distinct xs"
    using assms(1,4) chain_append [of m "Head h" xs "[]"] by (simp_all add: is_list_def)
  let ?m = "set_cell (Next p) 0 (set_prevp p t (set_cell t p m))"
  have c: "t \<noteq> Next y" if "y \<in> set (butlast xs) \<or> y = p" for y
    using that assms(3,4) last_notin_butlast [of xs] xs by (auto simp: chain_end_def dest: last_in_set split: if_splits)
  have b: "p \<notin> set (butlast xs)" using assms(3) by (auto dest: in_set_butlastD)
  have "seg ?m (Head h) xs = seg m (Head h) xs"
    by (rule seg_cong) (use assms(3,4) c b last_notin_butlast [OF xs(3)] in \<open>auto simp: chain_end_def\<close>)
  then have "is_list ?m h (xs @ [p])" using xs assms c by (auto simp: is_list_def chain_append)
  moreover have "APPEND p t m = Some (Next p, ?m)" using xs by (simp add: APPEND_def Let_def)
  ultimately show thesis by (rule that [rotated])
qed

subsection \<open>The interface\<close>

text \<open>
  What a client of the macros relies on: \<open>rep m h xs\<close> says that the list at the head pointer \<open>h\<close> has
  the elements \<open>xs\<close>, and \<open>at_end t h xs\<close> that \<open>t\<close> is its tail pointer.
\<close>

locale linked_list =
  fixes rep :: "'m \<Rightarrow> nat \<Rightarrow> nat list \<Rightarrow> bool"
    and at_end :: "'c \<Rightarrow> nat \<Rightarrow> nat list \<Rightarrow> bool"
    and front :: "nat \<Rightarrow> 'm \<Rightarrow> nat"
    and ins :: "nat \<Rightarrow> nat \<Rightarrow> 'm \<Rightarrow> 'm"
    and rem :: "nat \<Rightarrow> 'm \<Rightarrow> 'm"
    and app :: "nat \<Rightarrow> 'c \<Rightarrow> 'm \<Rightarrow> ('c \<times> 'm) option"
  assumes front_law: "rep m h xs \<Longrightarrow> front h m = (case xs of [] \<Rightarrow> 0 | x # _ \<Rightarrow> x) \<and> 0 \<notin> set xs \<and> distinct xs"
    and ins_law: "rep m h xs \<Longrightarrow> p \<noteq> 0 \<Longrightarrow> p \<notin> set xs \<Longrightarrow> rep (ins p h m) h (p # xs)"
    and rem_law: "rep m h (xs @ p # ys) \<Longrightarrow> rep (rem p m) h (xs @ ys)"
    and app_law: "rep m h xs \<Longrightarrow> p \<noteq> 0 \<Longrightarrow> p \<notin> set xs \<Longrightarrow> at_end t h xs \<Longrightarrow>
      \<exists>t' m'. app p t m = Some (t', m') \<and> rep m' h (xs @ [p]) \<and> at_end t' h (xs @ [p])"
begin

lemma append_all_rep:
  "rep m h xs \<Longrightarrow> at_end t h xs \<Longrightarrow> 0 \<notin> set ps \<Longrightarrow> distinct (xs @ ps) \<Longrightarrow>
   \<exists>t' m'. append_all app ps (t, m) = Some (t', m') \<and> rep m' h (xs @ ps) \<and> at_end t' h (xs @ ps)"
proof (induction ps arbitrary: xs t m)
  case (Cons p ps)
  obtain t1 m1 where s: "app p t m = Some (t1, m1)" "rep m1 h (xs @ [p])" "at_end t1 h (xs @ [p])"
    using app_law [OF Cons.prems(1) _ _ Cons.prems(2), of p] Cons.prems by auto
  show ?case using Cons.IH [OF s(2,3)] Cons.prems s(1) by simp
qed simp

lemma take_all_rep:
  "rep m h xs \<Longrightarrow> length xs < k \<Longrightarrow> \<exists>m'. take_all (front h) rem k m = Some (xs, m') \<and> rep m' h []"
proof (induction k arbitrary: m xs)
  case (Suc k)
  note f = front_law [OF Suc.prems(1)]
  show ?case
  proof (cases xs)
    case Nil
    then show ?thesis using f Suc.prems by simp
  next
    case (Cons x ys)
    have "rep (rem x m) h ys" using rem_law [of m h "[]" x ys] Suc.prems Cons by simp
    then show ?thesis using Suc.IH [of "rem x m" ys] Suc.prems Cons f by auto
  qed
qed simp

lemma queue_rep:
  "rep m h [] \<Longrightarrow> at_end t h [] \<Longrightarrow> 0 \<notin> set ps \<Longrightarrow> distinct ps \<Longrightarrow>
   \<exists>t' m1 m2. append_all app ps (t, m) = Some (t', m1) \<and>
     take_all (front h) rem (length ps + 1) m1 = Some (ps, m2) \<and> rep m2 h []"
proof -
  assume "rep m h []" "at_end t h []" "0 \<notin> set ps" "distinct ps"
  then obtain t' m1 where a: "append_all app ps (t, m) = Some (t', m1)" "rep m1 h ps"
    using append_all_rep [of m h "[]" t ps] by auto
  obtain m2 where "take_all (front h) rem (length ps + 1) m1 = Some (ps, m2)" "rep m2 h []"
    using take_all_rep [OF a(2), of "length ps + 1"] by auto
  then show ?thesis using a(1) by blast
qed

end

lemma chain_nonzero: "chain m c xs \<Longrightarrow> 0 \<notin> set xs"
  by (induction xs arbitrary: c) auto

interpretation list_h: linked_list is_list "\<lambda>t h xs. t = chain_end (Head h) xs" "\<lambda>h m. l_cell m (Head h)"
  "\<lambda>p h m. INSERT p (Head h) m" REMOVE APPEND
proof unfold_locales
  fix m h xs
  assume r: "is_list m h xs"
  then have "l_cell m (Head h) = (case xs of [] \<Rightarrow> 0 | x # _ \<Rightarrow> x)" by (cases xs) (simp_all add: is_list_def)
  then show "l_cell m (Head h) = (case xs of [] \<Rightarrow> 0 | x # _ \<Rightarrow> x) \<and> 0 \<notin> set xs \<and> distinct xs"
    using r chain_nonzero by (auto simp: is_list_def)
next
  fix m h xs p t
  assume "is_list m h xs" "p \<noteq> 0" "p \<notin> set xs" "t = chain_end (Head h) xs"
  then obtain m' where "APPEND p t m = Some (Next p, m')" "is_list m' h (xs @ [p])" by (rule APPEND_is_list)
  then show "\<exists>t' m'. APPEND p t m = Some (t', m') \<and> is_list m' h (xs @ [p]) \<and> t' = chain_end (Head h) (xs @ [p])"
    by (simp add: chain_end_def)
qed (auto intro: INSERT_is_list REMOVE_is_list)

subsection \<open>Properties\<close>

text \<open>
  C23: the list macros work as a queue.  Elements appended to an empty list through a tail pointer,
  none of them \<^verbatim>\<open>NULL\<close> and no two equal, come off the front in the same order, no append aborts
  and the list is empty again.
\<close>

theorem list_queue:
  assumes "is_list m h []" "0 \<notin> set ps" "distinct ps"
  shows "\<exists>t m1 m2. append_all APPEND ps (Head h, m) = Some (t, m1) \<and>
    take_all (\<lambda>m. l_cell m (Head h)) REMOVE (length ps + 1) m1 = Some (ps, m2) \<and> is_list m2 h []"
  using list_h.queue_rep [OF assms(1) _ assms(2,3)] by (simp add: chain_end_def)

theorem list_queue_witness:
  "\<exists>t m1 m2. append_all APPEND [3, 1, 2] (Head 0, \<lparr>l_cell = (\<lambda>_. 0), l_prevp = (\<lambda>_. Head 0)\<rparr>) = Some (t, m1) \<and>
    take_all (\<lambda>m. l_cell m (Head 0)) REMOVE (length [3, 1, 2 :: nat] + 1) m1 = Some ([3, 1, 2], m2) \<and> is_list m2 0 []"
  by (rule list_queue) (simp_all add: is_list_def)

text \<open>
  C24: \<^verbatim>\<open>INSERT\<close> puts an unlinked element in front of a list, and \<^verbatim>\<open>REMOVE\<close> takes a linked element
  out of it wherever it stands; the other elements keep their order and their links.
\<close>

theorem list_insert_remove:
  assumes "is_list m h xs" "p \<noteq> 0" "p \<notin> set xs" "q \<in> set (p # xs)"
  shows "is_list (REMOVE q (INSERT p (Head h) m)) h (remove1 q (p # xs))"
proof -
  have l: "is_list (INSERT p (Head h) m) h (p # xs)" using list_h.ins_law [OF assms(1-3)] .
  obtain ys zs where s: "p # xs = ys @ q # zs" "q \<notin> set ys" using split_list_first [OF assms(4)] by blast
  have "remove1 q (p # xs) = ys @ zs" using s by (simp add: remove1_append)
  then show ?thesis using list_h.rem_law [of "INSERT p (Head h) m" h ys q zs] l s(1) by simp
qed

theorem list_insert_remove_witness:
  "is_list (REMOVE 5 (INSERT 7 (Head 0) (INSERT 5 (Head 0) \<lparr>l_cell = (\<lambda>_. 0), l_prevp = (\<lambda>_. Head 0)\<rparr>))) 0 (remove1 5 [7, 5])"
  by (rule list_insert_remove) (simp_all add: is_list_def INSERT_def Let_def NEXT_def)

end
