(* ===== verification/Rxbuf.thy ===== *)
theory Rxbuf
  imports Infod_Prelude
begin

text \<open>
  The growable receive buffer, \<^verbatim>\<open>src/lib/rxbuf.c\<close>.  \<open>rx_buf\<close> is the allocated block, whose length
  is the field \<^verbatim>\<open>max\<close>; the first \<open>rx_len\<close> bytes are in use.  A \<^verbatim>\<open>NULL\<close> buffer is the empty
  block.  Sizes are \<^verbatim>\<open>size_t\<close>, far from wrapping below the limit of 64 KiB.
\<close>

subsection \<open>Operations\<close>

record rxbuf =
  rx_buf :: bytes
  rx_len :: nat

definition SIZECHUNK :: nat where
  "SIZECHUNK = 1024"

definition rx_roundup :: "nat \<Rightarrow> nat \<Rightarrow> nat" where
  "rx_roundup n align = (let remainder = n mod align in if remainder \<noteq> 0 then n + (align - remainder) else n)"

definition rxbuf_init :: rxbuf where
  "rxbuf_init = \<lparr>rx_buf = [], rx_len = 0\<rparr>"

text \<open>\<^verbatim>\<open>realloc\<close> keeps the old contents; the rest of the block is indeterminate.\<close>

definition realloc_block :: "os \<Rightarrow> bytes \<Rightarrow> nat \<Rightarrow> bytes" where
  "realloc_block os old sz = take sz old @ map (os_junk os) [length old..<sz]"

definition rxbuf_resize :: "os \<Rightarrow> nat \<Rightarrow> rxbuf \<Rightarrow> (int \<times> rxbuf) option" where
  "rxbuf_resize os sz rx =
     (if 0x10000 \<le> sz then Some (-1, rx)
      else let sz' = rx_roundup sz SIZECHUNK in
        if sz' < rx_len rx then None
        else if length (rx_buf rx) = sz' then Some (0, rx)
        else if \<not> os_realloc os sz' then Some (-1, rx)
        else Some (0, rx\<lparr>rx_buf := realloc_block os (rx_buf rx) sz'\<rparr>))"

definition rxbuf_addc :: "os \<Rightarrow> byte \<Rightarrow> rxbuf \<Rightarrow> (int \<times> rxbuf) option" where
  "rxbuf_addc os ch rx = do {
     (r, rx1) \<leftarrow> (if length (rx_buf rx) \<le> rx_len rx then rxbuf_resize os (rx_len rx + 1) rx else Some (0, rx));
     if r = -1 then Some (-1, rx1)
     else do {
       b \<leftarrow> poke (rx_buf rx1) (rx_len rx1) [ch];
       Some (0, rx1\<lparr>rx_buf := b, rx_len := rx_len rx1 + 1\<rparr>)
     }
   }"

definition rxbuf_add :: "os \<Rightarrow> bytes \<Rightarrow> rxbuf \<Rightarrow> (int \<times> rxbuf) option" where
  "rxbuf_add os p rx = do {
     (r, rx1) \<leftarrow> rxbuf_resize os (rx_len rx + length p) rx;
     if r = -1 then Some (-1, rx1)
     else do {
       b \<leftarrow> poke (rx_buf rx1) (rx_len rx1) p;
       Some (0, rx1\<lparr>rx_buf := b, rx_len := rx_len rx1 + length p\<rparr>)
     }
   }"

definition rxbuf_clear :: "os \<Rightarrow> nat \<Rightarrow> rxbuf \<Rightarrow> (int \<times> rxbuf) option" where
  "rxbuf_clear os sz rx = rxbuf_resize os sz (rx\<lparr>rx_len := 0\<rparr>)"

text \<open>The loop of \<^verbatim>\<open>rxbuf_trimspace\<close> on the length.\<close>

fun trimspace_len :: "bytes \<Rightarrow> nat \<Rightarrow> nat option" where
  "trimspace_len b 0 = Some 0"
| "trimspace_len b (Suc n) =
     (if n < length b then if b ! n = 32 then trimspace_len b n else Some (Suc n) else None)"

definition rxbuf_trimspace :: "rxbuf \<Rightarrow> rxbuf option" where
  "rxbuf_trimspace rx = do { n \<leftarrow> trimspace_len (rx_buf rx) (rx_len rx); Some (rx\<lparr>rx_len := n\<rparr>) }"

text \<open>\<^verbatim>\<open>rxbuf_add(rx, "", 1)\<close> appends the NUL of the empty string literal.\<close>

definition rxbuf_zeropad :: "os \<Rightarrow> rxbuf \<Rightarrow> (int \<times> rxbuf) option" where
  "rxbuf_zeropad os rx = do {
     (r, rx1) \<leftarrow> rxbuf_add os [0] rx;
     if r = -1 then Some (-1, rx1) else Some (0, rx1\<lparr>rx_len := rx_len rx1 - 1\<rparr>)
   }"

text \<open>\<^verbatim>\<open>rxbuf_free\<close>: the block that goes back to the allocator.\<close>

definition rxbuf_free :: "rxbuf \<Rightarrow> bytes" where
  "rxbuf_free rx = rx_buf rx"

text \<open>The bytes in use, and what every operation keeps.\<close>

definition rx_data :: "rxbuf \<Rightarrow> bytes" where
  "rx_data rx = take (rx_len rx) (rx_buf rx)"

definition rx_ok :: "rxbuf \<Rightarrow> bool" where
  "rx_ok rx \<longleftrightarrow> rx_len rx \<le> length (rx_buf rx) \<and> length (rx_buf rx) \<le> 0x10000 \<and> SIZECHUNK dvd length (rx_buf rx)"

text \<open>A run of operations with their results, and what they mean on the bytes in use.\<close>

datatype rx_op = Addc byte | Add bytes | Clear nat | Trim | Zeropad

fun rx_exec :: "os \<Rightarrow> rx_op \<Rightarrow> rxbuf \<Rightarrow> (int \<times> rxbuf) option" where
  "rx_exec os (Addc ch) rx = rxbuf_addc os ch rx"
| "rx_exec os (Add bs) rx = rxbuf_add os bs rx"
| "rx_exec os (Clear sz) rx = rxbuf_clear os sz rx"
| "rx_exec os Trim rx = map_option (Pair 0) (rxbuf_trimspace rx)"
| "rx_exec os Zeropad rx = rxbuf_zeropad os rx"

fun rx_run :: "os \<Rightarrow> rx_op list \<Rightarrow> rxbuf \<Rightarrow> (int list \<times> rxbuf) option" where
  "rx_run os [] rx = Some ([], rx)"
| "rx_run os (x # xs) rx = do {
     (r, rx1) \<leftarrow> rx_exec os x rx;
     (rs, rx2) \<leftarrow> rx_run os xs rx1;
     Some (r # rs, rx2)
   }"

fun rx_effect :: "rx_op \<times> int \<Rightarrow> bytes \<Rightarrow> bytes" where
  "rx_effect (Addc ch, r) bs = (if r = -1 then bs else bs @ [ch])"
| "rx_effect (Add xs, r) bs = (if r = -1 then bs else bs @ xs)"
| "rx_effect (Clear sz, r) bs = []"
| "rx_effect (Trim, r) bs = rev (dropWhile (\<lambda>b. b = 32) (rev bs))"
| "rx_effect (Zeropad, r) bs = bs"

subsection \<open>Lemmas\<close>

lemma rx_roundup_bounds:
  "0 < a \<Longrightarrow> n \<le> rx_roundup n a \<and> rx_roundup n a < n + a \<and> a dvd rx_roundup n a"
proof -
  assume a: "0 < a"
  have m: "n mod a < a" using a by simp
  show ?thesis
  proof (cases "n mod a = 0")
    case True
    then show ?thesis using a by (auto simp: rx_roundup_def)
  next
    case False
    have "n + (a - n mod a) = a * (n div a) + a" using m by (metis add.assoc le_add_diff_inverse less_imp_le mult_div_mod_eq)
    then have "a dvd n + (a - n mod a)" by simp
    then show ?thesis using m False by (auto simp: rx_roundup_def Let_def)
  qed
qed

lemma rx_roundup_chunk: "n < 0x10000 \<Longrightarrow> rx_roundup n SIZECHUNK \<le> 0x10000"
proof -
  assume n: "n < 0x10000"
  have "SIZECHUNK dvd rx_roundup n SIZECHUNK" "rx_roundup n SIZECHUNK < n + SIZECHUNK"
    using rx_roundup_bounds [of SIZECHUNK n] by (auto simp: SIZECHUNK_def)
  then obtain q where "rx_roundup n SIZECHUNK = 1024 * q" "1024 * q < n + 1024" by (auto simp: SIZECHUNK_def)
  then show ?thesis using n by simp
qed

lemma rx_init_ok [simp]: "rx_ok rxbuf_init" "rx_data rxbuf_init = []" "rx_len rxbuf_init = 0"
  by (simp_all add: rx_ok_def rxbuf_init_def rx_data_def)

lemma length_rx_data [simp]: "rx_ok rx \<Longrightarrow> length (rx_data rx) = rx_len rx"
  by (simp add: rx_ok_def rx_data_def)

text \<open>
  Resizing to hold at least the bytes in use keeps them; it gives -1 only for a size from 64 KiB
  on or when the allocator fails.
\<close>

lemma rxbuf_resize_ok:
  assumes "rx_ok rx" "rx_len rx \<le> sz"
  obtains (fail) "rxbuf_resize os sz rx = Some (-1, rx)" "0x10000 \<le> sz \<or> (\<exists>n. \<not> os_realloc os n)"
  | (ok) rx' where "rxbuf_resize os sz rx = Some (0, rx')" "rx_ok rx'" "rx_data rx' = rx_data rx"
      "rx_len rx' = rx_len rx" "sz \<le> length (rx_buf rx')" "sz < 0x10000"
proof -
  let ?z = "rx_roundup sz SIZECHUNK"
  have z: "sz \<le> ?z" "SIZECHUNK dvd ?z" using rx_roundup_bounds [of SIZECHUNK sz] by (auto simp: SIZECHUNK_def)
  show thesis
  proof (cases "0x10000 \<le> sz")
    case True
    then show thesis by (intro fail) (simp_all add: rxbuf_resize_def)
  next
    case False
    then have le: "?z \<le> 0x10000" by (intro rx_roundup_chunk) simp
    show thesis
    proof (cases "length (rx_buf rx) = ?z \<or> os_realloc os ?z")
      case True
      let ?rx = "if length (rx_buf rx) = ?z then rx else rx\<lparr>rx_buf := realloc_block os (rx_buf rx) ?z\<rparr>"
      have l: "length (rx_buf ?rx) = ?z" by (auto simp: realloc_block_def min_def)
      have "take (rx_len rx) (rx_buf ?rx) = take (rx_len rx) (rx_buf rx)"
        using assms z by (auto simp: realloc_block_def rx_ok_def)
      then show thesis using True False assms z l le
        by (intro ok [of ?rx]) (auto simp: rxbuf_resize_def Let_def rx_ok_def rx_data_def)
    next
      case False2: False
      then show thesis using False assms z by (intro fail) (auto simp: rxbuf_resize_def Let_def)
    qed
  qed
qed

lemma rx_append:
  assumes "rx_ok rx" "rx_len rx + length p \<le> length (rx_buf rx)"
  obtains b where "poke (rx_buf rx) (rx_len rx) p = Some b"
    "rx_ok (rx\<lparr>rx_buf := b, rx_len := rx_len rx + length p\<rparr>)"
    "rx_data (rx\<lparr>rx_buf := b, rx_len := rx_len rx + length p\<rparr>) = rx_data rx @ p"
proof (rule that)
  let ?b = "take (rx_len rx) (rx_buf rx) @ p @ drop (rx_len rx + length p) (rx_buf rx)"
  show "poke (rx_buf rx) (rx_len rx) p = Some ?b" using assms(2) by (simp add: poke_def)
  show "rx_ok (rx\<lparr>rx_buf := ?b, rx_len := rx_len rx + length p\<rparr>)" using assms by (simp add: rx_ok_def)
  show "rx_data (rx\<lparr>rx_buf := ?b, rx_len := rx_len rx + length p\<rparr>) = rx_data rx @ p"
    using assms by (simp add: rx_data_def rx_ok_def)
qed

lemma rxbuf_add_ok:
  assumes "rx_ok rx"
  obtains (fail) "rxbuf_add os p rx = Some (-1, rx)" "0x10000 \<le> rx_len rx + length p \<or> (\<exists>n. \<not> os_realloc os n)"
  | (ok) rx' where "rxbuf_add os p rx = Some (0, rx')" "rx_ok rx'" "rx_data rx' = rx_data rx @ p"
      "rx_len rx' = rx_len rx + length p" "rx_len rx + length p < 0x10000"
proof -
  have "rx_len rx \<le> rx_len rx + length p" by simp
  with assms show thesis
  proof (cases rule: rxbuf_resize_ok [where os = os])
    case fail
    then show thesis by (intro that(1)) (simp_all add: rxbuf_add_def)
  next
    case (ok rx1)
    from rx_append [OF ok(2), of p] ok(4,5) obtain b where "poke (rx_buf rx1) (rx_len rx1) p = Some b"
      "rx_ok (rx1\<lparr>rx_buf := b, rx_len := rx_len rx1 + length p\<rparr>)"
      "rx_data (rx1\<lparr>rx_buf := b, rx_len := rx_len rx1 + length p\<rparr>) = rx_data rx1 @ p" by auto
    then show thesis using ok
      by (intro that(2) [of "rx1\<lparr>rx_buf := b, rx_len := rx_len rx + length p\<rparr>"]) (simp_all add: rxbuf_add_def)
  qed
qed

lemma rxbuf_addc_ok:
  assumes "rx_ok rx"
  obtains (fail) "rxbuf_addc os ch rx = Some (-1, rx)" "0x10000 \<le> rx_len rx + 1 \<or> (\<exists>n. \<not> os_realloc os n)"
  | (ok) rx' where "rxbuf_addc os ch rx = Some (0, rx')" "rx_ok rx'" "rx_data rx' = rx_data rx @ [ch]"
      "rx_len rx' = rx_len rx + 1"
proof -
  have *: thesis if r: "(if length (rx_buf rx) \<le> rx_len rx then rxbuf_resize os (rx_len rx + 1) rx else Some (0, rx)) = Some (0, rx1)"
    "rx_ok rx1" "rx_data rx1 = rx_data rx" "rx_len rx1 = rx_len rx" "rx_len rx + 1 \<le> length (rx_buf rx1)" for rx1
  proof -
    from rx_append [OF r(2), of "[ch]"] r(4,5) obtain b where b: "poke (rx_buf rx1) (rx_len rx1) [ch] = Some b"
      "rx_ok (rx1\<lparr>rx_buf := b, rx_len := rx_len rx1 + 1\<rparr>)"
      "rx_data (rx1\<lparr>rx_buf := b, rx_len := rx_len rx1 + 1\<rparr>) = rx_data rx1 @ [ch]" by auto
    have "rxbuf_addc os ch rx = Some (0, rx1\<lparr>rx_buf := b, rx_len := rx_len rx1 + 1\<rparr>)"
      unfolding rxbuf_addc_def r(1) using b(1) by simp
    from ok [OF this b(2)] b(3) r(3,4) show thesis by simp
  qed
  show thesis
  proof (cases "length (rx_buf rx) \<le> rx_len rx")
    case full: True
    have "rx_len rx \<le> rx_len rx + 1" by simp
    with assms show thesis
    proof (cases rule: rxbuf_resize_ok [where os = os])
      case fail
      then show thesis using full by (intro that(1)) (simp_all add: rxbuf_addc_def)
    next
      case (ok rx1)
      then show thesis using full * [of rx1] by simp
    qed
  next
    case False
    then show thesis using * [of rx] assms by simp
  qed
qed

lemma rxbuf_clear_ok:
  assumes "rx_ok rx" "sz < 0x10000" "\<And>n. os_realloc os n"
  obtains rx' where "rxbuf_clear os sz rx = Some (0, rx')" "rx_ok rx'" "rx_data rx' = []" "rx_len rx' = 0"
proof -
  have "rx_ok (rx\<lparr>rx_len := 0\<rparr>)" "rx_len (rx\<lparr>rx_len := 0\<rparr>) \<le> sz" using assms by (auto simp: rx_ok_def)
  then show thesis
    by (cases rule: rxbuf_resize_ok [where os = os])
      (use assms(2,3) in \<open>auto simp: rxbuf_clear_def rx_data_def intro: that\<close>)
qed

lemma rxbuf_zeropad_ok:
  assumes "rx_ok rx"
  obtains (fail) "rxbuf_zeropad os rx = Some (-1, rx)" "0x10000 \<le> rx_len rx + 1 \<or> (\<exists>n. \<not> os_realloc os n)"
  | (ok) rx' where "rxbuf_zeropad os rx = Some (0, rx')" "rx_ok rx'" "rx_data rx' = rx_data rx"
      "rx_len rx' = rx_len rx" "rx_len rx < length (rx_buf rx')" "rx_buf rx' ! rx_len rx = 0"
  using assms
proof (cases rule: rxbuf_add_ok [where os = os and p = "[0]"])
  case fail
  then show thesis by (intro that(1)) (simp_all add: rxbuf_zeropad_def)
next
  case (ok rx1)
  have len: "rx_len rx + 1 \<le> length (rx_buf rx1)" using ok by (simp add: rx_ok_def)
  have "take (rx_len rx) (rx_data rx1) = rx_data rx" using ok(3) assms by simp
  then have d: "take (rx_len rx) (rx_buf rx1) = rx_data rx" using ok(4) by (simp add: rx_data_def min_def)
  have "rx_data rx1 ! rx_len rx = 0" using ok(3) assms by (simp add: nth_append)
  then have "rx_buf rx1 ! rx_len rx = 0" using ok(4) by (simp add: rx_data_def)
  then show thesis using ok len d
    by (intro that(2) [of "rx1\<lparr>rx_len := rx_len rx\<rparr>"]) (auto simp: rxbuf_zeropad_def rx_ok_def rx_data_def)
qed

text \<open>The same for any allocator, as the decoders use it.\<close>

lemma rxbuf_clear_any:
  assumes "rx_ok rx"
  shows "\<exists>r rx'. rxbuf_clear os sz rx = Some (r, rx') \<and> rx_ok rx' \<and> rx_data rx' = [] \<and> rx_len rx' = 0"
proof -
  have "rx_ok (rx\<lparr>rx_len := 0\<rparr>)" "rx_len (rx\<lparr>rx_len := 0\<rparr>) \<le> sz" using assms by (simp_all add: rx_ok_def)
  note ok = this
  from ok show ?thesis
    by (cases rule: rxbuf_resize_ok [where os = os]) (use ok in \<open>auto simp: rxbuf_clear_def rx_data_def\<close>)
qed

lemma rxbuf_addc_any:
  assumes "rx_ok rx"
  shows "\<exists>r rx'. rxbuf_addc os ch rx = Some (r, rx') \<and> rx_ok rx' \<and> rx_data rx' = rx_data rx @ (if r = -1 then [] else [ch])"
  using assms by (cases rule: rxbuf_addc_ok [where os = os and ch = ch]) (use assms in auto)

lemma rxbuf_add_any:
  assumes "rx_ok rx"
  shows "\<exists>r rx'. rxbuf_add os bs rx = Some (r, rx') \<and> rx_ok rx' \<and> rx_data rx' = rx_data rx @ (if r = -1 then [] else bs)"
  using assms by (cases rule: rxbuf_add_ok [where os = os and p = bs]) (use assms in auto)

lemma rxbuf_zeropad_any:
  assumes "rx_ok rx"
  shows "\<exists>r rx'. rxbuf_zeropad os rx = Some (r, rx') \<and> rx_ok rx' \<and> rx_data rx' = rx_data rx \<and> rx_len rx' = rx_len rx \<and>
    (r \<noteq> -1 \<longrightarrow> rx_len rx < length (rx_buf rx'))"
  using assms by (cases rule: rxbuf_zeropad_ok [where os = os]) (use assms in auto)

lemma rxbuf_trimspace_any:
  assumes "rx_ok rx" "rx_data rx \<noteq> []" "hd (rx_data rx) \<noteq> 32"
  shows "\<exists>rx'. rxbuf_trimspace rx = Some rx' \<and> rx_ok rx' \<and> rx_data rx' \<noteq> [] \<and> hd (rx_data rx') = hd (rx_data rx)"
proof -
  have l: "rx_len rx \<le> length (rx_buf rx)" "0 < rx_len rx" "rx_buf rx ! 0 \<noteq> 32"
    using assms by (auto simp: rx_ok_def rx_data_def hd_conv_nth)
  have "\<exists>m. trimspace_len (rx_buf rx) n = Some m \<and> m \<le> n \<and> 0 < m" if "n \<le> length (rx_buf rx)" "0 < n" for n
    using that
  proof (induction n)
    case (Suc n)
    then show ?case using l(3) by (cases n) (auto intro: le_SucI)
  qed simp
  from this [OF l(1,2)] obtain m where "trimspace_len (rx_buf rx) (rx_len rx) = Some m" "m \<le> rx_len rx" "0 < m" by auto
  then show ?thesis using assms(1) l
    by (intro exI [of _ "rx\<lparr>rx_len := m\<rparr>"]) (auto simp: rxbuf_trimspace_def rx_ok_def rx_data_def hd_conv_nth)
qed

lemma trimspace_len_rev:
  "n \<le> length b \<Longrightarrow> trimspace_len b n = Some (length (dropWhile (\<lambda>b. b = 32) (rev (take n b))))"
  by (induction n) (auto simp: take_Suc_conv_app_nth)

lemma take_trimmed: "take (length (dropWhile P (rev xs))) xs = rev (dropWhile P (rev xs))"
proof (induction xs rule: rev_induct)
  case (snoc x xs)
  then show ?case using length_dropWhile_le [of P "rev xs"] by simp
qed simp

lemma rx_exec_ok:
  assumes "rx_ok rx"
  shows "\<exists>r rx'. rx_exec os x rx = Some (r, rx') \<and> rx_ok rx' \<and> rx_data rx' = rx_effect (x, r) (rx_data rx)"
proof (cases x)
  case (Addc ch)
  then show ?thesis using rxbuf_addc_any [OF assms, of os ch] by auto
next
  case (Add bs)
  then show ?thesis using rxbuf_add_any [OF assms, of os bs] by auto
next
  case (Clear sz)
  then show ?thesis using rxbuf_clear_any [OF assms, of os sz] by auto
next
  case Trim
  let ?n = "length (dropWhile (\<lambda>b. b = 32) (rev (rx_data rx)))"
  have l: "rx_len rx \<le> length (rx_buf rx)" using assms by (simp add: rx_ok_def)
  have n: "?n \<le> rx_len rx" using length_dropWhile_le [of "\<lambda>b. b = 32" "rev (rx_data rx)"] assms by simp
  have "take ?n (rx_buf rx) = take ?n (rx_data rx)" using n by (simp add: rx_data_def min_def)
  then show ?thesis using Trim l n assms
    by (intro exI [of _ 0] exI [of _ "rx\<lparr>rx_len := ?n\<rparr>"])
      (simp add: rxbuf_trimspace_def trimspace_len_rev take_trimmed rx_ok_def flip: rx_data_def, simp add: rx_data_def [of "rx\<lparr>rx_len := ?n\<rparr>"] take_trimmed)
next
  case Zeropad
  then show ?thesis using rxbuf_zeropad_any [OF assms, of os] by auto
qed

subsection \<open>Properties\<close>



end
