(* ===== verification/Proto.thy ===== *)
theory Proto
  imports Rxbuf
begin

text \<open>
  The protocol translator, \<^verbatim>\<open>src/lib/proto.c\<close> with \<^verbatim>\<open>protofram.c\<close>, \<^verbatim>\<open>protobin.c\<close> and the
  encoder of \<^verbatim>\<open>prototext.c\<close>: its state, its callbacks and the path from \<^verbatim>\<open>proto_output\<close> to
  \<^verbatim>\<open>on_sendv\<close>.

  The application behind the callbacks is a state of any type \<open>'w\<close>, threaded through every
  operation.  A call through a function pointer that was never set is a fault.  Variadic
  arguments are lists; an argument of the wrong kind is a fault.  A format string is the list
  of its characters.
\<close>

subsection \<open>Messages and modes\<close>

definition CMD_HELLO :: byte where "CMD_HELLO = 0x00"
definition CMD_SUB :: byte where "CMD_SUB = 0x01"
definition CMD_UNSUB :: byte where "CMD_UNSUB = 0x02"
definition CMD_READ :: byte where "CMD_READ = 0x03"
definition CMD_WRITE :: byte where "CMD_WRITE = 0x04"
definition CMD_BEGIN :: byte where "CMD_BEGIN = 0x05"
definition CMD_COMMIT :: byte where "CMD_COMMIT = 0x06"
definition CMD_PING :: byte where "CMD_PING = 0x07"
definition MSG_VERSION :: byte where "MSG_VERSION = 0x80"
definition MSG_INFO :: byte where "MSG_INFO = 0x81"
definition MSG_PONG :: byte where "MSG_PONG = 0x82"
definition MSG_ERROR :: byte where "MSG_ERROR = 0x83"
definition MSG_EOF :: byte where "MSG_EOF = 0xff"
definition PSEUDO_HELP :: byte where "PSEUDO_HELP = 0xfe"

definition PROTO_ERROR_BAD_MSG :: byte where "PROTO_ERROR_BAD_MSG = 100"
definition PROTO_ERROR_BAD_ARG :: byte where "PROTO_ERROR_BAD_ARG = 101"
definition PROTO_ERROR_TOO_BIG :: byte where "PROTO_ERROR_TOO_BIG = 102"
definition PROTO_ERROR_BAD_SEQ :: byte where "PROTO_ERROR_BAD_SEQ = 103"
definition PROTO_ERROR_INTERNAL :: byte where "PROTO_ERROR_INTERNAL = 255"

definition PROTO_MODE_UNKNOWN :: int where "PROTO_MODE_UNKNOWN = 0"
definition PROTO_MODE_BINARY :: int where "PROTO_MODE_BINARY = 1"
definition PROTO_MODE_TEXT :: int where "PROTO_MODE_TEXT = 2"
definition PROTO_MODE_FRAMED :: int where "PROTO_MODE_FRAMED = 3"

lemmas msg_defs = CMD_HELLO_def CMD_SUB_def CMD_UNSUB_def CMD_READ_def CMD_WRITE_def CMD_BEGIN_def
  CMD_COMMIT_def CMD_PING_def MSG_VERSION_def MSG_INFO_def MSG_PONG_def MSG_ERROR_def MSG_EOF_def
  PSEUDO_HELP_def

lemmas error_defs = PROTO_ERROR_BAD_MSG_def PROTO_ERROR_BAD_ARG_def PROTO_ERROR_TOO_BIG_def
  PROTO_ERROR_BAD_SEQ_def PROTO_ERROR_INTERNAL_def

lemmas mode_defs = PROTO_MODE_UNKNOWN_def PROTO_MODE_BINARY_def PROTO_MODE_TEXT_def PROTO_MODE_FRAMED_def

text \<open>The buffer size for received data.\<close>

definition PROTO_RECVSZ :: nat where
  "PROTO_RECVSZ = 65536"

subsection \<open>The state of a translator\<close>

datatype tstate = T_ERROR | T_BOL | T_CMD | T_ARGSP | T_INT | T_STRBEG | T_STR | T_QSTR | T_QOCT

text \<open>
  \<open>t_cmd\<close> holds the first \<^verbatim>\<open>cmdlen\<close> characters of the array \<^verbatim>\<open>cmd[16]\<close>; \<open>t_fmt\<close> is the rest of
  the argument format.
\<close>

record textproto =
  t_state :: tstate
  t_fmt :: bytes
  t_intval :: nat
  t_cmd :: bytes
  t_counter :: nat
  t_optional :: bool

text \<open>A function pointer: never initialised, \<^verbatim>\<open>NULL\<close>, or set.\<close>

datatype fptr = Uninit | Null | Set

record proto =
  p_mode :: int
  p_on_input :: fptr
  p_on_sendv :: fptr
  p_on_error :: fptr
  p_rx :: rxbuf
  p_t :: textproto

text \<open>
  The functions behind the pointers.  \<open>cb_input\<close> may change the translator, which it can reach
  through its argument; \<open>cb_sendv\<close> receives the gathered bytes of the vector.
\<close>

record 'w cb =
  cb_input :: "proto \<Rightarrow> 'w \<Rightarrow> byte \<Rightarrow> bytes \<Rightarrow> (int \<times> proto \<times> 'w) option"
  cb_sendv :: "proto \<Rightarrow> 'w \<Rightarrow> bytes \<Rightarrow> (int \<times> 'w) option"
  cb_error :: "proto \<Rightarrow> 'w \<Rightarrow> bytes \<Rightarrow> 'w option"

definition proto_new :: "os \<Rightarrow> proto option" where
  "proto_new os =
     (if os_realloc os 152 then
        Some \<lparr>p_mode = PROTO_MODE_UNKNOWN, p_on_input = Null, p_on_sendv = Uninit, p_on_error = Uninit,
          p_rx = rxbuf_init,
          p_t = \<lparr>t_state = T_BOL, t_fmt = [], t_intval = 0, t_cmd = [], t_counter = 0, t_optional = False\<rparr>\<rparr>
      else None)"

definition proto_set_on_input :: "fptr \<Rightarrow> proto \<Rightarrow> proto" where
  "proto_set_on_input f p = p\<lparr>p_on_input := f\<rparr>"

definition proto_set_on_sendv :: "fptr \<Rightarrow> proto \<Rightarrow> proto" where
  "proto_set_on_sendv f p = p\<lparr>p_on_sendv := f\<rparr>"

definition proto_set_on_error :: "fptr \<Rightarrow> proto \<Rightarrow> proto" where
  "proto_set_on_error f p = p\<lparr>p_on_error := f\<rparr>"

definition proto_set_mode :: "int \<Rightarrow> proto \<Rightarrow> int \<times> proto" where
  "proto_set_mode m p = (0, p\<lparr>p_mode := m\<rparr>)"

definition proto_get_mode :: "proto \<Rightarrow> int" where
  "proto_get_mode p = p_mode p"

text \<open>
  The application's pointer and its destructor, kept beside the rest of the translator; the destructor
  works on the application's state.
\<close>

record ('u, 'w) proto_udata =
  u_udata :: "'u option"
  u_udata_free :: "('u option \<Rightarrow> 'w \<Rightarrow> 'w option) option"

definition proto_set_udata ::
  "'u option \<Rightarrow> ('u option \<Rightarrow> 'w \<Rightarrow> 'w option) option \<Rightarrow> ('u, 'w) proto_udata \<Rightarrow> 'w \<Rightarrow> (('u, 'w) proto_udata \<times> 'w) option" where
  "proto_set_udata udata udata_free u w = do {
     w1 \<leftarrow> (case u_udata_free u of None \<Rightarrow> Some w | Some f \<Rightarrow> f (u_udata u) w);
     Some (u\<lparr>u_udata := udata, u_udata_free := udata_free\<rparr>, w1)
   }"

definition proto_get_udata :: "('u, 'w) proto_udata \<Rightarrow> 'u option" where
  "proto_get_udata u = u_udata u"

text \<open>\<^verbatim>\<open>proto_free\<close>, with the receive buffer's block that it frees; \<open>None\<close> is the pointer \<^verbatim>\<open>NULL\<close>.\<close>

definition proto_free :: "(proto \<times> ('u, 'w) proto_udata) option \<Rightarrow> 'w \<Rightarrow> (bytes \<times> 'w) option" where
  "proto_free pu w =
     (case pu of
        None \<Rightarrow> Some ([], w)
      | Some (p, u) \<Rightarrow> do {
          (u1, w1) \<leftarrow> proto_set_udata None None u w;
          Some (rxbuf_free (p_rx p), w1)
        })"

subsection \<open>Calls that may report -1\<close>

text \<open>
  A step that may make its caller return -1: \<open>None\<close> inside the pair is the -1.  The world it has
  reached is kept.
\<close>

type_synonym ('a, 'w) attempt = "('a option \<times> 'w) option"

definition attempt_bind :: "('a, 'w) attempt \<Rightarrow> ('a \<Rightarrow> 'w \<Rightarrow> ('b, 'w) attempt) \<Rightarrow> ('b, 'w) attempt" where
  "attempt_bind m f = do { (r, w) \<leftarrow> m; case r of None \<Rightarrow> Some (None, w) | Some x \<Rightarrow> f x w }"

lemma attempt_bind_cong [fundef_cong]:
  assumes "m = m'" "\<And>x w. m' = Some (Some x, w) \<Longrightarrow> f x w = g x w"
  shows "attempt_bind m f = attempt_bind m' g"
  using assms by (cases m') (auto simp: attempt_bind_def split: option.splits)

lemma attempt_bind_simps [simp]:
  "attempt_bind (Some (Some x, w)) f = f x w" "attempt_bind (Some (None, w)) f = Some (None, w)"
  "attempt_bind None f = None"
  by (simp_all add: attempt_bind_def)

text \<open>The digits of \<^verbatim>\<open>%02x\<close>.\<close>

definition hex_digit :: "nat \<Rightarrow> byte" where
  "hex_digit n = (if n < 10 then of_nat (48 + n) else of_nat (87 + n))"

definition hex2 :: "byte \<Rightarrow> bytes" where
  "hex2 b = [hex_digit (unat b div 16), hex_digit (unat b mod 16)]"

text \<open>Without an \<^verbatim>\<open>on_error\<close> the message goes to the standard error output, which is not part of the state.\<close>

definition proto_errorv :: "'w cb \<Rightarrow> proto \<Rightarrow> 'w \<Rightarrow> bytes \<Rightarrow> bytes \<Rightarrow> 'w option" where
  "proto_errorv cb p w tag msg =
     (case p_on_error p of
        Uninit \<Rightarrow> None
      | Null \<Rightarrow> Some w
      | Set \<Rightarrow> cb_error cb p w (take 16383 (tag @ lit '': '' @ msg)))"

subsection \<open>Vectors\<close>

text \<open>An \<^verbatim>\<open>iovec\<close>: the memory at \<^verbatim>\<open>iov_base\<close> and \<^verbatim>\<open>iov_len\<close>.\<close>

type_synonym iov = "bytes \<times> nat"

definition iov_size :: "iov list \<Rightarrow> nat" where
  "iov_size iov = sum_list (map snd iov) mod 2 ^ 64"

text \<open>The bytes that \<^verbatim>\<open>writev\<close> reads from a vector.\<close>

fun iov_gather :: "iov list \<Rightarrow> bytes option" where
  "iov_gather [] = Some []"
| "iov_gather ((base, len) # iov) = do {
     bs \<leftarrow> peek base 0 len;
     rest \<leftarrow> iov_gather iov;
     Some (bs @ rest)
   }"

text \<open>\<^verbatim>\<open>if (p->on_sendv) return p->on_sendv(p, iov, n); return 0;\<close>\<close>

definition sendv :: "'w cb \<Rightarrow> proto \<Rightarrow> 'w \<Rightarrow> iov list \<Rightarrow> (int \<times> 'w) option" where
  "sendv cb p w iov =
     (case p_on_sendv p of
        Uninit \<Rightarrow> None
      | Null \<Rightarrow> Some (0, w)
      | Set \<Rightarrow> do { bs \<leftarrow> iov_gather iov; cb_sendv cb p w bs })"

datatype arg = ArgInt int | ArgStr bytes

definition size_t :: "int \<Rightarrow> nat" where
  "size_t i = nat (i mod 2 ^ 64)"

text \<open>The low byte of an \<^verbatim>\<open>int\<close> argument, \<^verbatim>\<open>va_arg(ap, int) & 0xff\<close>.\<close>

definition low_byte :: "int \<Rightarrow> byte" where
  "low_byte i = word_of_int i"

subsection \<open>The binary and framed encoders\<close>

definition output_binary_error :: "'w cb \<Rightarrow> proto \<Rightarrow> 'w \<Rightarrow> bytes \<Rightarrow> ('a, 'w) attempt" where
  "output_binary_error cb p w msg = do {
     w1 \<leftarrow> proto_errorv cb p w (lit ''proto_output() binary'') msg;
     Some (None, w1)
   }"

text \<open>
  The loop of \<^verbatim>\<open>to_binary_iov\<close>; \<open>maxiov\<close> and \<open>worksz\<close> are what is left of the two limits.
\<close>

fun to_binary_iov ::
  "'w cb \<Rightarrow> proto \<Rightarrow> 'w \<Rightarrow> nat \<Rightarrow> nat \<Rightarrow> bytes \<Rightarrow> arg list \<Rightarrow> (iov list, 'w) attempt" where
  "to_binary_iov cb p w maxiov worksz [] ap = Some (Some [], w)"
| "to_binary_iov cb p w maxiov worksz (f # fmt) ap =
     (if f = 32 then to_binary_iov cb p w maxiov worksz fmt ap
      else if f \<noteq> 37 then output_binary_error cb p w (lit ''unexpected format char '' @ [f])
      else if maxiov = 0 then Some (None, w)
      else case fmt of
        [] \<Rightarrow> output_binary_error cb p w (lit ''unknown format %'' @ [0])
      | g # fmt1 \<Rightarrow>
          if g = 42 then
            (case fmt1 of
               [] \<Rightarrow> None
             | h # fmt2 \<Rightarrow>
                 if h \<noteq> 115 then None
                 else case ap of
                   ArgInt n # ArgStr s # ap1 \<Rightarrow>
                     attempt_bind (to_binary_iov cb p w (maxiov - 1) worksz fmt2 ap1)
                       (\<lambda>iov w1. Some (Some ((s, size_t n) # iov), w1))
                 | _ \<Rightarrow> None)
          else if g = 115 then
            (case ap of
               ArgStr s # ap1 \<Rightarrow>
                 attempt_bind (to_binary_iov cb p w (maxiov - 1) worksz fmt1 ap1)
                   (\<lambda>iov w1. Some (Some ((s, length (cstr s)) # iov), w1))
             | _ \<Rightarrow> None)
          else if g = 99 then
            (if worksz = 0 then Some (None, w)
             else case ap of
               ArgInt n # ap1 \<Rightarrow>
                 attempt_bind (to_binary_iov cb p w (maxiov - 1) (worksz - 1) fmt1 ap1)
                   (\<lambda>iov w1. Some (Some (([low_byte n], 1) # iov), w1))
             | _ \<Rightarrow> None)
          else output_binary_error cb p w (lit ''unknown format %'' @ [g]))"

definition output_binary ::
  "'w cb \<Rightarrow> proto \<Rightarrow> 'w \<Rightarrow> byte \<Rightarrow> bytes \<Rightarrow> arg list \<Rightarrow> (int \<times> 'w) option" where
  "output_binary cb p w msg fmt ap = do {
     (niov, w1) \<leftarrow> to_binary_iov cb p w 9 16 fmt ap;
     case niov of
       None \<Rightarrow> Some (-1, w1)
     | Some iov \<Rightarrow>
         let sz = iov_size iov in
         if 0xffff < sz then do {
           (r, w2) \<leftarrow> (output_binary_error cb p w1 (lit ''packet too large, '' @ dec sz) :: (unit, _) attempt);
           Some (-1, w2)
         } else sendv cb p w1 (([msg, of_nat (sz div 256), of_nat sz], 3) # iov)
   }"

definition output_framed ::
  "'w cb \<Rightarrow> proto \<Rightarrow> 'w \<Rightarrow> byte \<Rightarrow> bytes \<Rightarrow> arg list \<Rightarrow> (int \<times> 'w) option" where
  "output_framed cb p w msg fmt ap = do {
     (niov, w1) \<leftarrow> to_binary_iov cb p w 7 8 fmt ap;
     case niov of
       None \<Rightarrow> Some (-1, w1)
     | Some iov \<Rightarrow> sendv cb p w1 (([msg], 1) # iov)
   }"

end
