(* ===== verification/Proto_Output.thy ===== *)
theory Proto_Output
  imports Proto
begin

text \<open>
  The text encoder of \<^verbatim>\<open>src/lib/prototext.c\<close> and the output entry points of
  \<^verbatim>\<open>src/lib/proto.c\<close>.  The static \<^verbatim>\<open>outbuf\<close> is the list of the \<^verbatim>\<open>outbuf_len\<close> bytes it holds; it
  is emptied at the start of every \<^verbatim>\<open>output_text\<close>, so it is passed along explicitly, on the
  assumption that \<^verbatim>\<open>on_sendv\<close> does not itself call \<^verbatim>\<open>proto_output\<close>.  A write past its 4096 bytes
  is a fault.
\<close>

subsection \<open>The command table\<close>

definition cmdtab :: "(bytes \<times> byte \<times> bytes) list" where
  "cmdtab =
    [(lit ''HELLO'', CMD_HELLO, lit ''i|t''),
     (lit ''SUB'', CMD_SUB, lit ''t''),
     (lit ''S'', CMD_SUB, lit ''t''),
     (lit ''UNSUB'', CMD_UNSUB, lit ''t''),
     (lit ''U'', CMD_UNSUB, lit ''t''),
     (lit ''READ'', CMD_READ, lit ''t''),
     (lit ''R'', CMD_READ, lit ''t''),
     (lit ''WRITE'', CMD_WRITE, lit ''t|0t''),
     (lit ''W'', CMD_WRITE, lit ''t|0t''),
     (lit ''BEGIN'', CMD_BEGIN, []),
     (lit ''B'', CMD_BEGIN, []),
     (lit ''COMMIT'', CMD_COMMIT, []),
     (lit ''C'', CMD_COMMIT, []),
     (lit ''PING'', CMD_PING, lit ''|t''),
     (lit ''P'', CMD_PING, lit ''|t''),
     (lit ''VERSION'', MSG_VERSION, lit ''i|t''),
     (lit ''INFO'', MSG_INFO, lit ''t|0t''),
     (lit ''PONG'', MSG_PONG, lit ''|t''),
     (lit ''ERROR'', MSG_ERROR, lit ''it''),
     (lit ''HELP'', PSEUDO_HELP, []),
     (lit ''H'', PSEUDO_HELP, [])]"

definition help_text :: bytes where
  "help_text =
     lit ''Commands:'' @ [13, 10] @
     lit '' hello <int> [<clientid>]   - negotiate protocol'' @ [13, 10] @
     lit '' sub <pattern>              - subscribe to pattern'' @ [13, 10] @
     lit '' unsub <pattern>            - remove previous subscription'' @ [13, 10] @
     lit '' read <key>                 - read from store, request INFO'' @ [13, 10] @
     lit '' write <key> [<value>]      - write to store'' @ [13, 10] @
     lit '' begin                      - begin command group'' @ [13, 10] @
     lit '' commit                     - execute command group'' @ [13, 10] @
     lit '' ping [<string>]            - request a PONG reply'' @ [13, 10] @
     lit '' help                       - this help text'' @ [13, 10] @
     [13, 10] @
     lit ''Most commands may be abbreviated to their first letter'' @ [13, 10] @
     [13, 10] @
     lit ''Reply messages:'' @ [13, 10] @
     lit '' VERSION <int> [<serverid>] - server'' @ [39] @ lit ''s selected protocol'' @ [13, 10] @
     lit '' INFO <key> [<value>]       - store content; no <value> deleted'' @ [13, 10] @
     lit '' PONG [<string>]            - reply to PING'' @ [13, 10] @
     lit '' ERROR <int> <text>         - error message'' @ [13, 10] @
     [13, 10] @
     lit ''Quoting:'' @ [13, 10] @
     lit '' Quoted strings begin and end with '' @ [34] @ lit ''.'' @ [13, 10] @
     lit '' Quoted strings never contain an unescaped LF CR '' @ [34] @ lit '' '' @ [92] @ lit '' or NUL.'' @ [13, 10] @
     lit '' Escapes are always octal, eg '' @ [92] @ lit ''134 for '' @ [92] @ lit '' and '' @ [92] @ lit ''042 for '' @ [34] @ lit ''.'' @ [13, 10] @
     lit '' If a client'' @ [39] @ lit ''s string doesn'' @ [39] @ lit ''t start with '' @ [34] @ lit '' then it'' @ [39] @ lit ''s assumed'' @ [13, 10] @
     lit '' literal and continues without escape processing until next SPC,'' @ [13, 10] @
     lit '' or EOL. If it'' @ [39] @ lit ''s the last arg then it'' @ [39] @ lit ''s to EOL ignoring trailing'' @ [13, 10] @
     lit '' spaces. The server will always quote its strings.'' @ [13, 10] @
     [13, 10] @
     lit ''Patterns:'' @ [13, 10] @
     lit '' x       Any char except ( | ) * '' @ [92] @ lit '' matches itself'' @ [13, 10] @
     lit '' *x      Matches shortest substring up to and including an x'' @ [13, 10] @
     lit '' *       Wildcard at end of pattern matches rest of string'' @ [13, 10] @
     lit '' (a|b|c) Matches first branch a b or c then resumes at )'' @ [13, 10] @
     lit '' '' @ [92] @ lit ''x      Matches char x which may be a metachar.'' @ [13, 10] @
     lit ''End of help.'' @ [13, 10]"

subsection \<open>The output buffer\<close>

definition OUTBUF_SIZE :: nat where
  "OUTBUF_SIZE = 4096"

definition outbuf_flush :: "'w cb \<Rightarrow> proto \<Rightarrow> 'w \<Rightarrow> bytes \<Rightarrow> (int \<times> 'w) option" where
  "outbuf_flush cb p w ob = (if ob \<noteq> [] then sendv cb p w [(ob, length ob)] else Some (0, w))"

text \<open>
  \<^verbatim>\<open>proto_outbuf\<close>.  The space is computed from \<^verbatim>\<open>sizeof sizeof outbuf\<close>, which is 8, in
  \<^verbatim>\<open>unsigned int\<close> arithmetic.  The result is the new contents of the buffer.
\<close>

definition proto_outbuf :: "'w cb \<Rightarrow> proto \<Rightarrow> 'w \<Rightarrow> bytes \<Rightarrow> bytes \<Rightarrow> (bytes, 'w) attempt" where
  "proto_outbuf cb p w ob data =
     (let space = sub32 8 (length ob); datasz = length data in
      if datasz \<le> space then
        if length ob + datasz \<le> OUTBUF_SIZE then Some (Some (ob @ data), w) else None
      else if OUTBUF_SIZE \<le> datasz then do {
        (r, w1) \<leftarrow> sendv cb p w [(ob, length ob), (data, datasz)];
        Some (if r = -1 then None else Some [], w1)
      } else if OUTBUF_SIZE < length ob + space then None
      else do {
        (r, w1) \<leftarrow> outbuf_flush cb p w (ob @ take space data);
        if r = -1 then Some (None, w1) else Some (Some (drop space data), w1)
      })"

definition outbuf_putc :: "'w cb \<Rightarrow> proto \<Rightarrow> 'w \<Rightarrow> bytes \<Rightarrow> byte \<Rightarrow> (bytes, 'w) attempt" where
  "outbuf_putc cb p w ob ch =
     (if OUTBUF_SIZE \<le> length ob then None
      else if length ob + 1 = OUTBUF_SIZE then do {
        (r, w1) \<leftarrow> outbuf_flush cb p w (ob @ [ch]);
        Some (if r = -1 then None else Some [], w1)
      } else Some (Some (ob @ [ch]), w))"

definition output_text_error :: "'w cb \<Rightarrow> proto \<Rightarrow> 'w \<Rightarrow> bytes \<Rightarrow> ('a, 'w) attempt" where
  "output_text_error cb p w msg = do {
     w1 \<leftarrow> proto_errorv cb p w (lit ''proto_output() text'') msg;
     Some (None, w1)
   }"

subsection \<open>Strings\<close>

definition needs_escape :: "byte \<Rightarrow> bool" where
  "needs_escape ch \<longleftrightarrow> ch = 10 \<or> ch = 13 \<or> ch = 34 \<or> ch = 92 \<or> ch = 0"

definition octal_escape :: "byte \<Rightarrow> bytes" where
  "octal_escape ch =
     [92, 48 OR (drop_bit 6 ch AND 7), 48 OR (drop_bit 3 ch AND 7), 48 OR (ch AND 7)]"

fun text_string_loop :: "'w cb \<Rightarrow> proto \<Rightarrow> 'w \<Rightarrow> bytes \<Rightarrow> bytes \<Rightarrow> (bytes, 'w) attempt" where
  "text_string_loop cb p w ob [] = outbuf_putc cb p w ob 34"
| "text_string_loop cb p w ob (ch # str) =
     attempt_bind
       (if needs_escape ch then proto_outbuf cb p w ob (octal_escape ch) else outbuf_putc cb p w ob ch)
       (\<lambda>ob1 w1. text_string_loop cb p w1 ob1 str)"

text \<open>\<open>len\<close> is the \<^verbatim>\<open>unsigned int\<close> length; the string must be that long.\<close>

definition output_text_string :: "'w cb \<Rightarrow> proto \<Rightarrow> 'w \<Rightarrow> bytes \<Rightarrow> bytes \<Rightarrow> nat \<Rightarrow> (bytes, 'w) attempt" where
  "output_text_string cb p w ob str len =
     (if 0xffff < len then
        output_text_error cb p w (lit ''string too big, len '' @ dec len @ lit '' > '' @ dec 0xffff)
      else do {
        bs \<leftarrow> peek str 0 len;
        attempt_bind (outbuf_putc cb p w ob 34) (\<lambda>ob1 w1. text_string_loop cb p w1 ob1 bs)
      })"

subsection \<open>Messages\<close>

text \<open>\<^verbatim>\<open>t = *tfmt++; while (t == '|') { optional = 1; t = *tfmt++; }\<close>, with 0 at the end.\<close>

fun next_tfmt :: "bytes \<Rightarrow> bool \<Rightarrow> byte \<times> bytes \<times> bool" where
  "next_tfmt [] optional = (0, [], optional)"
| "next_tfmt (t # tfmt) optional = (if t = 124 then next_tfmt tfmt True else (t, tfmt, optional))"

text \<open>\<^verbatim>\<open>*fmt++\<close>, with 0 at the end.\<close>

definition next_fmt :: "bytes \<Rightarrow> byte \<times> bytes" where
  "next_fmt fmt = (case fmt of [] \<Rightarrow> (0, []) | f # fmt' \<Rightarrow> (f, fmt'))"

definition skip_spaces :: "bytes \<Rightarrow> bytes" where
  "skip_spaces fmt = dropWhile (\<lambda>f. f = 32) fmt"

text \<open>
  The \<^verbatim>\<open>%*s\<close> argument of a \<^verbatim>\<open>t\<close>: one string, or two when it is the last argument for \<^verbatim>\<open>t|0t\<close> and
  the data has a NUL.  The result is the buffer, the rest of \<^verbatim>\<open>tfmt\<close> and \<^verbatim>\<open>optional\<close>.
\<close>

definition output_star_arg ::
  "'w cb \<Rightarrow> proto \<Rightarrow> 'w \<Rightarrow> bytes \<Rightarrow> bytes \<Rightarrow> bool \<Rightarrow> bool \<Rightarrow> int \<Rightarrow> bytes \<Rightarrow> (bytes \<times> bytes \<times> bool, 'w) attempt" where
  "output_star_arg cb p w ob tfmt optional final len str =
     (if tfmt = lit ''|0t'' \<and> final then do {
        data \<leftarrow> (if len < 0 then None else peek str 0 (nat len));
        if has_nul data then
          attempt_bind (output_text_string cb p w ob data (length (cstr data))) (\<lambda>ob1 w1.
          attempt_bind (outbuf_putc cb p w1 ob1 32) (\<lambda>ob2 w2.
          let rest = drop (length (cstr data) + 1) data in
          attempt_bind (output_text_string cb p w2 ob2 rest (length rest)) (\<lambda>ob3 w3.
          Some (Some (ob3, [], True), w3))))
        else
          attempt_bind (output_text_string cb p w ob data (length data)) (\<lambda>ob1 w1.
          Some (Some (ob1, tfmt, optional), w1))
      } else
        attempt_bind (output_text_string cb p w ob str (nat (len mod 2 ^ 32))) (\<lambda>ob1 w1.
        Some (Some (ob1, tfmt, optional), w1)))"

lemma next_fmt_length: "(f, fmt') = next_fmt fmt \<Longrightarrow> length fmt' \<le> length fmt"
  by (auto simp: next_fmt_def split: list.splits)

lemma skip_spaces_length: "length fmt \<le> n \<Longrightarrow> length (skip_spaces fmt) \<le> n"
  unfolding skip_spaces_def by (rule le_trans [OF length_dropWhile_le])

text \<open>
  The loop of \<^verbatim>\<open>output_text\<close> over the format; \<open>where\<close> is the start of the error messages and
  \<open>cfmt\<close> the format of the command table.
\<close>

function (sequential) output_text_args ::
  "'w cb \<Rightarrow> proto \<Rightarrow> bytes \<Rightarrow> bytes \<Rightarrow> 'w \<Rightarrow> bytes \<Rightarrow> bytes \<Rightarrow> bool \<Rightarrow> bytes \<Rightarrow> arg list \<Rightarrow>
   (bytes \<times> bytes \<times> bool, 'w) attempt" where
  "output_text_args cb p loc cfmt w ob tfmt optional [] ap = Some (Some (ob, tfmt, optional), w)"
| "output_text_args cb p loc cfmt w ob tfmt optional (f0 # fmt0) ap =
     (if f0 = 32 then output_text_args cb p loc cfmt w ob tfmt optional fmt0 ap
      else if f0 \<noteq> 37 then output_text_error cb p w (loc @ lit '': unexpected '' @ [39, f0, 39] @ lit '' in fmt'')
      else
        let (f, fmt) = next_fmt fmt0; (t, tfmt1, opt1) = next_tfmt tfmt optional in
        attempt_bind (if t \<noteq> 48 then outbuf_putc cb p w ob 32 else Some (Some ob, w)) (\<lambda>ob1 w1.
        if t = 0 then
          output_text_error cb p w1 (loc @ lit '': can'' @ [39] @ lit ''t match %'' @ [f] @ lit '' against tfmt '' @ [39] @ cfmt @ [39])
        else if t = 105 then
          if f \<noteq> 99 then output_text_error cb p w1 (loc @ lit '': expected %c not %'' @ [f] @ lit '' for '' @ [39] @ cfmt @ [39])
          else case ap of
            ArgInt ch # ap1 \<Rightarrow>
              attempt_bind (proto_outbuf cb p w1 ob1 (dec (unat (low_byte ch)))) (\<lambda>ob2 w2.
              output_text_args cb p loc cfmt w2 ob2 tfmt1 opt1 fmt ap1)
          | _ \<Rightarrow> None
        else if t = 48 then
          if f \<noteq> 99 then output_text_error cb p w1 (loc @ lit '': expected %c not %'' @ [f] @ lit '' for '' @ [39] @ cfmt @ [39])
          else case ap of
            ArgInt ch # ap1 \<Rightarrow>
              if ch \<noteq> 0 then output_text_error cb p w1 (loc @ lit '': expected 0 for %c, got '' @ dec_int ch)
              else output_text_args cb p loc cfmt w1 ob1 tfmt1 opt1 fmt ap1
          | _ \<Rightarrow> None
        else if t = 116 then
          let star = (f = 42); (f1, fmt1) = (if star then next_fmt fmt else (f, fmt)) in
          if f1 \<noteq> 115 then output_text_error cb p w1 (loc @ lit '': expected %s not %'' @ [f1] @ lit '' for '' @ [39] @ cfmt @ [39])
          else if star then
            case ap of
              ArgInt len # ArgStr str # ap1 \<Rightarrow>
                let fmt2 = skip_spaces fmt1 in
                attempt_bind (output_star_arg cb p w1 ob1 tfmt1 opt1 (fmt2 = []) len str) (\<lambda>(ob2, tfmt2, opt2) w2.
                output_text_args cb p loc cfmt w2 ob2 tfmt2 opt2 fmt2 ap1)
            | _ \<Rightarrow> None
          else
            case ap of
              ArgStr str # ap1 \<Rightarrow>
                attempt_bind (output_text_string cb p w1 ob1 str (length (cstr str))) (\<lambda>ob2 w2.
                output_text_args cb p loc cfmt w2 ob2 tfmt1 opt1 fmt1 ap1)
            | _ \<Rightarrow> None
        else None))"
  by pat_completeness auto
termination
  by (relation "measure (\<lambda>(cb, p, loc, cfmt, w, ob, tfmt, optional, fmt, ap). length fmt)")
    (auto simp: less_Suc_eq_le dest!: next_fmt_length intro!: skip_spaces_length split: if_splits)

declare output_text_args.simps(2) [simp del]

definition output_text ::
  "'w cb \<Rightarrow> proto \<Rightarrow> 'w \<Rightarrow> byte \<Rightarrow> bytes \<Rightarrow> arg list \<Rightarrow> (int \<times> 'w) option" where
  "output_text cb p w msg fmt ap =
     (case find (\<lambda>(word, mid, cfmt). mid = msg) cmdtab of
        None \<Rightarrow> do {
          (r, w1) \<leftarrow> (output_text_error cb p w (lit ''unknown msg 0x'' @ hex2 msg) :: (unit, _) attempt);
          Some (-1, w1)
        }
      | Some (word, mid, cfmt) \<Rightarrow>
          let loc = word @ lit ''/'' @ fmt in do {
            (r, w1) \<leftarrow>
              attempt_bind (proto_outbuf cb p w [] word) (\<lambda>ob1 w1.
              attempt_bind (output_text_args cb p loc cfmt w1 ob1 cfmt False fmt ap) (\<lambda>(ob2, tfmt, optional) w2.
              if \<not> optional \<and> tfmt \<noteq> [] \<and> hd tfmt \<noteq> 124
              then output_text_error cb p w2 (loc @ lit '': missing arguments for '' @ [39] @ cfmt @ [39])
              else proto_outbuf cb p w2 ob2 [13, 10]));
            case r of None \<Rightarrow> Some (-1, w1) | Some ob \<Rightarrow> outbuf_flush cb p w1 ob
          })"

subsection \<open>Entry points\<close>

definition output_error :: "'w cb \<Rightarrow> proto \<Rightarrow> 'w \<Rightarrow> bytes \<Rightarrow> (int \<times> 'w) option" where
  "output_error cb p w msg = do {
     w1 \<leftarrow> proto_errorv cb p w (lit ''proto_output'') msg;
     Some (-1, w1)
   }"

definition proto_outputv ::
  "'w cb \<Rightarrow> proto \<Rightarrow> 'w \<Rightarrow> byte \<Rightarrow> bytes \<Rightarrow> arg list \<Rightarrow> (int \<times> proto \<times> 'w) option" where
  "proto_outputv cb p w msg fmt ap =
     (let p1 = (if p_mode p = PROTO_MODE_UNKNOWN then p\<lparr>p_mode := PROTO_MODE_BINARY\<rparr> else p) in do {
        (r, w1) \<leftarrow>
          (if p_mode p1 = PROTO_MODE_BINARY then output_binary cb p1 w msg fmt ap
           else if p_mode p1 = PROTO_MODE_TEXT then output_text cb p1 w msg fmt ap
           else if p_mode p1 = PROTO_MODE_FRAMED then output_framed cb p1 w msg fmt ap
           else output_error cb p1 w (lit ''bad mode '' @ dec_int (p_mode p1)));
        Some (r, p1, w1)
      })"

definition proto_output ::
  "'w cb \<Rightarrow> proto \<Rightarrow> 'w \<Rightarrow> byte \<Rightarrow> bytes \<Rightarrow> arg list \<Rightarrow> (int \<times> proto \<times> 'w) option" where
  "proto_output cb p w msg fmt ap = proto_outputv cb p w msg fmt ap"

text \<open>\<open>msg\<close> is the formatted message, cut to the local buffer of 16384 bytes.\<close>

definition proto_output_error ::
  "'w cb \<Rightarrow> proto \<Rightarrow> 'w \<Rightarrow> byte \<Rightarrow> bytes \<Rightarrow> (int \<times> proto \<times> 'w) option" where
  "proto_output_error cb p w code msg = do {
     (r, p1, w1) \<leftarrow> proto_output cb p w MSG_ERROR (lit ''%c%s'')
       [ArgInt (uint code), ArgStr (take 16383 (cstr msg))];
     if r < 0 then Some (-1, p1, w1)
     else if p_mode p1 = PROTO_MODE_TEXT \<and> code \<noteq> PROTO_ERROR_INTERNAL then Some (1, p1, w1)
     else Some (-1, p1, w1)
   }"

end
