(* ===== verification/Proto_Input.thy ===== *)
theory Proto_Input
  imports Proto_Output
begin

text \<open>
  The decoders of the protocol translator: \<^verbatim>\<open>recv_framed\<close>, \<^verbatim>\<open>recv_binary\<close>, \<^verbatim>\<open>recv_text\<close> and the
  entry point \<^verbatim>\<open>proto_recv\<close>, which hand complete messages to \<^verbatim>\<open>on_input\<close>.  The data of a message
  is the list of its bytes; the NUL that the code guarantees behind it is implicit.
\<close>

subsection \<open>Framed and binary\<close>

text \<open>\<^verbatim>\<open>if (p->on_input) ret = p->on_input(p, MSG_EOF, NULL, 0);\<close> with 0 otherwise.\<close>

definition input_eof :: "'w cb \<Rightarrow> proto \<Rightarrow> 'w \<Rightarrow> (int \<times> proto \<times> 'w) option" where
  "input_eof cb p w =
     (case p_on_input p of
        Uninit \<Rightarrow> None
      | Null \<Rightarrow> Some (0, p, w)
      | Set \<Rightarrow> cb_input cb p w MSG_EOF [])"

definition recv_framed :: "'w cb \<Rightarrow> proto \<Rightarrow> 'w \<Rightarrow> bytes \<Rightarrow> (int \<times> proto \<times> 'w) option" where
  "recv_framed cb p w net =
     (case p_on_input p of
        Uninit \<Rightarrow> None
      | Null \<Rightarrow> Some (int (length net), p, w)
      | Set \<Rightarrow> (case net of [] \<Rightarrow> cb_input cb p w MSG_EOF [] | m # data \<Rightarrow> cb_input cb p w m data))"

definition binary_pkt_len :: "rxbuf \<Rightarrow> nat option" where
  "binary_pkt_len rx =
     (if rx_len rx < 3 then Some 0xffff
      else do { b \<leftarrow> peek (rx_buf rx) 1 2; Some (unat (b ! 0) * 256 + unat (b ! 1)) })"

text \<open>How much of the header or the payload is still to come, with room made for it.\<close>

definition binary_want :: "os \<Rightarrow> rxbuf \<Rightarrow> (int \<times> rxbuf \<times> nat) option" where
  "binary_want os rx = do {
     sz \<leftarrow> binary_pkt_len rx;
     if rx_len rx < 3 then do {
       (r, rx1) \<leftarrow> rxbuf_resize os 3 rx;
       Some (r, rx1, 3 - rx_len rx)
     } else do {
       (r, rx1) \<leftarrow> rxbuf_resize os (3 + sz) rx;
       Some (r, rx1, sub32 (3 + sz) (rx_len rx))
     }
   }"

text \<open>
  The hand-over of a complete packet: the message goes to \<^verbatim>\<open>on_input\<close> if there is one, and the
  buffer is cleared.  \<open>Inl n\<close> is \<^verbatim>\<open>return n\<close>, \<open>Inr n\<close> adds \<open>n\<close> to the result and goes on.
\<close>

definition binary_deliver :: "os \<Rightarrow> 'w cb \<Rightarrow> proto \<Rightarrow> 'w \<Rightarrow> nat \<Rightarrow> ((int + int) \<times> proto \<times> 'w) option" where
  "binary_deliver os cb p w sz = do {
     (res, p1, w1) \<leftarrow>
       (case p_on_input p of
          Uninit \<Rightarrow> None
        | Null \<Rightarrow> Some (Inr 0, p, w)
        | Set \<Rightarrow> do {
            (r, rx1) \<leftarrow> rxbuf_zeropad os (p_rx p);
            let p1 = p\<lparr>p_rx := rx1\<rparr>;
            if r = -1 then Some (Inl (-1), p1, w)
            else do {
              m \<leftarrow> peek (rx_buf rx1) 0 1;
              data \<leftarrow> peek (rx_buf rx1) 3 sz;
              (n, p2, w2) \<leftarrow> cb_input cb p1 w (m ! 0) data;
              Some (if n \<le> 0 then Inl n else Inr n, p2, w2)
            }
          });
     case res of
       Inl n \<Rightarrow> Some (Inl n, p1, w1)
     | Inr n \<Rightarrow> do {
         (r, rx2) \<leftarrow> rxbuf_clear os 3 (p_rx p1);
         let p2 = p1\<lparr>p_rx := rx2\<rparr>;
         Some (if r = -1 then Inl (-1) else Inr n, p2, w1)
       }
   }"

partial_function (option) recv_binary_loop ::
  "os \<Rightarrow> 'w cb \<Rightarrow> proto \<Rightarrow> 'w \<Rightarrow> bytes \<Rightarrow> int \<Rightarrow> (int \<times> proto \<times> 'w) option" where
  [code]: "recv_binary_loop os cb p w net ret =
     (if net = [] then Some (ret, p, w)
      else Option.bind (binary_want os (p_rx p)) (\<lambda>(r, rx1, want).
        if r = -1 then Some (-1, p\<lparr>p_rx := rx1\<rparr>, w)
        else
          let n = min want (length net) in
          Option.bind (rxbuf_add os (take n net) rx1) (\<lambda>(r2, rx2).
          Option.bind (binary_pkt_len rx2) (\<lambda>sz.
          if 3 \<le> rx_len rx2 \<and> rx_len rx2 = 3 + sz then
            Option.bind (binary_deliver os cb (p\<lparr>p_rx := rx2\<rparr>) w sz) (\<lambda>(res, p1, w1).
            case res of
              Inl x \<Rightarrow> Some (x, p1, w1)
            | Inr x \<Rightarrow> recv_binary_loop os cb p1 w1 (drop n net) (ret + int n + x))
          else recv_binary_loop os cb (p\<lparr>p_rx := rx2\<rparr>) w (drop n net) (ret + int n)))))"

definition recv_binary :: "os \<Rightarrow> 'w cb \<Rightarrow> proto \<Rightarrow> 'w \<Rightarrow> bytes \<Rightarrow> (int \<times> proto \<times> 'w) option" where
  "recv_binary os cb p w net =
     (if net = [] then input_eof cb p w else recv_binary_loop os cb p w net 0)"

subsection \<open>Text\<close>

definition text_input :: "'w cb \<Rightarrow> proto \<Rightarrow> 'w \<Rightarrow> byte \<Rightarrow> bytes \<Rightarrow> (int \<times> proto \<times> 'w) option" where
  "text_input cb p w msg data =
     (if msg = PSEUDO_HELP then
        (case p_on_sendv p of
           Uninit \<Rightarrow> None
         | Null \<Rightarrow> Some (1, p, w)
         | Set \<Rightarrow> do { (r, w1) \<leftarrow> cb_sendv cb p w help_text; Some (r, p, w1) })
      else if p_on_input p = Set then cb_input cb p w msg data else None)"

definition tolower :: "byte \<Rightarrow> byte" where
  "tolower b = (if 65 \<le> b \<and> b \<le> 90 then b + 32 else b)"

text \<open>\<^verbatim>\<open>strcasecmp(a, b) == 0\<close>\<close>

definition strcaseeq :: "bytes \<Rightarrow> bytes \<Rightarrow> bool" where
  "strcaseeq a b \<longleftrightarrow> map tolower (cstr a) = map tolower (cstr b)"

definition lookup_cmd :: "bytes \<Rightarrow> (byte \<times> bytes) option" where
  "lookup_cmd cmd = map_option snd (find (\<lambda>(word, e). strcaseeq word cmd) cmdtab)"

definition set_state :: "tstate \<Rightarrow> proto \<Rightarrow> proto" where
  "set_state st p = p\<lparr>p_t := (p_t p)\<lparr>t_state := st\<rparr>\<rparr>"

definition quote_cmd :: "proto \<Rightarrow> bytes" where
  "quote_cmd p = [39] @ cstr (t_cmd (p_t p)) @ [39]"

text \<open>
  The end of a command word: on success the buffer holds the command's id and the state is
  \<^verbatim>\<open>T_ARGSP\<close>, otherwise an error has been sent and the state is \<^verbatim>\<open>T_ERROR\<close>.  \<open>Inl n\<close> is
  \<^verbatim>\<open>return n\<close>, \<open>Inr ()\<close> goes on with the same character.
\<close>

definition text_word :: "os \<Rightarrow> 'w cb \<Rightarrow> proto \<Rightarrow> 'w \<Rightarrow> ((int + unit) \<times> proto \<times> 'w) option" where
  "text_word os cb p w =
     (case lookup_cmd (t_cmd (p_t p)) of
        None \<Rightarrow> do {
          (r, p1, w1) \<leftarrow> proto_output_error cb p w PROTO_ERROR_BAD_MSG
            (lit ''unknown command '' @ quote_cmd p @ lit '', try '' @ [39] @ lit ''help'' @ [39]);
          Some (Inr (), set_state T_ERROR p1, w1)
        }
      | Some (cid, fmt) \<Rightarrow> do {
          (r, rx1) \<leftarrow> rxbuf_clear os 1 (p_rx p);
          if r = -1 then Some (Inl (-1), p\<lparr>p_rx := rx1\<rparr>, w)
          else do {
            (r2, rx2) \<leftarrow> rxbuf_addc os cid rx1;
            let p2 = p\<lparr>p_rx := rx2\<rparr>;
            if r2 = -1 then Some (Inl (-1), p2, w)
            else Some (Inr (), p2\<lparr>p_t := (p_t p2)\<lparr>t_fmt := fmt, t_optional := False, t_state := T_ARGSP\<rparr>\<rparr>, w)
          }
        })"

text \<open>The end of the command line.\<close>

definition text_eol :: "os \<Rightarrow> 'w cb \<Rightarrow> proto \<Rightarrow> 'w \<Rightarrow> (int \<times> proto \<times> 'w) option" where
  "text_eol os cb p w =
     (if \<not> t_optional (p_t p) \<and> t_fmt (p_t p) \<noteq> [] then do {
        (r, p1, w1) \<leftarrow> proto_output_error cb p w PROTO_ERROR_BAD_ARG (lit ''missing arg for '' @ quote_cmd p);
        Some (1, set_state T_BOL p1, w1)
      } else case p_on_input p of
        Uninit \<Rightarrow> None
      | Null \<Rightarrow> Some (1, set_state T_BOL p, w)
      | Set \<Rightarrow> do {
          (r, rx1) \<leftarrow> rxbuf_zeropad os (p_rx p);
          let p1 = p\<lparr>p_rx := rx1\<rparr>;
          if r = -1 then Some (-1, p1, w)
          else do {
            m \<leftarrow> peek (rx_buf rx1) 0 1;
            data \<leftarrow> peek (rx_buf rx1) 1 (rx_len rx1 - 1);
            (ret, p2, w2) \<leftarrow> text_input cb p1 w (m ! 0) data;
            if ret \<le> 0 then Some (ret, p2, w2) else Some (1, set_state T_BOL p2, w2)
          }
        })"

text \<open>\<^verbatim>\<open>if (*t->fmt == '|') { t->fmt++; t->optional = 1; }\<close>\<close>

definition skip_bar :: "proto \<Rightarrow> proto" where
  "skip_bar p =
     (case t_fmt (p_t p) of
        [] \<Rightarrow> p
      | f # fmt \<Rightarrow> if f = 124 then p\<lparr>p_t := (p_t p)\<lparr>t_fmt := fmt, t_optional := True\<rparr>\<rparr> else p)"

text \<open>
  The jumps of \<^verbatim>\<open>recv_text_1ch\<close> end: they go from the command word to its arguments, each argument uses up a
  character of the format, and the error state never jumps.
\<close>

definition jump_group :: "tstate \<Rightarrow> nat" where
  "jump_group st = (case st of T_ERROR \<Rightarrow> 0 | T_BOL \<Rightarrow> 3 | T_CMD \<Rightarrow> 2 | _ \<Rightarrow> 1)"

definition jump_rank :: "tstate \<Rightarrow> nat" where
  "jump_rank st = (case st of T_ARGSP \<Rightarrow> 0 | T_STRBEG \<Rightarrow> 2 | _ \<Rightarrow> 1)"

lemma skip_bar_fmt: "t_fmt (p_t (skip_bar p)) = f # fmt \<Longrightarrow> length fmt < length (t_fmt (p_t p))"
  by (auto simp: skip_bar_def split: list.splits if_splits)

lemma text_word_state:
  "text_word os cb p w = Some (Inr u, p1, w1) \<Longrightarrow> t_state (p_t p1) = T_ERROR \<or> t_state (p_t p1) = T_ARGSP"
  by (auto simp: text_word_def set_state_def Let_def split: option.splits if_splits bind_splits)

lemma skip_bar_state [simp]: "t_state (p_t (skip_bar p)) = t_state (p_t p)"
  by (auto simp: skip_bar_def split: list.splits)

text \<open>
  \<^verbatim>\<open>recv_text_1ch\<close>; a fall-through of the switch and a \<^verbatim>\<open>goto again\<close> are recursive calls with
  the same character.  In \<^verbatim>\<open>T_ERROR\<close> the end of the line falls through to \<^verbatim>\<open>T_BOL\<close>, which skips
  it.
\<close>

function recv_text_1ch :: "os \<Rightarrow> 'w cb \<Rightarrow> proto \<Rightarrow> 'w \<Rightarrow> byte \<Rightarrow> (int \<times> proto \<times> 'w) option" where
  "recv_text_1ch os cb p w ch =
     (let t = p_t p; eol = (ch = 10 \<or> ch = 13) in
      case t_state t of
        T_ERROR \<Rightarrow> Some (1, if eol then set_state T_BOL p else p, w)
      | T_BOL \<Rightarrow>
          if ch = 32 \<or> eol then Some (1, p, w)
          else recv_text_1ch os cb (p\<lparr>p_t := t\<lparr>t_cmd := [], t_state := T_CMD\<rparr>\<rparr>) w ch
      | T_CMD \<Rightarrow>
          if 16 \<le> length (t_cmd t) then None
          else if ch \<noteq> 32 \<and> \<not> eol then
            let p1 = p\<lparr>p_t := t\<lparr>t_cmd := t_cmd t @ [ch]\<rparr>\<rparr> in
            if 16 \<le> length (t_cmd t) + 1 then do {
              (r, p2, w2) \<leftarrow> proto_output_error cb p1 w PROTO_ERROR_BAD_MSG (lit ''long command'');
              recv_text_1ch os cb (set_state T_ERROR p2) w2 ch
            } else Some (1, p1, w)
          else do {
            (res, p1, w1) \<leftarrow> text_word os cb p w;
            case res of
              Inl n \<Rightarrow> Some (n, p1, w1)
            | Inr u \<Rightarrow> recv_text_1ch os cb p1 w1 ch
          }
      | T_ARGSP \<Rightarrow>
          if ch = 32 then Some (1, p, w)
          else
            let p1 = skip_bar p in
            if eol then text_eol os cb p1 w
            else (case t_fmt (p_t p1) of
               [] \<Rightarrow> do {
                 (r, p2, w2) \<leftarrow> proto_output_error cb p1 w PROTO_ERROR_BAD_ARG (lit ''unexpected arg for '' @ quote_cmd p1);
                 recv_text_1ch os cb (set_state T_ERROR p2) w2 ch
               }
             | f # fmt \<Rightarrow>
                 let p2 = p1\<lparr>p_t := (p_t p1)\<lparr>t_fmt := fmt\<rparr>\<rparr> in
                 if f = 105 then
                   recv_text_1ch os cb (p2\<lparr>p_t := (p_t p2)\<lparr>t_state := T_INT, t_intval := 0\<rparr>\<rparr>) w ch
                 else if f = 116 then recv_text_1ch os cb (set_state T_STRBEG p2) w ch
                 else if f = 48 then do {
                   (r, rx1) \<leftarrow> rxbuf_addc os 0 (p_rx p2);
                   let p3 = p2\<lparr>p_rx := rx1\<rparr>;
                   recv_text_1ch os cb (if r = -1 then set_state T_ERROR p3 else p3) w ch
                 } else None)
      | T_INT \<Rightarrow>
          if 48 \<le> ch \<and> ch \<le> 57 then
            let v = (t_intval t * 10 + unat ch - 48) mod 65536; p1 = p\<lparr>p_t := t\<lparr>t_intval := v\<rparr>\<rparr> in
            if 255 < v then do {
              (r, p2, w2) \<leftarrow> proto_output_error cb p1 w PROTO_ERROR_BAD_MSG (lit ''integer overflow'');
              recv_text_1ch os cb (set_state T_ERROR p2) w2 ch
            } else Some (1, p1, w)
          else do {
            (r, rx1) \<leftarrow> rxbuf_addc os (of_nat (t_intval t)) (p_rx p);
            let p1 = p\<lparr>p_rx := rx1\<rparr>;
            if r = -1 then Some (-1, p1, w) else recv_text_1ch os cb (set_state T_ARGSP p1) w ch
          }
      | T_STRBEG \<Rightarrow>
          if ch = 34 then Some (1, set_state T_QSTR p, w)
          else recv_text_1ch os cb (set_state T_STR p) w ch
      | T_STR \<Rightarrow>
          if eol \<or> (t_fmt t \<noteq> [] \<and> ch = 32) then do {
            rx1 \<leftarrow> (if t_fmt t = [] then rxbuf_trimspace (p_rx p) else Some (p_rx p));
            recv_text_1ch os cb (set_state T_ARGSP (p\<lparr>p_rx := rx1\<rparr>)) w ch
          } else do {
            (r, rx1) \<leftarrow> rxbuf_addc os ch (p_rx p);
            Some (if r = -1 then -1 else 1, p\<lparr>p_rx := rx1\<rparr>, w)
          }
      | T_QSTR \<Rightarrow>
          if eol then do {
            (r, p2, w2) \<leftarrow> proto_output_error cb p w PROTO_ERROR_BAD_MSG (lit ''unclosed '' @ [34]);
            Some (1, set_state T_BOL p2, w2)
          } else if ch = 92 then Some (1, p\<lparr>p_t := t\<lparr>t_counter := 3, t_intval := 0, t_state := T_QOCT\<rparr>\<rparr>, w)
          else if ch = 34 then Some (1, set_state T_ARGSP p, w)
          else do {
            (r, rx1) \<leftarrow> rxbuf_addc os ch (p_rx p);
            Some (if r = -1 then -1 else 1, p\<lparr>p_rx := rx1\<rparr>, w)
          }
      | T_QOCT \<Rightarrow>
          if ch < 48 \<or> 55 < ch then do {
            (r, p2, w2) \<leftarrow> proto_output_error cb p w PROTO_ERROR_BAD_MSG (lit ''expected octal after backslash'');
            recv_text_1ch os cb (set_state T_ERROR p2) w2 ch
          } else
            let v = (t_intval t * 8 mod 65536) OR (unat ch - 48); c = (t_counter t + 255) mod 256;
                p1 = p\<lparr>p_t := t\<lparr>t_intval := v, t_counter := c\<rparr>\<rparr> in
            if c = 0 then do {
              (r, rx1) \<leftarrow> rxbuf_addc os (of_nat v) (p_rx p1);
              let p2 = p1\<lparr>p_rx := rx1\<rparr>;
              if r = -1 then Some (-1, p2, w) else Some (1, set_state T_QSTR p2, w)
            } else Some (1, p1, w))"
  by pat_completeness auto
termination
  by (relation "measures [\<lambda>(os, cb, p, w, ch). jump_group (t_state (p_t p)),
      \<lambda>(os, cb, p, w, ch). length (t_fmt (p_t p)), \<lambda>(os, cb, p, w, ch). jump_rank (t_state (p_t p))]")
    (auto simp: jump_group_def jump_rank_def set_state_def dest: skip_bar_fmt dest!: text_word_state)

declare recv_text_1ch.simps [simp del]

text \<open>The loop of \<^verbatim>\<open>recv_text\<close> over the characters.\<close>

fun recv_text_loop :: "os \<Rightarrow> 'w cb \<Rightarrow> proto \<Rightarrow> 'w \<Rightarrow> bytes \<Rightarrow> int \<Rightarrow> (int \<times> proto \<times> 'w) option" where
  "recv_text_loop os cb p w [] ret = Some (ret, p, w)"
| "recv_text_loop os cb p w (ch # net) ret = do {
     (n, p1, w1) \<leftarrow> recv_text_1ch os cb p w ch;
     if n \<le> 0 then Some (n, p1, w1) else recv_text_loop os cb p1 w1 net (ret + n)
   }"

definition recv_text :: "os \<Rightarrow> 'w cb \<Rightarrow> proto \<Rightarrow> 'w \<Rightarrow> bytes \<Rightarrow> (int \<times> proto \<times> 'w) option" where
  "recv_text os cb p w net =
     (if net = [] then do {
        (n, p1, w1) \<leftarrow> recv_text_1ch os cb p w 10;
        if n = -1 then Some (-1, p1, w1) else input_eof cb p1 w1
      } else recv_text_loop os cb p w net 0)"

subsection \<open>The entry point\<close>

text \<open>
  \<^verbatim>\<open>proto_recv\<close>; \<open>pad\<close> is the byte at \<^verbatim>\<open>net[netlen]\<close>, which must be NUL.
\<close>

definition autodetect :: "byte \<Rightarrow> int" where
  "autodetect ch =
     (if ch = 10 \<or> ch = 13 \<or> ch = 32 \<or> (0x40 \<le> ch \<and> ch \<le> 126) then PROTO_MODE_TEXT else PROTO_MODE_BINARY)"

definition proto_recv :: "os \<Rightarrow> 'w cb \<Rightarrow> proto \<Rightarrow> 'w \<Rightarrow> bytes \<Rightarrow> byte \<Rightarrow> (int \<times> proto \<times> 'w) option" where
  "proto_recv os cb p w net pad =
     (if net = [] then do {
        (r, p1, w1) \<leftarrow> input_eof cb p w;
        Some (0, p1, w1)
      } else if pad \<noteq> 0 then do {
        w1 \<leftarrow> proto_errorv cb p w (lit ''proto_recv'') (lit ''internal error: missing NUL pad'');
        Some (-1, p, w1)
      } else
        let p1 = (if p_mode p = PROTO_MODE_UNKNOWN then p\<lparr>p_mode := autodetect (hd net)\<rparr> else p) in
        if p_mode p1 = PROTO_MODE_BINARY then recv_binary os cb p1 w net
        else if p_mode p1 = PROTO_MODE_TEXT then recv_text os cb p1 w net
        else if p_mode p1 = PROTO_MODE_FRAMED then recv_framed cb p1 w net
        else Some (-1, p1, w))"

end
