(* ===== verification/Proto_Stream.thy ===== *)
theory Proto_Stream
  imports Proto_Input
begin

text \<open>
  The stream decoders: \<^verbatim>\<open>recv_binary\<close> and \<^verbatim>\<open>recv_text\<close> deliver the same messages however the network
  cuts the stream into reads.  The binary decoder is compared with a parser of whole packets.
\<close>

subsection \<open>Definitions\<close>

text \<open>A packet, and the parser that takes complete packets off the front of a byte string.\<close>

definition enc_packet :: "byte \<times> bytes \<Rightarrow> bytes" where
  "enc_packet = (\<lambda>(m, d). [m, of_nat (length d div 256), of_nat (length d)] @ d)"

definition pkt_size :: "bytes \<Rightarrow> nat" where
  "pkt_size bs = unat (bs ! 1) * 256 + unat (bs ! 2)"

definition pkt_complete :: "bytes \<Rightarrow> bool" where
  "pkt_complete bs \<longleftrightarrow> 3 \<le> length bs \<and> 3 + pkt_size bs \<le> length bs"

function parse_packets :: "bytes \<Rightarrow> (byte \<times> bytes) list \<times> bytes" where
  "parse_packets bs =
     (if \<not> pkt_complete bs then ([], bs)
      else let (ms, rest) = parse_packets (drop (3 + pkt_size bs) bs)
        in ((bs ! 0, take (pkt_size bs) (drop 3 bs)) # ms, rest))"
  by pat_completeness auto
termination
  by (relation "measure length") (auto simp: pkt_complete_def)

text \<open>No packet announces more than the receive buffer can hold with its header and padding.\<close>

function packets_fit :: "bytes \<Rightarrow> bool" where
  "packets_fit bs =
     (if length bs < 3 then True
      else if 65532 \<le> pkt_size bs then False
      else if pkt_complete bs then packets_fit (drop (3 + pkt_size bs) bs) else True)"
  by pat_completeness auto
termination
  by (relation "measure length") (auto simp: pkt_complete_def)

declare parse_packets.simps [simp del] packets_fit.simps [simp del]

text \<open>An \<^verbatim>\<open>on_input\<close> that takes every message, leaving the translator alone.\<close>

definition accepts :: "'w cb \<Rightarrow> ('w \<Rightarrow> byte \<Rightarrow> bytes \<Rightarrow> 'w) \<Rightarrow> bool" where
  "accepts cb step \<longleftrightarrow> (\<forall>p w m d. \<exists>n>0. cb_input cb p w m d = Some (n, p, step w m d))"

definition deliver_all :: "('w \<Rightarrow> byte \<Rightarrow> bytes \<Rightarrow> 'w) \<Rightarrow> (byte \<times> bytes) list \<Rightarrow> 'w \<Rightarrow> 'w" where
  "deliver_all step ms w = fold (\<lambda>(m, d) w. step w m d) ms w"

text \<open>Reading fragments one after the other; \<open>None\<close> is a fault or the end of the connection.\<close>

fun feed_all :: "('s \<Rightarrow> 'w \<Rightarrow> bytes \<Rightarrow> (int \<times> 's \<times> 'w) option) \<Rightarrow> bytes list \<Rightarrow> 's \<Rightarrow> 'w \<Rightarrow> ('s \<times> 'w) option" where
  "feed_all feed [] s w = Some (s, w)"
| "feed_all feed (f # fs) s w = do {
     (r, s1, w1) \<leftarrow> feed s w f;
     if r \<le> 0 then None else feed_all feed fs s1 w1
   }"

text \<open>
  A sender whose network is the list of the bytes sent so far: each message goes out through
  \<^verbatim>\<open>proto_output\<close> with the format \<^verbatim>\<open>%*s\<close>.
\<close>

definition wire_cb :: "bytes cb" where
  "wire_cb = \<lparr>cb_input = (\<lambda>p w m d. None), cb_sendv = (\<lambda>p w bs. Some (int (length bs), w @ bs)),
     cb_error = (\<lambda>p w msg. Some w)\<rparr>"

fun send_all :: "proto \<Rightarrow> (byte \<times> bytes) list \<Rightarrow> bytes \<Rightarrow> bytes option" where
  "send_all p [] w = Some w"
| "send_all p ((m, d) # ms) w = do {
     (r, p1, w1) \<leftarrow> proto_output wire_cb p w m (lit ''%*s'') [ArgInt (int (length d)), ArgStr d];
     if r < 0 then None else send_all p1 ms w1
   }"

text \<open>An application that records what it receives, and a translator that has received nothing.\<close>

definition record_cb :: "(byte \<times> bytes) list cb" where
  "record_cb = \<lparr>cb_input = (\<lambda>p w m d. Some (1, p, w @ [(m, d)])), cb_sendv = (\<lambda>p w bs. Some (0, w)),
     cb_error = (\<lambda>p w msg. Some w)\<rparr>"

definition fresh_proto :: "int \<Rightarrow> proto" where
  "fresh_proto mode = \<lparr>p_mode = mode, p_on_input = Set, p_on_sendv = Set, p_on_error = Set, p_rx = rxbuf_init,
     p_t = \<lparr>t_state = T_BOL, t_fmt = [], t_intval = 0, t_cmd = [], t_counter = 0, t_optional = False\<rparr>\<rparr>"

text \<open>What the interface below sees of the binary decoder.\<close>

definition binary_feed ::
  "os \<times> 'w cb \<times> ('w \<Rightarrow> byte \<Rightarrow> bytes \<Rightarrow> 'w) \<times> proto \<Rightarrow> 'w \<Rightarrow> bytes \<Rightarrow>
   (int \<times> (os \<times> 'w cb \<times> ('w \<Rightarrow> byte \<Rightarrow> bytes \<Rightarrow> 'w) \<times> proto) \<times> 'w) option" where
  "binary_feed = (\<lambda>(os, cb, step, p) w net.
     do { (r, p1, w1) \<leftarrow> proto_recv os cb p w net 0; Some (r, (os, cb, step, p1), w1) })"

definition binary_ready :: "os \<times> 'w cb \<times> ('w \<Rightarrow> byte \<Rightarrow> bytes \<Rightarrow> 'w) \<times> proto \<Rightarrow> bool" where
  "binary_ready = (\<lambda>(os, cb, step, p). (\<forall>n. os_realloc os n) \<and> accepts cb step \<and> p_mode p = PROTO_MODE_BINARY \<and> p_on_input p = Set \<and>
     rx_ok (p_rx p) \<and> \<not> pkt_complete (rx_data (p_rx p)))"

definition binary_obs ::
  "os \<times> 'w cb \<times> ('w \<Rightarrow> byte \<Rightarrow> bytes \<Rightarrow> 'w) \<times> proto \<Rightarrow> ('w \<Rightarrow> byte \<Rightarrow> bytes \<Rightarrow> 'w) \<times> bytes" where
  "binary_obs = (\<lambda>(os, cb, step, p). (step, rx_data (p_rx p)))"

definition binary_delta ::
  "('w \<Rightarrow> byte \<Rightarrow> bytes \<Rightarrow> 'w) \<times> bytes \<Rightarrow> 'w \<Rightarrow> bytes \<Rightarrow> (('w \<Rightarrow> byte \<Rightarrow> bytes \<Rightarrow> 'w) \<times> bytes) \<times> 'w" where
  "binary_delta = (\<lambda>(step, pend) w net.
     let (ms, rest) = parse_packets (pend @ net) in ((step, rest), deliver_all step ms w))"

definition binary_fits :: "('w \<Rightarrow> byte \<Rightarrow> bytes \<Rightarrow> 'w) \<times> bytes \<Rightarrow> 'w \<Rightarrow> bytes \<Rightarrow> bool" where
  "binary_fits = (\<lambda>(step, pend) w net. packets_fit (pend @ net))"

text \<open>And of the text decoder, which is its own abstraction.\<close>

definition text_feed :: "os \<times> 'w cb \<times> proto \<Rightarrow> 'w \<Rightarrow> bytes \<Rightarrow> (int \<times> (os \<times> 'w cb \<times> proto) \<times> 'w) option" where
  "text_feed = (\<lambda>(os, cb, p) w net. do { (r, p1, w1) \<leftarrow> recv_text os cb p w net; Some (r, (os, cb, p1), w1) })"

definition text_fits :: "os \<times> 'w cb \<times> proto \<Rightarrow> 'w \<Rightarrow> bytes \<Rightarrow> bool" where
  "text_fits = (\<lambda>(os, cb, p) w net. net = [] \<or> (case recv_text_loop os cb p w net 0 of None \<Rightarrow> False | Some (r, p1, w1) \<Rightarrow> 0 < r))"

definition text_delta :: "os \<times> 'w cb \<times> proto \<Rightarrow> 'w \<Rightarrow> bytes \<Rightarrow> (os \<times> 'w cb \<times> proto) \<times> 'w" where
  "text_delta = (\<lambda>(os, cb, p) w net.
     case recv_text_loop os cb p w net 0 of None \<Rightarrow> ((os, cb, p), w) | Some (r, p1, w1) \<Rightarrow> ((os, cb, p1), w1))"

subsection \<open>Packets\<close>

lemma packets_fit_iff:
  "packets_fit bs \<longleftrightarrow>
     length bs < 3 \<or> (pkt_size bs < 65532 \<and> (pkt_complete bs \<longrightarrow> packets_fit (drop (3 + pkt_size bs) bs)))"
  by (subst packets_fit.simps) auto

lemma parse_incomplete: "\<not> pkt_complete bs \<Longrightarrow> parse_packets bs = ([], bs)"
  by (simp add: parse_packets.simps)

lemma pkt_size_append [simp]: "3 \<le> length bs \<Longrightarrow> pkt_size (bs @ xs) = pkt_size bs"
  by (simp add: pkt_size_def nth_append)

lemma parse_packet:
  "3 \<le> length bs \<Longrightarrow> length bs = 3 + pkt_size bs \<Longrightarrow>
   parse_packets (bs @ xs) = ((bs ! 0, drop 3 bs) # fst (parse_packets xs), snd (parse_packets xs))"
  by (subst parse_packets.simps) (auto simp: pkt_complete_def nth_append split: prod.splits)

lemma fit_packet:
  "3 \<le> length bs \<Longrightarrow> length bs = 3 + pkt_size bs \<Longrightarrow> packets_fit (bs @ xs) \<longleftrightarrow> pkt_size bs < 65532 \<and> packets_fit xs"
  by (subst packets_fit_iff) (auto simp: pkt_complete_def)

lemma fit_size: "packets_fit (bs @ xs) \<Longrightarrow> 3 \<le> length bs \<Longrightarrow> pkt_size bs < 65532"
  by (simp add: packets_fit_iff [of "bs @ xs"])

lemma parse_append:
  "parse_packets (bs @ xs) =
     (let (ms, rest) = parse_packets bs; (ms', rest') = parse_packets (rest @ xs) in (ms @ ms', rest'))"
proof (induction bs rule: parse_packets.induct)
  case (1 bs)
  show ?case
  proof (cases "pkt_complete bs")
    case True
    have p: "pkt_complete (bs @ xs)" "pkt_size (bs @ xs) = pkt_size bs" using True by (auto simp: pkt_complete_def)
    have *: "drop (3 + pkt_size bs) (bs @ xs) = drop (3 + pkt_size bs) bs @ xs"
      "take (pkt_size bs) (drop 3 (bs @ xs)) = take (pkt_size bs) (drop 3 bs)" "(bs @ xs) ! 0 = bs ! 0"
      using True by (auto simp: pkt_complete_def nth_append)
    show ?thesis
      by (subst parse_packets.simps, subst (2) parse_packets.simps)
        (use 1 True p * in \<open>auto split: prod.splits\<close>)
  qed (simp add: parse_incomplete)
qed

lemma parse_rest_incomplete: "\<not> pkt_complete (snd (parse_packets bs))"
proof (induction bs rule: parse_packets.induct)
  case (1 bs)
  then show ?case by (subst parse_packets.simps) (auto split: prod.splits)
qed

lemma fit_append:
  "packets_fit (bs @ xs) \<Longrightarrow> packets_fit bs \<and> packets_fit (snd (parse_packets bs) @ xs)"
proof (induction bs rule: parse_packets.induct)
  case (1 bs)
  show ?case
  proof (cases "pkt_complete bs")
    case True
    then have c: "pkt_complete (bs @ xs)" "3 \<le> length bs" "\<not> length bs < 3" by (auto simp: pkt_complete_def)
    have d: "drop (3 + pkt_size bs) (bs @ xs) = drop (3 + pkt_size bs) bs @ xs" using True by (simp add: pkt_complete_def)
    have f: "pkt_size bs < 65532" "packets_fit (drop (3 + pkt_size bs) bs @ xs)"
      using 1(2) c d by (simp_all add: packets_fit_iff [of "bs @ xs"])
    have "snd (parse_packets bs) = snd (parse_packets (drop (3 + pkt_size bs) bs))"
      using True by (subst parse_packets.simps) (auto split: prod.splits)
    then show ?thesis using 1(1) [OF _ f(2)] True f(1) by (auto simp: packets_fit_iff [of bs])
  next
    case False
    then show ?thesis using 1(2) fit_size [of bs xs] by (cases "length bs < 3") (auto simp: parse_incomplete packets_fit_iff [of bs])
  qed
qed

lemma deliver_all_simps [simp]:
  "deliver_all step [] w = w" "deliver_all step ((m, d) # ms) w = deliver_all step ms (step w m d)"
  "deliver_all step (xs @ ys) w = deliver_all step ys (deliver_all step xs w)"
  by (simp_all add: deliver_all_def)

subsection \<open>The binary decoder\<close>

lemma binary_pkt_len_ok:
  "rx_ok rx \<Longrightarrow> binary_pkt_len rx = Some (if rx_len rx < 3 then 0xffff else pkt_size (rx_data rx))"
  by (auto simp: binary_pkt_len_def peek_def rx_ok_def rx_data_def pkt_size_def numeral_2_eq_2)

lemma binary_want_ok:
  assumes "rx_ok rx" "\<And>n. os_realloc os n" "\<not> pkt_complete (rx_data rx)" "rx_len rx < 3 \<or> pkt_size (rx_data rx) < 65532"
  obtains rx1 where "binary_want os rx = Some (0, rx1, (if rx_len rx < 3 then 3 else 3 + pkt_size (rx_data rx)) - rx_len rx)"
    "rx_ok rx1" "rx_data rx1 = rx_data rx" "rx_len rx1 = rx_len rx"
proof (cases "rx_len rx < 3")
  case True
  then have "rx_len rx \<le> 3" by simp
  with assms(1) show thesis
    by (cases rule: rxbuf_resize_ok [where os = os])
      (use True assms that in \<open>auto simp: binary_want_def binary_pkt_len_ok\<close>)
next
  case False
  then have le: "rx_len rx \<le> 3 + pkt_size (rx_data rx)" "3 + pkt_size (rx_data rx) < 4294967296"
    using assms by (auto simp: pkt_complete_def)
  then have "sub32 (3 + pkt_size (rx_data rx)) (rx_len rx) = 3 + pkt_size (rx_data rx) - rx_len rx"
    by (intro sub32_id) simp_all
  with assms(1) le(1) show thesis
    by (cases rule: rxbuf_resize_ok [where os = os])
      (use False assms that in \<open>auto simp: binary_want_def binary_pkt_len_ok\<close>)
qed

lemma binary_deliver_ok:
  assumes "rx_ok (p_rx p)" "\<And>n. os_realloc os n" "accepts cb step" "p_on_input p = Set"
    "3 \<le> rx_len (p_rx p)" "rx_len (p_rx p) = 3 + sz" "sz < 65532"
  obtains n rx where "binary_deliver os cb p w sz = Some (Inr n, p\<lparr>p_rx := rx\<rparr>,
      step w (rx_data (p_rx p) ! 0) (drop 3 (rx_data (p_rx p))))" "0 < n" "rx_ok rx" "rx_data rx = []"
  using assms(1)
proof (cases rule: rxbuf_zeropad_ok [where os = os])
  case fail
  then show thesis using assms by simp
next
  case (ok rx1)
  obtain n where n: "0 < n" "cb_input cb (p\<lparr>p_rx := rx1\<rparr>) w (rx_data (p_rx p) ! 0) (drop 3 (rx_data (p_rx p))) =
      Some (n, p\<lparr>p_rx := rx1\<rparr>, step w (rx_data (p_rx p) ! 0) (drop 3 (rx_data (p_rx p))))"
    using assms(3) unfolding accepts_def by meson
  obtain rx2 where c: "rxbuf_clear os 3 rx1 = Some (0, rx2)" "rx_ok rx2" "rx_data rx2 = []"
    using rxbuf_clear_ok [OF ok(2), of 3 os] assms(2) by auto
  have d: "rx_data (p_rx p) = take (3 + sz) (rx_buf rx1)" "3 + sz < length (rx_buf rx1)"
    using ok assms(6) by (simp_all add: rx_data_def)
  have m: "peek (rx_buf rx1) 0 1 = Some [rx_data (p_rx p) ! 0]" "peek (rx_buf rx1) 3 sz = Some (drop 3 (rx_data (p_rx p)))"
    using d by (cases "rx_buf rx1"; auto simp: peek_def drop_take)+
  show thesis
    by (rule that [of n rx2]) (use n c ok(1) m assms(4) in \<open>simp_all add: binary_deliver_def\<close>)
qed

text \<open>One pass of the loop: it takes some bytes, and hands over the packet if they complete it.\<close>

lemma binary_loop_step:
  assumes ok: "binary_ready (os, cb, step, p)" and net: "net \<noteq> []" and fit: "packets_fit (rx_data (p_rx p) @ net)"
  obtains n rx x ms where "0 < n" "n \<le> length net" "0 \<le> x"
    "recv_binary_loop os cb p w net ret =
       recv_binary_loop os cb (p\<lparr>p_rx := rx\<rparr>) (deliver_all step ms w) (drop n net) (ret + int n + x)"
    "rx_ok rx" "\<not> pkt_complete (rx_data rx)" "packets_fit (rx_data rx @ drop n net)"
    "parse_packets (rx_data (p_rx p) @ net) =
       (ms @ fst (parse_packets (rx_data rx @ drop n net)), snd (parse_packets (rx_data rx @ drop n net)))"
proof -
  let ?rx = "p_rx p" and ?pend = "rx_data (p_rx p)"
  define want where "want = (if rx_len ?rx < 3 then 3 else 3 + pkt_size ?pend) - rx_len ?rx"
  define n where "n = min want (length net)"
  define got where "got = ?pend @ take n net"
  have r: "\<And>n. os_realloc os n" "accepts cb step" "p_on_input p = Set" "rx_ok ?rx" "\<not> pkt_complete ?pend"
    using ok by (simp_all add: binary_ready_def)
  have small: "rx_len ?rx < 3 \<or> pkt_size ?pend < 65532" using fit_size [OF fit] r(4) by (cases "rx_len ?rx < 3") auto
  obtain rx1 where w1: "binary_want os ?rx = Some (0, rx1, want)" "rx_ok rx1" "rx_data rx1 = ?pend" "rx_len rx1 = rx_len ?rx"
    using binary_want_ok [OF r(4,1,5) small] unfolding want_def .
  have want: "0 < want" using r(4,5) by (auto simp: pkt_complete_def want_def)
  have n: "0 < n" "n \<le> length net" "n \<le> want" using want net by (simp_all add: n_def)
  have "rx_len ?rx + want < 0x10000" using small want by (auto simp: want_def split: if_splits)
  then have bound: "rx_len ?rx + n < 0x10000" using n(3) by linarith
  obtain rx2 where a: "rxbuf_add os (take n net) rx1 = Some (0, rx2)" "rx_ok rx2" "rx_data rx2 = got"
    "rx_len rx2 = rx_len ?rx + n"
    using w1(2)
  proof (cases rule: rxbuf_add_ok [where os = os and p = "take n net"])
    case fail
    then show ?thesis using r(1) bound w1(4) n(2) by simp
  next
    case (ok rx')
    then show ?thesis using that w1 n(2) by (simp add: got_def)
  qed
  have got: "got @ drop n net = ?pend @ net" by (simp add: got_def)
  define sz where "sz = (if rx_len rx2 < 3 then 0xffff else pkt_size got)"
  have sz: "binary_pkt_len rx2 = Some sz" using binary_pkt_len_ok [OF a(2)] a(3) by (simp add: sz_def)
  note unf = recv_binary_loop.simps [of os cb p w net ret] w1(1) n_def [symmetric] a(1) sz
  have len: "length got = rx_len rx2" using a by (simp flip: a(3))
  show thesis
  proof (cases "3 \<le> rx_len rx2 \<and> rx_len rx2 = 3 + sz")
    case True
    then have c: "3 \<le> length got" "length got = 3 + pkt_size got" "sz = pkt_size got" using len by (auto simp: sz_def split: if_splits)
    have fits: "pkt_size got < 65532" "packets_fit (drop n net)" using fit fit_packet [OF c(1,2), of "drop n net"] unfolding got by blast+
    obtain x rx where d: "binary_deliver os cb (p\<lparr>p_rx := rx2\<rparr>) w (pkt_size got) =
        Some (Inr x, p\<lparr>p_rx := rx\<rparr>, step w (got ! 0) (drop 3 got))" "0 < x" "rx_ok rx" "rx_data rx = []"
      using binary_deliver_ok [of "p\<lparr>p_rx := rx2\<rparr>" os cb step "pkt_size got" w] a r c len fits by auto
    show thesis
      by (rule that [of n x rx "[(got ! 0, drop 3 got)]"])
        (use n d c True net fits parse_packet [OF c(1,2), of "drop n net"] got in \<open>simp_all add: unf pkt_complete_def\<close>)
  next
    case False
    have "rx_len rx2 \<le> 3 + pkt_size got" if "3 \<le> rx_len rx2"
    proof (cases "rx_len ?rx < 3")
      case False
      then have "pkt_size got = pkt_size ?pend" using r(4) by (simp add: got_def)
      then show ?thesis using a(4) False n(1,3) by (simp add: want_def)
    qed (use a(4) n(3) in \<open>simp add: want_def\<close>)
    then have "\<not> pkt_complete got" using False by (auto simp: pkt_complete_def len sz_def)
    then show thesis
      by (intro that [of n 0 rx2 "[]"]) (use n a False net fit got in \<open>auto simp: unf\<close>)
  qed
qed

lemma binary_loop:
  "binary_ready (os, cb, step, p) \<Longrightarrow> packets_fit (rx_data (p_rx p) @ net) \<Longrightarrow>
   \<exists>r rx. recv_binary_loop os cb p w net ret =
       Some (r, p\<lparr>p_rx := rx\<rparr>, deliver_all step (fst (parse_packets (rx_data (p_rx p) @ net))) w) \<and>
     ret + int (length net) \<le> r \<and> binary_ready (os, cb, step, p\<lparr>p_rx := rx\<rparr>) \<and>
     rx_data rx = snd (parse_packets (rx_data (p_rx p) @ net))"
proof (induction "length net" arbitrary: net p w ret rule: less_induct)
  case less
  show ?case
  proof (cases "net = []")
    case True
    have "\<not> pkt_complete (rx_data (p_rx p))" using less.prems(1) by (simp add: binary_ready_def)
    then show ?thesis using less.prems(1) True
      by (intro exI [of _ ret] exI [of _ "p_rx p"]) (simp add: recv_binary_loop.simps parse_incomplete)
  next
    case False
    obtain n rx x ms where s: "0 < n" "n \<le> length net" "0 \<le> x"
      "recv_binary_loop os cb p w net ret =
         recv_binary_loop os cb (p\<lparr>p_rx := rx\<rparr>) (deliver_all step ms w) (drop n net) (ret + int n + x)"
      "rx_ok rx" "\<not> pkt_complete (rx_data rx)" "packets_fit (rx_data rx @ drop n net)"
      "parse_packets (rx_data (p_rx p) @ net) =
         (ms @ fst (parse_packets (rx_data rx @ drop n net)), snd (parse_packets (rx_data rx @ drop n net)))"
      using binary_loop_step [OF less.prems(1) False less.prems(2), where w = w and ret = ret] .
    have "length (drop n net) < length net" "binary_ready (os, cb, step, p\<lparr>p_rx := rx\<rparr>)"
      using s less.prems(1) by (auto simp: binary_ready_def)
    from less.hyps [OF this, of "deliver_all step ms w" "ret + int n + x"] s(2,3,4,7,8) show ?thesis
      by fastforce
  qed
qed

subsection \<open>The interface of a stream decoder\<close>

text \<open>
  A decoder is fed whatever a read returns.  \<open>obs\<close> is the part of its state that matters, \<open>delta\<close>
  what a stretch of the stream does to it and to the application, \<open>safe\<close> when that stretch is
  decoded without an error.
\<close>

locale stream_decoder =
  fixes feed :: "'s \<Rightarrow> 'w \<Rightarrow> bytes \<Rightarrow> (int \<times> 's \<times> 'w) option"
    and ready :: "'s \<Rightarrow> bool"
    and obs :: "'s \<Rightarrow> 'o"
    and safe :: "'o \<Rightarrow> 'w \<Rightarrow> bytes \<Rightarrow> bool"
    and delta :: "'o \<Rightarrow> 'w \<Rightarrow> bytes \<Rightarrow> 'o \<times> 'w"
  assumes feed_delta: "ready s \<Longrightarrow> net \<noteq> [] \<Longrightarrow> safe (obs s) w net \<Longrightarrow>
      \<exists>r s'. feed s w net = Some (r, s', snd (delta (obs s) w net)) \<and> 0 < r \<and> ready s' \<and> obs s' = fst (delta (obs s) w net)"
    and safe_append: "safe a w (xs @ ys) \<Longrightarrow> safe a w xs \<and> safe (fst (delta a w xs)) (snd (delta a w xs)) ys"
    and delta_append: "safe a w (xs @ ys) \<Longrightarrow> delta a w (xs @ ys) = delta (fst (delta a w xs)) (snd (delta a w xs)) ys"
    and delta_Nil: "ready s \<Longrightarrow> delta (obs s) w [] = (obs s, w)"
begin

lemma feed_all_delta:
  "ready s \<Longrightarrow> [] \<notin> set frags \<Longrightarrow> safe (obs s) w (concat frags) \<Longrightarrow>
   \<exists>s'. feed_all feed frags s w = Some (s', snd (delta (obs s) w (concat frags))) \<and> ready s' \<and>
     obs s' = fst (delta (obs s) w (concat frags))"
proof (induction frags arbitrary: s w)
  case Nil
  then show ?case by (simp add: delta_Nil)
next
  case (Cons f fs)
  let ?d = "delta (obs s) w f"
  have safe: "safe (obs s) w f" "safe (fst ?d) (snd ?d) (concat fs)" using safe_append Cons.prems(3) by auto
  obtain r s1 where f: "feed s w f = Some (r, s1, snd ?d)" "0 < r" "ready s1" "obs s1 = fst ?d"
    using feed_delta [OF Cons.prems(1) _ safe(1)] Cons.prems(2) by auto
  have "[] \<notin> set fs" using Cons.prems(2) by simp
  from Cons.IH [OF f(3) this, of "snd ?d"] safe(2) show ?case
    using f delta_append [of "obs s" w f "concat fs"] Cons.prems(3) by simp
qed

text \<open>The way a stream is cut into reads does not matter.\<close>

lemma cuts_agree:
  assumes "ready s" "[] \<notin> set fs" "[] \<notin> set gs" "concat fs = concat gs" "safe (obs s) w (concat fs)"
  shows "\<exists>s1 s2 w'. feed_all feed fs s w = Some (s1, w') \<and> feed_all feed gs s w = Some (s2, w') \<and> obs s1 = obs s2"
  using feed_all_delta [OF assms(1,2,5)] feed_all_delta [OF assms(1,3), of w] assms(4,5) by auto

end

interpretation binary_stream: stream_decoder binary_feed binary_ready binary_obs
  binary_fits binary_delta
proof unfold_locales
  fix s :: "os \<times> 'a cb \<times> ('a \<Rightarrow> byte \<Rightarrow> bytes \<Rightarrow> 'a) \<times> proto" and net and w :: 'a
  assume a: "binary_ready s" "net \<noteq> []" "binary_fits (binary_obs s) w net"
  obtain os cb step p where s: "s = (os, cb, step, p)" by (cases s) auto
  show "\<exists>r s'. binary_feed s w net = Some (r, s', snd (binary_delta (binary_obs s) w net)) \<and> 0 < r \<and>
    binary_ready s' \<and> binary_obs s' = fst (binary_delta (binary_obs s) w net)"
  proof -
    have "packets_fit (rx_data (p_rx p) @ net)" using a(3) by (simp add: s binary_obs_def binary_fits_def)
    then obtain r rx where r: "recv_binary_loop os cb p w net 0 =
        Some (r, p\<lparr>p_rx := rx\<rparr>, deliver_all step (fst (parse_packets (rx_data (p_rx p) @ net))) w)"
      "int (length net) \<le> r" "binary_ready (os, cb, step, p\<lparr>p_rx := rx\<rparr>)"
      "rx_data rx = snd (parse_packets (rx_data (p_rx p) @ net))"
      using binary_loop [of os cb step p net w 0] a(1) by (auto simp: s)
    have "0 < int (length net)" "p_mode p = PROTO_MODE_BINARY" using a(1,2) by (simp_all add: s binary_ready_def)
    then have "0 < r" "proto_recv os cb p w net 0 = recv_binary_loop os cb p w net 0"
      using r(2) a(2) by (linarith, simp add: proto_recv_def recv_binary_def mode_defs)
    then show ?thesis using r
      by (intro exI [of _ r] exI [of _ "(os, cb, step, p\<lparr>p_rx := rx\<rparr>)"])
        (auto simp: s binary_feed_def binary_obs_def binary_delta_def split: prod.splits)
  qed
next
  fix a :: "('a \<Rightarrow> byte \<Rightarrow> bytes \<Rightarrow> 'a) \<times> bytes" and w :: 'a and xs ys
  obtain step pend where a: "a = (step, pend)" by (cases a)
  assume f: "binary_fits a w (xs @ ys)"
  show "binary_fits a w xs \<and>
    binary_fits (fst (binary_delta a w xs)) (snd (binary_delta a w xs)) ys"
    using fit_append [of "pend @ xs" ys] f by (auto simp: a binary_delta_def binary_fits_def split: prod.splits)
  show "binary_delta a w (xs @ ys) = binary_delta (fst (binary_delta a w xs)) (snd (binary_delta a w xs)) ys"
    using parse_append [of "pend @ xs" ys] by (simp add: a binary_delta_def split: prod.splits)
qed (auto simp: binary_delta_def binary_obs_def binary_ready_def parse_incomplete)

subsection \<open>The text decoder\<close>

text \<open>The characters are handled one by one, and the running total does not matter.\<close>

lemma text_loop_total:
  "recv_text_loop os cb p w xs ret = Some (r, p1, w1) \<Longrightarrow> 0 < r \<Longrightarrow> 0 \<le> ret \<Longrightarrow> 0 \<le> k \<Longrightarrow>
   recv_text_loop os cb p w xs k = Some (r - ret + k, p1, w1) \<and> int (length xs) \<le> r - ret"
proof (induction xs arbitrary: p w ret k)
  case (Cons x xs)
  obtain n p2 w2 where c: "recv_text_1ch os cb p w x = Some (n, p2, w2)" "0 < n"
    "recv_text_loop os cb p2 w2 xs (ret + n) = Some (r, p1, w1)"
    using Cons.prems(1,2) by (auto split: bind_splits if_splits)
  show ?case using Cons.IH [OF c(3) Cons.prems(2), of "k + n"] Cons.prems c by simp
qed simp

lemma text_loop_append:
  "recv_text_loop os cb p w xs ret = Some (r, p1, w1) \<Longrightarrow> 0 < r \<or> xs = [] \<Longrightarrow> 0 \<le> ret \<Longrightarrow>
   recv_text_loop os cb p w (xs @ ys) ret = recv_text_loop os cb p1 w1 ys r"
proof (induction xs arbitrary: p w ret)
  case (Cons x xs)
  then show ?case by (auto split: bind_splits if_splits)
qed simp

lemma text_loop_prefix:
  "recv_text_loop os cb p w (xs @ ys) ret = Some (r, p1, w1) \<Longrightarrow> 0 < r \<Longrightarrow> 0 \<le> ret \<Longrightarrow>
   \<exists>r2 p2 w2. recv_text_loop os cb p w xs ret = Some (r2, p2, w2) \<and> ret + int (length xs) \<le> r2"
proof (induction xs arbitrary: p w ret)
  case (Cons x xs)
  obtain n p2 w2 where c: "recv_text_1ch os cb p w x = Some (n, p2, w2)" "0 < n"
    "recv_text_loop os cb p2 w2 (xs @ ys) (ret + n) = Some (r, p1, w1)"
    using Cons.prems(1,2) by (auto split: bind_splits if_splits)
  show ?case using Cons.IH [OF c(3) Cons.prems(2)] Cons.prems c by fastforce
qed simp

interpretation text_stream: stream_decoder text_feed "\<lambda>s. True" "\<lambda>s. s" text_fits text_delta
proof unfold_locales
  fix s :: "os \<times> 'a cb \<times> proto" and net and w :: 'a
  assume "net \<noteq> []" "text_fits s w net"
  then show "\<exists>r s'. text_feed s w net = Some (r, s', snd (text_delta s w net)) \<and> 0 < r \<and> True \<and> s' = fst (text_delta s w net)"
    by (cases s) (auto simp: text_feed_def recv_text_def text_fits_def text_delta_def split: option.splits)
next
  fix a :: "os \<times> 'a cb \<times> proto" and w :: 'a and xs ys
  assume fits: "text_fits a w (xs @ ys)"
  obtain os cb p where a: "a = (os, cb, p)" by (cases a)
  have "text_fits a w xs \<and> text_fits (fst (text_delta a w xs)) (snd (text_delta a w xs)) ys \<and>
    text_delta a w (xs @ ys) = text_delta (fst (text_delta a w xs)) (snd (text_delta a w xs)) ys"
  proof (cases "xs = [] \<or> ys = []")
    case True
    then show ?thesis using fits by (auto simp: a text_fits_def text_delta_def split: option.splits)
  next
    case False
    obtain r p1 w1 where r: "recv_text_loop os cb p w (xs @ ys) 0 = Some (r, p1, w1)" "0 < r"
      using fits False by (auto simp: a text_fits_def split: option.splits)
    obtain r2 p2 w2 where x: "recv_text_loop os cb p w xs 0 = Some (r2, p2, w2)" "int (length xs) \<le> r2"
      using text_loop_prefix [OF r] by auto
    have pos: "0 < r2" using x(2) False by (cases xs) auto
    have y: "recv_text_loop os cb p2 w2 ys r2 = Some (r, p1, w1)" using text_loop_append [OF x(1), of ys] r(1) pos by simp
    have "recv_text_loop os cb p2 w2 ys 0 = Some (r - r2, p1, w1)" "int (length ys) \<le> r - r2"
      using text_loop_total [OF y r(2), of 0] pos by simp_all
    moreover have "0 < int (length ys)" using False by simp
    ultimately have "recv_text_loop os cb p2 w2 ys 0 = Some (r - r2, p1, w1)" "0 < r - r2" by linarith+
    then show ?thesis using r x pos by (simp add: a text_fits_def text_delta_def)
  qed
  then show "text_fits a w xs \<and> text_fits (fst (text_delta a w xs)) (snd (text_delta a w xs)) ys"
    "text_delta a w (xs @ ys) = text_delta (fst (text_delta a w xs)) (snd (text_delta a w xs)) ys" by simp_all
qed (auto simp: text_delta_def)

subsection \<open>Properties\<close>

lemma pkt_size_enc: "length d < 65536 \<Longrightarrow> pkt_size (enc_packet (m, d)) = length d"
proof -
  assume "length d < 65536"
  then have "length d div 256 < 256" by simp
  then have "unat (of_nat (length d div 256) :: byte) = length d div 256" by (simp add: unat_of_nat)
  moreover have "unat (of_nat (length d) :: byte) = length d mod 256" by (simp add: unat_of_nat)
  ultimately show ?thesis by (simp add: pkt_size_def enc_packet_def)
qed

lemma parse_enc:
  "\<forall>(m, d)\<in>set ms. length d < 65532 \<Longrightarrow>
   parse_packets (concat (map enc_packet ms)) = (ms, []) \<and> packets_fit (concat (map enc_packet ms))"
proof (induction ms)
  case Nil
  have "packets_fit []" by (subst packets_fit_iff) simp
  then show ?case by (simp add: parse_incomplete pkt_complete_def)
next
  case (Cons md ms)
  obtain m d where md: "md = (m, d)" by (cases md)
  have "length d < 65532" using Cons.prems by (simp add: md)
  moreover from this have "pkt_size (enc_packet md) = length d" using pkt_size_enc [of d m] by (simp add: md)
  moreover have "length (enc_packet md) = 3 + length d" by (simp add: md enc_packet_def)
  ultimately have l: "3 \<le> length (enc_packet md)" "length (enc_packet md) = 3 + pkt_size (enc_packet md)"
    "pkt_size (enc_packet md) < 65532" by simp_all
  have d: "(enc_packet md ! 0, drop 3 (enc_packet md)) = md" by (simp add: md enc_packet_def)
  have ih: "parse_packets (concat (map enc_packet ms)) = (ms, [])" "packets_fit (concat (map enc_packet ms))"
    using Cons by simp_all
  have "parse_packets (enc_packet md @ concat (map enc_packet ms)) = (md # ms, [])"
    unfolding parse_packet [OF l(1,2)] ih d by simp
  then show ?case using fit_packet [OF l(1,2), of "concat (map enc_packet ms)"] ih(2) l(3) by simp
qed

lemma feed_all_binary:
  "feed_all binary_feed frags (os, cb, step, p) w =
   map_option (\<lambda>(p1, w1). ((os, cb, step, p1), w1)) (feed_all (\<lambda>p w net. proto_recv os cb p w net 0) frags p w)"
  by (induction frags arbitrary: p w) (auto simp: binary_feed_def split: bind_splits)

lemma output_packet:
  assumes "p_mode p = PROTO_MODE_BINARY" "p_on_sendv p = Set" "length d < 65536"
  shows "proto_output cb p w m (lit ''%*s'') [ArgInt (int (length d)), ArgStr d] =
    map_option (\<lambda>(r, w1). (r, p, w1)) (cb_sendv cb p w (enc_packet (m, d)))"
proof -
  have "size_t (int (length d)) = length d" using assms(3) by (simp add: size_t_def)
  then show ?thesis using assms
    by (simp add: proto_output_def proto_outputv_def mode_defs output_binary_def lit_def iov_size_def sendv_def
        peek_def enc_packet_def Let_def) (cases "cb_sendv cb p w (m # of_nat (length d div 256) # of_nat (length d) # d)"; auto)
qed

lemma send_all_packets:
  "p_mode p = PROTO_MODE_BINARY \<Longrightarrow> p_on_sendv p = Set \<Longrightarrow> \<forall>(m, d)\<in>set ms. length d < 65532 \<Longrightarrow>
   send_all p ms w = Some (w @ concat (map enc_packet ms))"
proof (induction ms arbitrary: w)
  case (Cons md ms)
  obtain m d where md: "md = (m, d)" by (cases md)
  have "length d < 65536" using Cons.prems(3) by (simp add: md)
  then have "proto_output wire_cb p w m (lit ''%*s'') [ArgInt (int (length d)), ArgStr d] =
      Some (int (length (enc_packet (m, d))), p, w @ enc_packet (m, d))"
    by (simp add: output_packet [OF Cons.prems(1,2)] wire_cb_def)
  then show ?case using Cons by (simp add: md)
qed simp

lemma fresh_proto_simps [simp]:
  "p_mode (fresh_proto m) = m" "p_on_input (fresh_proto m) = Set" "p_on_sendv (fresh_proto m) = Set"
  "p_on_error (fresh_proto m) = Set" "p_rx (fresh_proto m) = rxbuf_init" "t_state (p_t (fresh_proto m)) = T_BOL"
  by (simp_all add: fresh_proto_def)

lemma good_os_alloc [simp]: "os_realloc good_os = (\<lambda>n. True)"
  by (simp add: good_os_def)

lemma record_accepts: "accepts record_cb (\<lambda>w m d. w @ [(m, d)])"
  by (simp add: accepts_def record_cb_def)

text \<open>
  C8: messages survive a binary connection.  Whatever messages, each of less than 65532 bytes,
  an application sends with \<^verbatim>\<open>proto_output\<close> and \<^verbatim>\<open>%*s\<close> on a binary translator, the receiver's
  \<^verbatim>\<open>proto_recv\<close> delivers exactly those messages, in order, to an \<^verbatim>\<open>on_input\<close> that accepts them,
  however the bytes are cut into non-empty reads; every read reports success and nothing is left
  in the receive buffer.
\<close>

theorem binary_roundtrip:
  assumes "p_mode q = PROTO_MODE_BINARY" "p_on_sendv q = Set"
    "\<forall>n. os_realloc os n" "accepts cb step" "p_mode p = PROTO_MODE_BINARY" "p_on_input p = Set"
    "rx_ok (p_rx p)" "rx_data (p_rx p) = []" "\<forall>(m, d)\<in>set ms. length d < 65532"
    "send_all q ms [] = Some sent" "concat frags = sent" "[] \<notin> set frags"
  shows "\<exists>p'. feed_all (\<lambda>p w net. proto_recv os cb p w net 0) frags p w = Some (p', deliver_all step ms w) \<and>
    rx_data (p_rx p') = []"
proof -
  have ready: "binary_ready (os, cb, step, p)" using assms(3-8) by (simp add: binary_ready_def pkt_complete_def)
  have sent: "concat frags = concat (map enc_packet ms)" using send_all_packets [OF assms(1,2,9)] assms(10,11) by simp
  note parse = parse_enc [OF assms(9), folded sent]
  have "binary_fits (binary_obs (os, cb, step, p)) w (concat frags)"
    using parse assms(8) by (simp add: binary_fits_def binary_obs_def)
  from binary_stream.feed_all_delta [OF ready assms(12) this]
  obtain s' where "feed_all binary_feed frags (os, cb, step, p) w =
      Some (s', snd (binary_delta (binary_obs (os, cb, step, p)) w (concat frags)))"
    "binary_obs s' = fst (binary_delta (binary_obs (os, cb, step, p)) w (concat frags))" by auto
  then show ?thesis using parse assms(8)
    by (auto simp: feed_all_binary binary_delta_def binary_obs_def)
qed

theorem binary_roundtrip_witness:
  "\<exists>p'. feed_all (\<lambda>p w net. proto_recv (good_os) record_cb p w net 0) [[0x81, 0], [3, 107, 0, 118, 7, 0], [0]]
      (fresh_proto PROTO_MODE_BINARY) [] =
    Some (p', deliver_all (\<lambda>w m d. w @ [(m, d)]) [(MSG_INFO, [107, 0, 118]), (CMD_PING, [])] []) \<and> rx_data (p_rx p') = []"
proof -
  have "send_all (fresh_proto PROTO_MODE_BINARY) [(MSG_INFO, [107, 0, 118]), (CMD_PING, [])] [] =
      Some [0x81, 0, 3, 107, 0, 118, 7, 0, 0]" by code_simp
  then show ?thesis by (rule binary_roundtrip [OF _ _ _ record_accepts, rotated 8]) simp_all
qed

text \<open>
  C18: a binary stream is decoded the same way however it is cut into reads.  Two ways to cut the
  same bytes leave the application in the same state and the same bytes in the receive buffer, for
  any stream whose packets announce less than 65532 bytes.
\<close>

theorem binary_cuts_agree:
  assumes "binary_ready (os, cb, step, p)" "[] \<notin> set fs" "[] \<notin> set gs" "concat fs = concat gs"
    "packets_fit (rx_data (p_rx p) @ concat fs)"
  shows "\<exists>p1 p2 w'. feed_all (\<lambda>p w net. proto_recv os cb p w net 0) fs p w = Some (p1, w') \<and>
    feed_all (\<lambda>p w net. proto_recv os cb p w net 0) gs p w = Some (p2, w') \<and> rx_data (p_rx p1) = rx_data (p_rx p2)"
proof -
  have "binary_fits (binary_obs (os, cb, step, p)) w (concat fs)"
    using assms(5) by (simp add: binary_fits_def binary_obs_def)
  from binary_stream.cuts_agree [OF assms(1-4) this] show ?thesis
    by (auto simp: feed_all_binary binary_obs_def)
qed

theorem binary_cuts_agree_witness:
  "\<exists>p1 p2 w'. feed_all (\<lambda>p w net. proto_recv good_os record_cb p w net 0) [[7], [0, 1, 65], [4, 0, 9]] (fresh_proto PROTO_MODE_BINARY) [] = Some (p1, w') \<and>
    feed_all (\<lambda>p w net. proto_recv good_os record_cb p w net 0) [[7, 0, 1, 65, 4, 0, 9]] (fresh_proto PROTO_MODE_BINARY) [] = Some (p2, w') \<and>
    rx_data (p_rx p1) = rx_data (p_rx p2)"
proof -
  have "binary_ready (good_os, record_cb, \<lambda>w m d. w @ [(m, d)], fresh_proto PROTO_MODE_BINARY)"
    by (simp add: binary_ready_def record_accepts pkt_complete_def)
  moreover have "packets_fit (rx_data (p_rx (fresh_proto PROTO_MODE_BINARY)) @ concat [[7], [0, 1, 65], [4, 0, 9]])" by code_simp
  ultimately show ?thesis by (intro binary_cuts_agree) simp_all
qed

text \<open>
  C37: the largest messages are sent but never received.  The length field of a packet holds up to 65535, and
  \<^verbatim>\<open>proto_output\<close> sends a message of 65533 to 65535 bytes; \<^verbatim>\<open>proto_recv\<close> answers the packet with -1, since
  its buffer cannot hold 64 KiB, so that the receiver drops the connection.
\<close>

theorem binary_large_refused:
  assumes "p_mode q = PROTO_MODE_BINARY" "p_on_sendv q = Set" "\<forall>n. os_realloc os n" "p_mode p = PROTO_MODE_BINARY"
    "rx_ok (p_rx p)" "rx_data (p_rx p) = []" "65533 \<le> length d" "length d \<le> 65535"
  shows "\<exists>sent p'. send_all q [(m, d)] [] = Some sent \<and> proto_recv os cb p w sent 0 = Some (-1, p', w)"
proof -
  let ?h = "[m, of_nat (length d div 256), of_nat (length d)] :: bytes"
  have size: "pkt_size ?h = length d" using pkt_size_enc [of d m] assms(8) by (simp add: enc_packet_def pkt_size_def)
  have sent: "send_all q [(m, d)] [] = Some (?h @ d)"
    using assms(8) by (simp add: output_packet [OF assms(1,2)] wire_cb_def enc_packet_def)
  have len: "rx_len (p_rx p) = 0" using assms(5,6) length_rx_data [of "p_rx p"] by simp
  obtain rx1 where 1: "binary_want os (p_rx p) = Some (0, rx1, 3)" "rx_ok rx1" "rx_data rx1 = []" "rx_len rx1 = 0"
    using binary_want_ok [OF assms(5), of os] assms(3,6) len by (auto simp: pkt_complete_def)
  obtain rx2 where 2: "rxbuf_add os ?h rx1 = Some (0, rx2)" "rx_ok rx2" "rx_data rx2 = ?h" "rx_len rx2 = 3"
    using 1(2) by (cases rule: rxbuf_add_ok [where os = os and p = ?h]) (use assms(3) 1 in auto)
  have "binary_pkt_len rx2 = Some (length d)" using 2 size by (simp add: binary_pkt_len_ok)
  moreover have "binary_want os rx2 = Some (-1, rx2, sub32 (3 + length d) 3)"
    using calculation 2(4) assms(7) by (simp add: binary_want_def rxbuf_resize_def)
  moreover have "d \<noteq> []" using assms(7) by auto
  ultimately have "recv_binary_loop os cb (p\<lparr>p_rx := rx2\<rparr>) w d 3 = Some (-1, p\<lparr>p_rx := rx2\<rparr>, w)"
    by (subst recv_binary_loop.simps) simp
  moreover have "recv_binary_loop os cb p w (?h @ d) 0 = recv_binary_loop os cb (p\<lparr>p_rx := rx2\<rparr>) w d 3"
    using 1(1) 2(1,4) \<open>binary_pkt_len rx2 = Some (length d)\<close> assms(7) by (subst recv_binary_loop.simps) (auto simp: Let_def)
  ultimately show ?thesis using sent assms(4) by (simp add: proto_recv_def mode_defs recv_binary_def)
qed

theorem binary_large_refused_witness:
  "\<exists>sent p'. send_all (fresh_proto PROTO_MODE_BINARY) [(CMD_WRITE, replicate 65535 97)] [] = Some sent \<and>
    proto_recv good_os record_cb (fresh_proto PROTO_MODE_BINARY) [] sent 0 = Some (-1, p', [])"
  by (rule binary_large_refused) simp_all

end
