(* ===== verification/Proto_Safe.thy ===== *)
theory Proto_Safe
  imports Proto_Stream
begin

text \<open>
  The receiving side against hostile peers: whatever bytes arrive, cut in whatever way, and
  whatever the allocator answers, the decoders return.  The contract between the translator and
  the application behind its callbacks is the locale \<open>proto_app\<close>.
\<close>

subsection \<open>Definitions\<close>

text \<open>
  One pass of \<^verbatim>\<open>recv_text_1ch\<close>: \<open>Inl\<close> is its return, \<open>Inr\<close> a jump to another state with the same
  character.
\<close>

definition text_jump :: "os \<Rightarrow> 'w cb \<Rightarrow> byte \<Rightarrow> proto \<Rightarrow> 'w \<Rightarrow> ((int \<times> proto \<times> 'w) + (proto \<times> 'w)) option" where
  "text_jump os cb ch p w =
     (let t = p_t p; eol = (ch = 10 \<or> ch = 13) in
      case t_state t of
        T_ERROR \<Rightarrow> Some (Inl (1, if eol then set_state T_BOL p else p, w))
      | T_BOL \<Rightarrow>
          if ch = 32 \<or> eol then Some (Inl (1, p, w))
          else Some (Inr (p\<lparr>p_t := t\<lparr>t_cmd := [], t_state := T_CMD\<rparr>\<rparr>, w))
      | T_CMD \<Rightarrow>
          if 16 \<le> length (t_cmd t) then None
          else if ch \<noteq> 32 \<and> \<not> eol then
            let p1 = p\<lparr>p_t := t\<lparr>t_cmd := t_cmd t @ [ch]\<rparr>\<rparr> in
            if 16 \<le> length (t_cmd t) + 1 then do {
              (r, p2, w2) \<leftarrow> proto_output_error cb p1 w PROTO_ERROR_BAD_MSG (lit ''long command'');
              Some (Inr (set_state T_ERROR p2, w2))
            } else Some (Inl (1, p1, w))
          else do {
            (res, p1, w1) \<leftarrow> text_word os cb p w;
            Some (case res of Inl n \<Rightarrow> Inl (n, p1, w1) | Inr u \<Rightarrow> Inr (p1, w1))
          }
      | T_ARGSP \<Rightarrow>
          if ch = 32 then Some (Inl (1, p, w))
          else
            let p1 = skip_bar p in
            if eol then map_option Inl (text_eol os cb p1 w)
            else (case t_fmt (p_t p1) of
               [] \<Rightarrow> do {
                 (r, p2, w2) \<leftarrow> proto_output_error cb p1 w PROTO_ERROR_BAD_ARG (lit ''unexpected arg for '' @ quote_cmd p1);
                 Some (Inr (set_state T_ERROR p2, w2))
               }
             | f # fmt \<Rightarrow>
                 let p2 = p1\<lparr>p_t := (p_t p1)\<lparr>t_fmt := fmt\<rparr>\<rparr> in
                 if f = 105 then Some (Inr (p2\<lparr>p_t := (p_t p2)\<lparr>t_state := T_INT, t_intval := 0\<rparr>\<rparr>, w))
                 else if f = 116 then Some (Inr (set_state T_STRBEG p2, w))
                 else if f = 48 then do {
                   (r, rx1) \<leftarrow> rxbuf_addc os 0 (p_rx p2);
                   let p3 = p2\<lparr>p_rx := rx1\<rparr>;
                   Some (Inr (if r = -1 then set_state T_ERROR p3 else p3, w))
                 } else None)
      | T_INT \<Rightarrow>
          if 48 \<le> ch \<and> ch \<le> 57 then
            let v = (t_intval t * 10 + unat ch - 48) mod 65536; p1 = p\<lparr>p_t := t\<lparr>t_intval := v\<rparr>\<rparr> in
            if 255 < v then do {
              (r, p2, w2) \<leftarrow> proto_output_error cb p1 w PROTO_ERROR_BAD_MSG (lit ''integer overflow'');
              Some (Inr (set_state T_ERROR p2, w2))
            } else Some (Inl (1, p1, w))
          else do {
            (r, rx1) \<leftarrow> rxbuf_addc os (of_nat (t_intval t)) (p_rx p);
            let p1 = p\<lparr>p_rx := rx1\<rparr>;
            Some (if r = -1 then Inl (-1, p1, w) else Inr (set_state T_ARGSP p1, w))
          }
      | T_STRBEG \<Rightarrow>
          if ch = 34 then Some (Inl (1, set_state T_QSTR p, w))
          else Some (Inr (set_state T_STR p, w))
      | T_STR \<Rightarrow>
          if eol \<or> (t_fmt t \<noteq> [] \<and> ch = 32) then do {
            rx1 \<leftarrow> (if t_fmt t = [] then rxbuf_trimspace (p_rx p) else Some (p_rx p));
            Some (Inr (set_state T_ARGSP (p\<lparr>p_rx := rx1\<rparr>), w))
          } else do {
            (r, rx1) \<leftarrow> rxbuf_addc os ch (p_rx p);
            Some (Inl (if r = -1 then -1 else 1, p\<lparr>p_rx := rx1\<rparr>, w))
          }
      | T_QSTR \<Rightarrow>
          if eol then do {
            (r, p2, w2) \<leftarrow> proto_output_error cb p w PROTO_ERROR_BAD_MSG (lit ''unclosed '' @ [34]);
            Some (Inl (1, set_state T_BOL p2, w2))
          } else if ch = 92 then Some (Inl (1, p\<lparr>p_t := t\<lparr>t_counter := 3, t_intval := 0, t_state := T_QOCT\<rparr>\<rparr>, w))
          else if ch = 34 then Some (Inl (1, set_state T_ARGSP p, w))
          else do {
            (r, rx1) \<leftarrow> rxbuf_addc os ch (p_rx p);
            Some (Inl (if r = -1 then -1 else 1, p\<lparr>p_rx := rx1\<rparr>, w))
          }
      | T_QOCT \<Rightarrow>
          if ch < 48 \<or> 55 < ch then do {
            (r, p2, w2) \<leftarrow> proto_output_error cb p w PROTO_ERROR_BAD_MSG (lit ''expected octal after backslash'');
            Some (Inr (set_state T_ERROR p2, w2))
          } else
            let v = (t_intval t * 8 mod 65536) OR (unat ch - 48); c = (t_counter t + 255) mod 256;
                p1 = p\<lparr>p_t := t\<lparr>t_intval := v, t_counter := c\<rparr>\<rparr> in
            if c = 0 then do {
              (r, rx1) \<leftarrow> rxbuf_addc os (of_nat v) (p_rx p1);
              let p2 = p1\<lparr>p_rx := rx1\<rparr>;
              Some (Inl (if r = -1 then (-1, p2, w) else (1, set_state T_QSTR p2, w)))
            } else Some (Inl (1, p1, w)))"

text \<open>
  What the decoders keep of a translator.  In the binary protocol the buffer never holds a whole packet
  between two reads; in the text protocol the buffer holds the command's id, which is not a space, from the
  end of the command word on.
\<close>

definition arg_state :: "tstate \<Rightarrow> bool" where
  "arg_state st \<longleftrightarrow> st \<noteq> T_ERROR \<and> st \<noteq> T_BOL \<and> st \<noteq> T_CMD"

fun fmt_ok :: "bytes \<Rightarrow> bool" where
  "fmt_ok [] = True"
| "fmt_ok (f # fmt) =
     ((f = 105 \<or> f = 116 \<or> f = 48 \<or> (f = 124 \<and> (case fmt of [] \<Rightarrow> True | g # _ \<Rightarrow> g \<noteq> 124))) \<and> fmt_ok fmt)"

definition text_ok :: "proto \<Rightarrow> bool" where
  "text_ok p \<longleftrightarrow> length (t_cmd (p_t p)) \<le> 16 \<and> (t_state (p_t p) = T_CMD \<longrightarrow> length (t_cmd (p_t p)) < 16) \<and>
     (arg_state (t_state (p_t p)) \<longrightarrow> fmt_ok (t_fmt (p_t p)) \<and> rx_data (p_rx p) \<noteq> [] \<and> hd (rx_data (p_rx p)) \<noteq> 32)"

definition ptrs_ok :: "proto \<Rightarrow> bool" where
  "ptrs_ok p \<longleftrightarrow> p_on_input p \<noteq> Uninit \<and> p_on_sendv p \<noteq> Uninit \<and> p_on_error p \<noteq> Uninit"

definition proto_ok :: "proto \<Rightarrow> bool" where
  "proto_ok p \<longleftrightarrow> ptrs_ok p \<and> rx_ok (p_rx p) \<and>
     (if p_mode p = PROTO_MODE_TEXT then text_ok p
      else if p_mode p = PROTO_MODE_BINARY then \<not> pkt_complete (rx_data (p_rx p))
      else if p_mode p = PROTO_MODE_UNKNOWN then rx_data (p_rx p) = [] \<and> t_state (p_t p) = T_BOL \<and> length (t_cmd (p_t p)) \<le> 16
      else True)"

text \<open>The jumps of a character get smaller in this order.\<close>

definition jump_rel :: "(proto \<times> proto) set" where
  "jump_rel = measures [\<lambda>p. jump_group (t_state (p_t p)), \<lambda>p. length (t_fmt (p_t p)), \<lambda>p. jump_rank (t_state (p_t p))]"

subsection \<open>Single characters\<close>

lemma recv_text_1ch_jump:
  "recv_text_1ch os cb p w ch = do {
     res \<leftarrow> text_jump os cb ch p w;
     case res of Inl x \<Rightarrow> Some x | Inr (p1, w1) \<Rightarrow> recv_text_1ch os cb p1 w1 ch
   }"
proof (cases "t_state (p_t p)")
  case T_ERROR
  then show ?thesis by (subst recv_text_1ch.simps) (simp add: text_jump_def Let_def)
next
  case T_BOL
  then show ?thesis by (subst recv_text_1ch.simps) (simp add: text_jump_def Let_def)
next
  case T_CMD
  then show ?thesis by (subst recv_text_1ch.simps)
    (auto simp: text_jump_def Let_def split: bind_split sum.splits intro!: bind_option_cong)
next
  case T_ARGSP
  then show ?thesis by (subst recv_text_1ch.simps)
    (simp add: text_jump_def Let_def case_prod_unfold map_option_case split: list.split option.split)
next
  case T_INT
  then show ?thesis by (subst recv_text_1ch.simps)
    (simp add: text_jump_def Let_def case_prod_unfold if_distrib [of "case_sum f g" for f g] cong: if_cong)
next
  case T_STRBEG
  then show ?thesis by (subst recv_text_1ch.simps) (simp add: text_jump_def Let_def)
next
  case T_STR
  then show ?thesis by (subst recv_text_1ch.simps) (simp add: text_jump_def Let_def case_prod_unfold)
next
  case T_QSTR
  then show ?thesis by (subst recv_text_1ch.simps) (simp add: text_jump_def Let_def case_prod_unfold)
next
  case T_QOCT
  then show ?thesis by (subst recv_text_1ch.simps)
    (simp add: text_jump_def Let_def case_prod_unfold if_distrib [of Some] cong: if_cong)
qed

lemma text_jump_less: "text_jump os cb ch p w = Some (Inr (p1, w1)) \<Longrightarrow> (p1, p) \<in> jump_rel"
  by (cases "t_state (p_t p)")
    (auto simp: text_jump_def jump_rel_def Let_def jump_group_def jump_rank_def set_state_def dest: skip_bar_fmt dest!: text_word_state
      split: if_splits bind_splits list.splits sum.splits)

text \<open>A property that each pass keeps holds at the end.\<close>

lemma text_1ch_rule:
  assumes "\<And>p w. I p w \<Longrightarrow> \<exists>res. text_jump os cb ch p w = Some res \<and>
      (case res of Inl (r, p', w') \<Rightarrow> Q r p' w' | Inr (p', w') \<Rightarrow> I p' w')"
    "I p w"
  shows "\<exists>r p' w'. recv_text_1ch os cb p w ch = Some (r, p', w') \<and> Q r p' w'"
proof -
  have "wf jump_rel" by (simp add: jump_rel_def)
  then show ?thesis using assms(2)
  proof (induction p arbitrary: w rule: wf_induct_rule)
    case (less p)
    obtain res where res: "text_jump os cb ch p w = Some res"
      "case res of Inl (r, p', w') \<Rightarrow> Q r p' w' | Inr (p', w') \<Rightarrow> I p' w'" using assms(1) [OF less.prems] by auto
    show ?case
    proof (cases res)
      case (Inl x)
      then show ?thesis using res by (subst recv_text_1ch_jump) (auto split: prod.splits)
    next
      case (Inr y)
      then obtain p1 w1 where y: "res = Inr (p1, w1)" "I p1 w1" using res(2) by (cases y) auto
      from less.IH [OF text_jump_less [OF res(1) [unfolded y(1)]] y(2)] show ?thesis
        by (subst recv_text_1ch_jump) (simp add: res(1) y(1))
    qed
  qed
qed

subsection \<open>What an application promises\<close>

text \<open>
  The callbacks of a translator.  \<open>good n\<close> is the application's state when it can take \<open>n\<close> more messages;
  \<open>fine\<close> is all it keeps after it refused one, since the connection ends there.  \<open>modes\<close> are the
  protocols it is prepared to be called in.
\<close>

locale proto_app =
  fixes cb :: "'w cb" and good :: "nat \<Rightarrow> 'w \<Rightarrow> bool" and fine :: "'w \<Rightarrow> bool" and modes :: "int \<Rightarrow> bool"
    and fits :: "bytes \<Rightarrow> bool"
  assumes takes: "good (Suc n) w \<Longrightarrow> ptrs_ok p \<Longrightarrow> modes (p_mode p) \<Longrightarrow> fits d \<Longrightarrow>
      \<exists>r p' w'. cb_input cb p w m d = Some (r, p', w') \<and> fine w' \<and> (0 < r \<longrightarrow> good n w' \<and> p' = p)"
    and eof: "good n w \<Longrightarrow> ptrs_ok p \<Longrightarrow> \<exists>r p' w'. cb_input cb p w MSG_EOF [] = Some (r, p', w') \<and> fine w'"
    and sends: "good n w \<Longrightarrow> \<exists>r w'. cb_sendv cb p w bs = Some (r, w') \<and> good n w'"
    and reports: "good n w \<Longrightarrow> \<exists>w'. cb_error cb p w msg = Some w' \<and> good n w'"
    and good_less: "good (Suc n) w \<Longrightarrow> good n w"
    and good_fine: "good n w \<Longrightarrow> fine w"
    and short_fits: "length d < 65536 \<Longrightarrow> fits d"
begin

lemma good_mono: "good n w \<Longrightarrow> m \<le> n \<Longrightarrow> good m w"
  by (induction n) (auto simp: le_Suc_eq dest: good_less)

end

lemma iov_gather_ok: "list_all (\<lambda>(b, l). l \<le> length b) iov \<Longrightarrow> \<exists>bs. iov_gather iov = Some bs"
  by (induction iov rule: iov_gather.induct) (auto simp: peek_def)

lemma dec_byte: "length (dec (unat (b :: byte))) \<le> 3"
proof -
  have "unat b < 256" by simp
  moreover have "n < 10 \<Longrightarrow> length (dec n) = 1" for n by (simp add: dec.simps)
  moreover have "n < 100 \<Longrightarrow> length (dec n) \<le> 2" for n using calculation(2) [of "n div 10"] by (subst dec.simps) auto
  moreover have "unat b div 10 < 100" using calculation(1) by arith
  ultimately show ?thesis by (subst dec.simps) auto
qed

text \<open>A step of the text encoder returns, with at most \<open>k\<close> bytes in the output buffer.\<close>

definition emits :: "('w \<Rightarrow> bool) \<Rightarrow> (bytes, 'w) attempt \<Rightarrow> nat \<Rightarrow> bool" where
  "emits G m k \<longleftrightarrow> (\<exists>r w'. m = Some (r, w') \<and> G w' \<and> (\<forall>ob. r = Some ob \<longrightarrow> length ob \<le> k))"

lemma emits_bind:
  assumes "emits G m k" "\<And>ob w. G w \<Longrightarrow> length ob \<le> k \<Longrightarrow> emits G (f ob w) k'"
  shows "emits G (attempt_bind m f) k'"
proof -
  obtain r w' where m: "m = Some (r, w')" "G w'" "\<forall>ob. r = Some ob \<longrightarrow> length ob \<le> k" using assms(1) by (auto simp: emits_def)
  then show ?thesis using assms(2) by (cases r) (auto simp: emits_def)
qed

context proto_app
begin

lemma sendv_total:
  assumes "good n w" "p_on_sendv p \<noteq> Uninit" "list_all (\<lambda>(b, l). l \<le> length b) iov"
  shows "\<exists>r w'. sendv cb p w iov = Some (r, w') \<and> good n w'"
proof (cases "p_on_sendv p")
  case Set
  obtain bs where bs: "iov_gather iov = Some bs" using iov_gather_ok [OF assms(3)] by auto
  then show ?thesis using sends [OF assms(1), of p bs] Set by (simp add: sendv_def)
qed (use assms in \<open>simp_all add: sendv_def\<close>)

lemma errorv_total:
  assumes "good n w" "p_on_error p \<noteq> Uninit"
  shows "\<exists>w'. proto_errorv cb p w tag msg = Some w' \<and> good n w'"
  using assms reports [OF assms(1)] by (cases "p_on_error p") (simp_all add: proto_errorv_def)

lemma flush_total:
  assumes "good n w" "p_on_sendv p \<noteq> Uninit"
  shows "\<exists>r w'. outbuf_flush cb p w ob = Some (r, w') \<and> good n w'"
  using sendv_total [OF assms, of "[(ob, length ob)]"] assms(1) by (auto simp: outbuf_flush_def)

lemma putc_emits:
  assumes "good n w" "p_on_sendv p \<noteq> Uninit" "length ob < 4096" "length ob + 1 \<le> k"
  shows "emits (good n) (outbuf_putc cb p w ob ch) k"
  using flush_total [OF assms(1,2), of "ob @ [ch]"] assms by (auto simp: emits_def outbuf_putc_def OUTBUF_SIZE_def)

lemma outbuf_emits:
  assumes "good n w" "p_on_sendv p \<noteq> Uninit" "length ob + length data < 4096" "length ob + length data \<le> k"
  shows "emits (good n) (proto_outbuf cb p w ob data) k"
proof (cases "length data \<le> sub32 8 (length ob)")
  case True
  then show ?thesis using assms by (simp add: emits_def proto_outbuf_def OUTBUF_SIZE_def)
next
  case False
  have "length ob \<le> 8"
  proof (rule ccontr)
    assume "\<not> length ob \<le> 8"
    then have "sub32 8 (length ob) = 2 ^ 32 + 8 - length ob" using assms(3) by (simp add: sub32_def)
    then show False using False assms(3) by simp
  qed
  then have "sub32 8 (length ob) = 8 - length ob" by (intro sub32_id) simp_all
  then show ?thesis using flush_total [OF assms(1,2), of "ob @ take (8 - length ob) data"] False assms
    by (auto simp: emits_def proto_outbuf_def OUTBUF_SIZE_def Let_def)
qed

lemma string_loop_emits:
  assumes "good n w" "p_on_sendv p \<noteq> Uninit" "length ob + 4 * length s < 4095" "length ob + 4 * length s + 1 \<le> k"
  shows "emits (good n) (text_string_loop cb p w ob s) k"
  using assms
proof (induction s arbitrary: ob w)
  case Nil
  then show ?case by (simp add: putc_emits)
next
  case (Cons ch s)
  have "emits (good n) (if needs_escape ch then proto_outbuf cb p w ob (octal_escape ch) else outbuf_putc cb p w ob ch) (length ob + 4)"
    using Cons.prems by (auto simp: octal_escape_def intro!: outbuf_emits putc_emits)
  then show ?case unfolding text_string_loop.simps by (rule emits_bind) (use Cons in auto)
qed

lemma string_emits:
  assumes "good n w" "p_on_sendv p \<noteq> Uninit" "len \<le> length str" "length ob + 4 * len < 4094" "length ob + 4 * len + 2 \<le> k"
  shows "emits (good n) (output_text_string cb p w ob str len) k"
proof -
  have "emits (good n) (attempt_bind (outbuf_putc cb p w ob 34) (\<lambda>ob1 w1. text_string_loop cb p w1 ob1 (take len str))) k"
    by (rule emits_bind [OF putc_emits [where k = "length ob + 1"]]) (use assms in \<open>auto intro!: string_loop_emits\<close>)
  then show ?thesis using assms by (simp add: output_text_string_def peek_def)
qed

end

lemma attempt_bind_assoc: "attempt_bind (attempt_bind m f) g = attempt_bind m (\<lambda>x w. attempt_bind (f x w) g)"
  by (cases m) (auto simp: attempt_bind_def split: option.splits)

lemma output_args_error:
  "output_text_args cb p loc cfmt w ob (lit ''it'') False (lit ''%c%s'') [ArgInt i, ArgStr s] =
     attempt_bind (outbuf_putc cb p w ob 32) (\<lambda>ob1 w1.
     attempt_bind (proto_outbuf cb p w1 ob1 (dec (unat (low_byte i)))) (\<lambda>ob2 w2.
     attempt_bind (outbuf_putc cb p w2 ob2 32) (\<lambda>ob3 w3.
     attempt_bind (output_text_string cb p w3 ob3 s (length (cstr s))) (\<lambda>ob4 w4. Some (Some (ob4, [], False), w4)))))"
  by (simp add: lit_def output_text_args.simps(2) next_fmt_def Let_def cong: if_cong)

lemma find_error: "find (\<lambda>(word, mid, cfmt). mid = MSG_ERROR) cmdtab = Some (lit ''ERROR'', MSG_ERROR, lit ''it'')"
  by code_simp

context proto_app
begin

lemma output_text_error_total:
  assumes "good n w" "p_on_sendv p \<noteq> Uninit" "length s \<le> 500"
  shows "\<exists>r w'. output_text cb p w MSG_ERROR (lit ''%c%s'') [ArgInt i, ArgStr s] = Some (r, w') \<and> good n w'"
proof -
  have l: "length (dec (unat (low_byte i))) \<le> 3" "length (cstr s) \<le> 500" "length (cstr s) \<le> length s"
    using dec_byte assms(3) length_cstr_le [of s] by auto
  have "emits (good n) (attempt_bind (proto_outbuf cb p w [] (lit ''ERROR'')) (\<lambda>ob1 w1.
     attempt_bind (outbuf_putc cb p w1 ob1 32) (\<lambda>ob1 w1.
     attempt_bind (proto_outbuf cb p w1 ob1 (dec (unat (low_byte i)))) (\<lambda>ob2 w2.
     attempt_bind (outbuf_putc cb p w2 ob2 32) (\<lambda>ob3 w3.
     attempt_bind (output_text_string cb p w3 ob3 s (length (cstr s))) (\<lambda>ob4 w4. proto_outbuf cb p w4 ob4 [13, 10])))))) 3000"
    by (rule emits_bind [where k = 10] outbuf_emits emits_bind [where k = 20] putc_emits emits_bind [where k = 30] emits_bind [where k = 40]
      emits_bind [where k = 2500] string_emits | (use assms l in \<open>simp add: lit_def; fail\<close>))+
  then show ?thesis using flush_total [OF _ assms(2)]
    by (fastforce simp: output_text_def find_error output_args_error attempt_bind_assoc Let_def emits_def split: option.splits)
qed

end

subsection \<open>The text decoder\<close>

lemma cmdtab_ok: "lookup_cmd c = Some (cid, fmt) \<Longrightarrow> cid \<noteq> 32 \<and> fmt_ok fmt"
proof -
  assume "lookup_cmd c = Some (cid, fmt)"
  then obtain word where "find (\<lambda>(word, e). strcaseeq word c) cmdtab = Some (word, cid, fmt)" by (auto simp: lookup_cmd_def)
  then have "(word, cid, fmt) \<in> set cmdtab" by (metis find_Some_iff nth_mem)
  moreover have "list_all (\<lambda>(word, cid, fmt). cid \<noteq> 32 \<and> fmt_ok fmt) cmdtab" by code_simp
  ultimately show ?thesis by (auto simp: list_all_iff)
qed

lemma quote_cmd_length: "length (t_cmd (p_t p)) \<le> 16 \<Longrightarrow> length (quote_cmd p) \<le> 18"
  using length_cstr_le [of "t_cmd (p_t p)"] by (simp add: quote_cmd_def)

lemma skip_bar_ok:
  assumes "text_ok p" "arg_state (t_state (p_t p))"
  shows "\<exists>fmt opt. skip_bar p = p\<lparr>p_t := (p_t p)\<lparr>t_fmt := fmt, t_optional := opt\<rparr>\<rparr> \<and> fmt_ok fmt \<and> (fmt \<noteq> [] \<longrightarrow> hd fmt \<noteq> 124)"
proof (cases "t_fmt (p_t p)")
  case Nil
  have "(p_t p)\<lparr>t_fmt := [], t_optional := t_optional (p_t p)\<rparr> = p_t p" using Nil by (cases "p_t p") simp
  then show ?thesis using Nil by (intro exI [of _ "[]"] exI [of _ "t_optional (p_t p)"]) (simp add: skip_bar_def)
next
  case (Cons f fmt)
  have f: "fmt_ok (f # fmt)" using assms Cons by (simp add: text_ok_def)
  show ?thesis
  proof (cases "f = 124")
    case True
    then show ?thesis using f Cons
      by (intro exI [of _ fmt] exI [of _ True]) (cases fmt; auto simp: skip_bar_def)
  next
    case False
    have "(p_t p)\<lparr>t_fmt := f # fmt, t_optional := t_optional (p_t p)\<rparr> = p_t p" using Cons by (cases "p_t p") simp
    then show ?thesis using f False Cons
      by (intro exI [of _ "f # fmt"] exI [of _ "t_optional (p_t p)"]) (simp add: skip_bar_def)
  qed
qed

definition text_inv :: "proto \<Rightarrow> bool" where
  "text_inv p \<longleftrightarrow> ptrs_ok p \<and> rx_ok (p_rx p) \<and> p_mode p = PROTO_MODE_TEXT \<and> text_ok p"

lemma text_inv_proto_ok: "p_mode p = PROTO_MODE_TEXT \<Longrightarrow> proto_ok p \<longleftrightarrow> text_inv p"
  by (auto simp: text_inv_def proto_ok_def)

text \<open>Leaving the arguments.\<close>

lemma set_state_inv [simp]:
  "text_inv p \<Longrightarrow> st = T_ERROR \<or> st = T_BOL \<Longrightarrow> text_inv (set_state st p)"
  by (auto simp: text_inv_def text_ok_def ptrs_ok_def set_state_def arg_state_def)

lemma set_arg_state [simp]:
  "text_inv p \<Longrightarrow> arg_state (t_state (p_t p)) \<Longrightarrow> arg_state st \<Longrightarrow> text_inv (set_state st p)"
  by (auto simp: text_inv_def text_ok_def ptrs_ok_def set_state_def arg_state_def)

lemma append_inv:
  "text_inv p \<Longrightarrow> rx_ok rx \<Longrightarrow> rx_data rx = rx_data (p_rx p) @ bs \<Longrightarrow> text_inv (p\<lparr>p_rx := rx\<rparr>)"
  by (auto simp: text_inv_def text_ok_def ptrs_ok_def)

lemma text_inv_basic: "text_inv p \<Longrightarrow> ptrs_ok p" "text_inv p \<Longrightarrow> p_mode p = PROTO_MODE_TEXT"
  by (simp_all add: text_inv_def)

context proto_app
begin

lemma error_total:
  assumes "good n w" "ptrs_ok p" "p_mode p = PROTO_MODE_TEXT" "length msg \<le> 500"
  shows "\<exists>r w'. proto_output_error cb p w code msg = Some (r, p, w') \<and> good n w'"
proof -
  have "length (cstr msg) \<le> 500" using assms(4) length_cstr_le [of msg] by simp
  moreover have "p_on_sendv p \<noteq> Uninit" using assms(2) by (auto simp: ptrs_ok_def)
  ultimately obtain r w' where "output_text cb p w MSG_ERROR (lit ''%c%s'') [ArgInt (uint code), ArgStr (cstr msg)] = Some (r, w')" "good n w'"
    using output_text_error_total [OF assms(1)] by blast
  then show ?thesis using assms(3) \<open>length (cstr msg) \<le> 500\<close>
    by (auto simp: proto_output_error_def proto_output_def proto_outputv_def mode_defs)
qed

lemma word_total:
  assumes "good n w" "text_inv p" "length (t_cmd (p_t p)) < 16"
  shows "\<exists>res p' w'. text_word os cb p w = Some (res, p', w') \<and> good n w' \<and>
    (case res of Inl r \<Rightarrow> r = -1 | Inr u \<Rightarrow> text_inv p')"
proof (cases "lookup_cmd (t_cmd (p_t p))")
  case None
  have "length (lit ''unknown command '' @ quote_cmd p @ lit '', try '' @ [39] @ lit ''help'' @ [39]) \<le> 500"
    using quote_cmd_length [of p] assms(3) by (simp add: lit_def)
  from error_total [OF assms(1) text_inv_basic [OF assms(2)] this, of PROTO_ERROR_BAD_MSG] obtain r w' where
    "proto_output_error cb p w PROTO_ERROR_BAD_MSG (lit ''unknown command '' @ quote_cmd p @ lit '', try '' @ [39] @ lit ''help'' @ [39]) = Some (r, p, w')"
    "good n w'" by blast
  then show ?thesis using None assms(2) by (simp add: text_word_def)
next
  case (Some e)
  obtain cid fmt where e: "e = (cid, fmt)" by (cases e)
  have ok: "cid \<noteq> 32" "fmt_ok fmt" using cmdtab_ok Some e by auto
  have "rx_ok (p_rx p)" using assms(2) by (simp add: text_inv_def)
  then obtain r rx1 where 1: "rxbuf_clear os 1 (p_rx p) = Some (r, rx1)" "rx_ok rx1" "rx_data rx1 = []"
    using rxbuf_clear_any by blast
  obtain r2 rx2 where 2: "rxbuf_addc os cid rx1 = Some (r2, rx2)" "rx_ok rx2" "rx_data rx2 = (if r2 = -1 then [] else [cid])"
    using rxbuf_addc_any [OF 1(2), of os cid] 1(3) by auto
  have "text_inv (p\<lparr>p_rx := rx2\<rparr>\<lparr>p_t := (p_t (p\<lparr>p_rx := rx2\<rparr>))\<lparr>t_fmt := fmt, t_optional := False, t_state := T_ARGSP\<rparr>\<rparr>)" if "r2 \<noteq> -1"
    using that assms(2) 2 ok by (auto simp: text_inv_def text_ok_def ptrs_ok_def arg_state_def)
  then show ?thesis using assms(1) 1(1) 2(1) Some e by (cases "r = -1"; cases "r2 = -1"; simp add: text_word_def)
qed

end

context proto_app
begin

lemma eol_total:
  assumes "good (Suc n) w" "text_inv p" "modes PROTO_MODE_TEXT" "arg_state (t_state (p_t p))"
  shows "\<exists>r p' w'. text_eol os cb p w = Some (r, p', w') \<and> fine w' \<and> (0 < r \<longrightarrow> good n w' \<and> text_inv p')"
proof (cases "(\<not> t_optional (p_t p) \<and> t_fmt (p_t p) \<noteq> []) \<or> p_on_input p = Null")
  case True
  have "length (lit ''missing arg for '' @ quote_cmd p) \<le> 500"
    using quote_cmd_length [of p] assms(2) by (simp add: lit_def text_inv_def text_ok_def)
  from error_total [OF assms(1) text_inv_basic [OF assms(2)] this, of PROTO_ERROR_BAD_ARG] obtain r w' where
    "proto_output_error cb p w PROTO_ERROR_BAD_ARG (lit ''missing arg for '' @ quote_cmd p) = Some (r, p, w')" "good (Suc n) w'" by blast
  then show ?thesis using True assms good_less good_fine by (cases "t_optional (p_t p) \<or> t_fmt (p_t p) = []") (auto simp: text_eol_def)
next
  case False
  have p: "p_on_input p = Set" "rx_ok (p_rx p)" "rx_data (p_rx p) \<noteq> []"
    using False assms(2,4) by (cases "p_on_input p"; simp add: text_inv_def ptrs_ok_def text_ok_def)+
  obtain r rx1 where 1: "rxbuf_zeropad os (p_rx p) = Some (r, rx1)" "rx_ok rx1" "rx_data rx1 = rx_data (p_rx p)" "rx_len rx1 = rx_len (p_rx p)"
    "r \<noteq> -1 \<longrightarrow> rx_len (p_rx p) < length (rx_buf rx1)" using rxbuf_zeropad_any [OF p(2), of os] by blast
  have inv: "text_inv (p\<lparr>p_rx := rx1\<rparr>)" using append_inv [OF assms(2) 1(2), of "[]"] 1(3) by simp
  show ?thesis
  proof (cases "r = -1")
    case True
    then show ?thesis using False p 1 good_fine [OF assms(1)] by (auto simp: text_eol_def)
  next
    case r: False
    have "0 < rx_len rx1" using p 1(4) length_rx_data [OF p(2)] by (simp flip: length_greater_0_conv)
    then have "\<exists>m data. peek (rx_buf rx1) 0 1 = Some m \<and> peek (rx_buf rx1) 1 (rx_len rx1 - 1) = Some data"
      using 1(4,5) r by (auto simp: peek_def)
    then obtain m data where md: "peek (rx_buf rx1) 0 1 = Some m" "peek (rx_buf rx1) 1 (rx_len rx1 - 1) = Some data" by blast
    have "fits data" using md(2) 1(2) by (intro short_fits) (auto simp: peek_Some_iff rx_ok_def)
    have "\<exists>r p' w'. text_input cb (p\<lparr>p_rx := rx1\<rparr>) w (m ! 0) data = Some (r, p', w') \<and> fine w' \<and> (0 < r \<longrightarrow> good n w' \<and> text_inv p')"
    proof (cases "m ! 0 = PSEUDO_HELP")
      case True
      then show ?thesis using sends [OF assms(1), of "p\<lparr>p_rx := rx1\<rparr>" help_text] inv good_less good_fine assms(1)
        by (cases "p_on_sendv p") (auto simp: text_input_def text_inv_def ptrs_ok_def)
    next
      case False
      have "p_mode (p\<lparr>p_rx := rx1\<rparr>) = PROTO_MODE_TEXT" using inv by (simp add: text_inv_def)
      then show ?thesis using takes [OF assms(1), of "p\<lparr>p_rx := rx1\<rparr>" data "m ! 0"] inv assms(3) False p(1) \<open>fits data\<close>
        by (auto simp: text_input_def text_inv_basic)
    qed
    then obtain r2 p2 w2 where "text_input cb (p\<lparr>p_rx := rx1\<rparr>) w (m ! 0) data = Some (r2, p2, w2)" "fine w2" "0 < r2 \<longrightarrow> good n w2 \<and> text_inv p2" by blast
    then show ?thesis using False r p(1) 1(1) md by (auto simp: text_eol_def)
  qed
qed

end

text \<open>What a pass must establish.\<close>

definition pass_ok :: "(nat \<Rightarrow> 'w \<Rightarrow> bool) \<Rightarrow> ('w \<Rightarrow> bool) \<Rightarrow> nat \<Rightarrow> ((int \<times> proto \<times> 'w) + (proto \<times> 'w)) option \<Rightarrow> bool" where
  "pass_ok good fine n m \<longleftrightarrow> (\<exists>res. m = Some res \<and>
     (case res of Inl (r, p, w) \<Rightarrow> fine w \<and> (0 < r \<longrightarrow> good n w \<and> text_inv p) | Inr (p, w) \<Rightarrow> good (Suc n) w \<and> text_inv p))"

lemma pass_ok_simps [simp]:
  "pass_ok good fine n (Some (Inl (r, p, w))) \<longleftrightarrow> fine w \<and> (0 < r \<longrightarrow> good n w \<and> text_inv p)"
  "pass_ok good fine n (Some (Inr (p, w))) \<longleftrightarrow> good (Suc n) w \<and> text_inv p"
  by (simp_all add: pass_ok_def)

lemma arg_states [simp]:
  "arg_state T_ARGSP" "arg_state T_INT" "arg_state T_STRBEG" "arg_state T_STR" "arg_state T_QSTR" "arg_state T_QOCT"
  "\<not> arg_state T_BOL" "\<not> arg_state T_CMD" "\<not> arg_state T_ERROR"
  by (simp_all add: arg_state_def)

lemma set_state_simps [simp]:
  "t_state (p_t (set_state st p)) = st" "t_cmd (p_t (set_state st p)) = t_cmd (p_t p)" "p_rx (set_state st p) = p_rx p"
  by (simp_all add: set_state_def)

text \<open>Changes of the counters and of the format leave the invariant alone.\<close>

lemma update_inv [simp]:
  "text_inv p \<Longrightarrow> text_inv (p\<lparr>p_t := (p_t p)\<lparr>t_intval := v\<rparr>\<rparr>)"
  "text_inv p \<Longrightarrow> text_inv (p\<lparr>p_t := (p_t p)\<lparr>t_intval := v, t_counter := c\<rparr>\<rparr>)"
  "text_inv p \<Longrightarrow> arg_state (t_state (p_t p)) \<Longrightarrow> arg_state st \<Longrightarrow>
    text_inv (p\<lparr>p_t := (p_t p)\<lparr>t_counter := c, t_intval := v, t_state := st\<rparr>\<rparr>)"
  "text_inv p \<Longrightarrow> fmt_ok fmt \<Longrightarrow> text_inv (p\<lparr>p_t := (p_t p)\<lparr>t_fmt := fmt, t_optional := opt\<rparr>\<rparr>)"
  "text_inv p \<Longrightarrow> fmt_ok fmt \<Longrightarrow> text_inv (p\<lparr>p_t := (p_t p)\<lparr>t_fmt := fmt\<rparr>\<rparr>)"
  by (auto simp: text_inv_def text_ok_def ptrs_ok_def)

context proto_app
begin

lemma error_pass:
  assumes "good (Suc n) w" "text_inv p" "length msg \<le> 500"
  shows "pass_ok good fine n (do { (r, p2, w2) \<leftarrow> proto_output_error cb p w code msg; Some (Inr (set_state T_ERROR p2, w2)) })"
    "pass_ok good fine n (do { (r, p2, w2) \<leftarrow> proto_output_error cb p w code msg; Some (Inl (1, set_state T_BOL p2, w2)) })"
  using error_total [OF assms(1) text_inv_basic [OF assms(2)] assms(3), of code] assms(2) good_less good_fine by auto

lemma add_pass:
  assumes "text_inv p"
    "\<And>r rx. rx_ok rx \<Longrightarrow> rx_data rx = rx_data (p_rx p) @ (if r = -1 then [] else [ch]) \<Longrightarrow> text_inv (p\<lparr>p_rx := rx\<rparr>) \<Longrightarrow>
      pass_ok good fine n (f r rx)"
  shows "pass_ok good fine n (do { (r, rx1) \<leftarrow> rxbuf_addc os ch (p_rx p); f r rx1 })"
proof -
  have "rx_ok (p_rx p)" using assms(1) by (simp add: text_inv_def)
  then obtain r rx1 where 1: "rxbuf_addc os ch (p_rx p) = Some (r, rx1)" "rx_ok rx1" "rx_data rx1 = rx_data (p_rx p) @ (if r = -1 then [] else [ch])"
    using rxbuf_addc_any [of "p_rx p" os ch] by blast
  then show ?thesis using assms(2) [OF 1(2,3) append_inv [OF assms(1) 1(2,3)]] by simp
qed

lemma jump_cmd:
  assumes "good (Suc n) w" "text_inv p" "t_state (p_t p) = T_CMD"
  shows "pass_ok good fine n (text_jump os cb ch p w)"
proof (cases "ch \<noteq> 32 \<and> ch \<noteq> 10 \<and> ch \<noteq> 13")
  case True
  let ?p = "p\<lparr>p_t := (p_t p)\<lparr>t_cmd := t_cmd (p_t p) @ [ch]\<rparr>\<rparr>"
  have l: "length (t_cmd (p_t p)) < 16" using assms by (simp add: text_inv_def text_ok_def)
  have p: "ptrs_ok ?p" "p_mode ?p = PROTO_MODE_TEXT" "text_inv (set_state T_ERROR ?p)"
    using assms l by (simp_all add: text_inv_def text_ok_def ptrs_ok_def set_state_def)
  have "length (lit ''long command'') \<le> 500" by (simp add: lit_def)
  then obtain r w' where e: "proto_output_error cb ?p w PROTO_ERROR_BAD_MSG (lit ''long command'') = Some (r, ?p, w')" "good (Suc n) w'"
    using error_total [OF assms(1) p(1,2)] by blast
  have "text_inv ?p" if "length (t_cmd (p_t p)) + 1 < 16" using assms that by (simp add: text_inv_def text_ok_def ptrs_ok_def)
  then show ?thesis using True assms(1,3) l e p(3) good_less good_fine by (auto simp: text_jump_def Let_def)
next
  case False
  have "length (t_cmd (p_t p)) < 16" using assms by (simp add: text_inv_def text_ok_def)
  then obtain res p' w' where "text_word os cb p w = Some (res, p', w')" "good (Suc n) w'"
    "case res of Inl r \<Rightarrow> r = -1 | Inr u \<Rightarrow> text_inv p'" using word_total [OF assms(1,2)] by blast
  then show ?thesis using False assms(3) \<open>length (t_cmd (p_t p)) < 16\<close> good_fine
    by (auto simp: text_jump_def Let_def split: sum.splits)
qed

lemma jump_argsp:
  assumes "good (Suc n) w" "text_inv p" "modes PROTO_MODE_TEXT" "t_state (p_t p) = T_ARGSP"
  shows "pass_ok good fine n (text_jump os cb ch p w)"
proof -
  obtain fmt opt where q: "skip_bar p = p\<lparr>p_t := (p_t p)\<lparr>t_fmt := fmt, t_optional := opt\<rparr>\<rparr>" "fmt_ok fmt" "fmt \<noteq> [] \<longrightarrow> hd fmt \<noteq> 124"
    using skip_bar_ok [of p] assms(2,4) by (auto simp: text_inv_def)
  define q where "q = skip_bar p"
  have inv: "text_inv q" "t_state (p_t q) = T_ARGSP" "t_fmt (p_t q) = fmt" using q assms(2,4) by (simp_all add: q_def)
  consider "ch = 32" | "ch = 10 \<or> ch = 13" | (none) "ch \<noteq> 32" "ch \<noteq> 10" "ch \<noteq> 13" "fmt = []"
    | (arg) f fmt' where "ch \<noteq> 32" "ch \<noteq> 10" "ch \<noteq> 13" "fmt = f # fmt'" by (cases fmt) auto
  then show ?thesis
  proof cases
    case 1
    then show ?thesis using assms good_less good_fine by (simp add: text_jump_def)
  next
    case 2
    then show ?thesis using eol_total [OF assms(1) inv(1) assms(3), of os] inv(2) assms(4)
      by (auto simp: text_jump_def Let_def q_def)
  next
    case none
    have "length (lit ''unexpected arg for '' @ quote_cmd q) \<le> 500"
      using quote_cmd_length [of q] inv(1) by (simp add: lit_def text_inv_def text_ok_def)
    from error_pass(1) [OF assms(1) inv(1) this] show ?thesis using none assms(4) inv(3)
      by (simp add: text_jump_def Let_def flip: q_def)
  next
    case arg
    let ?q = "q\<lparr>p_t := (p_t q)\<lparr>t_fmt := fmt'\<rparr>\<rparr>"
    have f: "f = 105 \<or> f = 116 \<or> f = 48" "fmt_ok fmt'" using q(2,3) arg(4) by auto
    then have inv': "text_inv ?q" "t_state (p_t ?q) = T_ARGSP" using inv by simp_all
    have int: "text_inv (?q\<lparr>p_t := (p_t ?q)\<lparr>t_state := T_INT, t_intval := 0\<rparr>\<rparr>)"
      using inv' by (auto simp: text_inv_def text_ok_def ptrs_ok_def)
    have zero: "pass_ok good fine n (do { (r, rx1) \<leftarrow> rxbuf_addc os 0 (p_rx ?q);
        let p3 = ?q\<lparr>p_rx := rx1\<rparr>; Some (Inr (if r = -1 then set_state T_ERROR p3 else p3, w)) })"
      by (rule add_pass [OF inv'(1)]) (use assms(1) in \<open>simp add: Let_def\<close>)
    have "text_jump os cb ch p w =
      (if f = 105 then Some (Inr (?q\<lparr>p_t := (p_t ?q)\<lparr>t_state := T_INT, t_intval := 0\<rparr>\<rparr>, w))
       else if f = 116 then Some (Inr (set_state T_STRBEG ?q, w))
       else if f = 48 then do { (r, rx1) \<leftarrow> rxbuf_addc os 0 (p_rx ?q);
         let p3 = ?q\<lparr>p_rx := rx1\<rparr>; Some (Inr (if r = -1 then set_state T_ERROR p3 else p3, w)) }
       else None)"
      using arg assms(4) inv(3) unfolding text_jump_def by (simp add: Let_def flip: q_def)
    then show ?thesis using f(1) int inv' zero assms(1) by auto
  qed
qed

lemma jump_total:
  assumes "good (Suc n) w" "text_inv p" "modes PROTO_MODE_TEXT"
  shows "pass_ok good fine n (text_jump os cb ch p w)"
proof (cases "t_state (p_t p)")
  case T_ERROR
  then show ?thesis using assms good_less good_fine by (simp add: text_jump_def)
next
  case T_BOL
  moreover have "text_inv (p\<lparr>p_t := (p_t p)\<lparr>t_cmd := [], t_state := T_CMD\<rparr>\<rparr>)"
    using assms(2) by (simp add: text_inv_def text_ok_def ptrs_ok_def)
  ultimately show ?thesis using assms good_less good_fine by (simp add: text_jump_def Let_def)
next
  case T_CMD
  then show ?thesis using jump_cmd assms by blast
next
  case T_ARGSP
  then show ?thesis using jump_argsp assms by blast
next
  case T_INT
  let ?v = "(t_intval (p_t p) * 10 + unat ch - 48) mod 65536"
  have "pass_ok good fine n (do { (r, rx1) \<leftarrow> rxbuf_addc os (of_nat (t_intval (p_t p))) (p_rx p);
      let p1 = p\<lparr>p_rx := rx1\<rparr>; Some (if r = -1 then Inl (-1, p1, w) else Inr (set_state T_ARGSP p1, w)) })"
    by (rule add_pass [OF assms(2)]) (use assms(1) T_INT good_fine in \<open>auto simp: Let_def\<close>)
  moreover have l: "length (lit ''integer overflow'') \<le> 500" by (simp add: lit_def)
  moreover note error_pass(1) [OF assms(1) update_inv(1) [OF assms(2)] l, of ?v PROTO_ERROR_BAD_MSG]
  ultimately show ?thesis using T_INT assms good_less good_fine by (simp add: text_jump_def Let_def cong: if_cong)
next
  case T_STRBEG
  then show ?thesis using assms good_less good_fine by (simp add: text_jump_def)
next
  case T_STR
  have rx: "rx_ok (p_rx p)" "rx_data (p_rx p) \<noteq> []" "hd (rx_data (p_rx p)) \<noteq> 32"
    using assms(2) T_STR by (auto simp: text_inv_def text_ok_def)
  obtain rx1 where "rxbuf_trimspace (p_rx p) = Some rx1" "rx_ok rx1" "rx_data rx1 \<noteq> []" "hd (rx_data rx1) = hd (rx_data (p_rx p))"
    using rxbuf_trimspace_any [OF rx] by blast
  moreover from this have "text_inv (set_state T_ARGSP (p\<lparr>p_rx := rx1\<rparr>))"
    using rx(3) assms(2) T_STR by (auto simp: text_inv_def text_ok_def ptrs_ok_def set_state_def)
  moreover have "pass_ok good fine n (do { (r, rx1) \<leftarrow> rxbuf_addc os ch (p_rx p); Some (Inl (if r = -1 then -1 else 1, p\<lparr>p_rx := rx1\<rparr>, w)) })"
    by (rule add_pass [OF assms(2)]) (use assms(1) good_less good_fine in auto)
  ultimately show ?thesis using T_STR assms by (auto simp: text_jump_def Let_def)
next
  case T_QSTR
  have "pass_ok good fine n (do { (r, rx1) \<leftarrow> rxbuf_addc os ch (p_rx p); Some (Inl (if r = -1 then -1 else 1, p\<lparr>p_rx := rx1\<rparr>, w)) })"
    by (rule add_pass [OF assms(2)]) (use assms(1) good_less good_fine in auto)
  moreover have l: "length (lit ''unclosed '' @ [34]) \<le> 500" by (simp add: lit_def)
  moreover note error_pass(2) [OF assms(1,2) l, of PROTO_ERROR_BAD_MSG]
  ultimately show ?thesis using T_QSTR assms good_less good_fine by (simp add: text_jump_def Let_def)
next
  case T_QOCT
  let ?p = "\<lambda>v c. p\<lparr>p_t := (p_t p)\<lparr>t_intval := v, t_counter := c\<rparr>\<rparr>"
  have "pass_ok good fine n (do { (r, rx1) \<leftarrow> rxbuf_addc os (of_nat v) (p_rx (?p v c)); let p2 = (?p v c)\<lparr>p_rx := rx1\<rparr>;
      Some (Inl (if r = -1 then (-1, p2, w) else (1, set_state T_QSTR p2, w))) })" for v c
    by (rule add_pass [OF update_inv(2) [OF assms(2)]]) (use assms(1) T_QOCT good_less good_fine in \<open>auto simp: Let_def\<close>)
  moreover have l: "length (lit ''expected octal after backslash'') \<le> 500" by (simp add: lit_def)
  moreover note error_pass(1) [OF assms(1,2) l, of PROTO_ERROR_BAD_MSG]
  ultimately show ?thesis using T_QOCT assms good_less good_fine by (simp add: text_jump_def Let_def)
qed

end

context proto_app
begin

lemma ch_total:
  assumes "good (Suc n) w" "text_inv p" "modes PROTO_MODE_TEXT"
  shows "\<exists>r p' w'. recv_text_1ch os cb p w ch = Some (r, p', w') \<and> fine w' \<and> (0 < r \<longrightarrow> good n w' \<and> text_inv p')"
  by (rule text_1ch_rule [where I = "\<lambda>p w. good (Suc n) w \<and> text_inv p"])
    (use jump_total [where os = os and ch = ch] assms in \<open>auto simp: pass_ok_def\<close>)

lemma text_bytes_total:
  assumes "good (length net + n) w" "text_inv p" "modes PROTO_MODE_TEXT"
  shows "\<exists>r p' w'. recv_text_loop os cb p w net ret = Some (r, p', w') \<and> fine w' \<and> (0 < r \<longrightarrow> good n w' \<and> text_inv p')"
  using assms
proof (induction net arbitrary: p w ret)
  case Nil
  then show ?case using good_fine by simp
next
  case (Cons ch net)
  obtain r p' w' where r: "recv_text_1ch os cb p w ch = Some (r, p', w')" "fine w'" "0 < r \<longrightarrow> good (length net + n) w' \<and> text_inv p'"
    using ch_total [of "length net + n" w p os ch] Cons.prems by auto
  show ?case using r Cons.IH [of w' p' "ret + r"] assms(3) by (cases "0 < r") auto
qed

end

subsection \<open>The binary decoder\<close>

lemma want_any:
  assumes "rx_ok rx" "\<not> pkt_complete (rx_data rx)"
  shows "\<exists>r rx1. binary_want os rx = Some (r, rx1, (if rx_len rx < 3 then 3 else 3 + pkt_size (rx_data rx)) - rx_len rx) \<and>
    rx_ok rx1 \<and> rx_data rx1 = rx_data rx"
proof (cases "rx_len rx < 3")
  case True
  then have "rx_len rx \<le> 3" by simp
  with assms(1) show ?thesis
    by (cases rule: rxbuf_resize_ok [where os = os]) (use True assms in \<open>auto simp: binary_want_def binary_pkt_len_ok\<close>)
next
  case False
  have "pkt_size (rx_data rx) < 131072"
    using unat_byte_less [of "rx_data rx ! 1"] unat_byte_less [of "rx_data rx ! 2"] unfolding pkt_size_def by linarith
  then have le: "rx_len rx \<le> 3 + pkt_size (rx_data rx)" "3 + pkt_size (rx_data rx) < 4294967296"
    using False assms by (auto simp: pkt_complete_def)
  then have "sub32 (3 + pkt_size (rx_data rx)) (rx_len rx) = 3 + pkt_size (rx_data rx) - rx_len rx"
    by (intro sub32_id) simp_all
  with assms(1) le(1) show ?thesis
    by (cases rule: rxbuf_resize_ok [where os = os]) (use False assms in \<open>auto simp: binary_want_def binary_pkt_len_ok\<close>)
qed

text \<open>Bytes up to the end of the header, then up to the end of the packet, never go past a packet.\<close>

lemma incomplete_grows:
  assumes "\<not> pkt_complete bs" "got = bs \<or> got = bs @ take ((if length bs < 3 then 3 else 3 + pkt_size bs) - length bs) net"
    "\<not> (3 \<le> length got \<and> length got = 3 + pkt_size got)"
  shows "\<not> pkt_complete got"
proof (cases "length bs < 3")
  case True
  then have "length got \<le> 3" using assms(2) by auto
  then show ?thesis using assms(3) by (auto simp: pkt_complete_def)
next
  case False
  then have "length got \<le> 3 + pkt_size bs" "pkt_size got = pkt_size bs" using assms(1,2) by (auto simp: pkt_complete_def)
  then show ?thesis using assms(3) by (auto simp: pkt_complete_def)
qed

definition binary_inv :: "proto \<Rightarrow> bool" where
  "binary_inv p \<longleftrightarrow> ptrs_ok p \<and> rx_ok (p_rx p) \<and> p_mode p = PROTO_MODE_BINARY \<and> \<not> pkt_complete (rx_data (p_rx p))"

lemma binary_inv_proto_ok: "p_mode p = PROTO_MODE_BINARY \<Longrightarrow> proto_ok p \<longleftrightarrow> binary_inv p"
  by (auto simp: binary_inv_def proto_ok_def mode_defs)

context proto_app
begin

lemma deliver_total:
  assumes "good (Suc n) w" "binary_inv p" "modes PROTO_MODE_BINARY" "rx_ok rx" "rx_len rx = 3 + sz"
  shows "\<exists>res p' w'. binary_deliver os cb (p\<lparr>p_rx := rx\<rparr>) w sz = Some (res, p', w') \<and> fine w' \<and>
    (case res of Inl r \<Rightarrow> r \<le> 0 | Inr r \<Rightarrow> good n w' \<and> binary_inv p')"
proof (cases "p_on_input p")
  case Uninit
  then show ?thesis using assms(2) by (simp add: binary_inv_def ptrs_ok_def)
next
  case Null
  obtain r rx2 where "rxbuf_clear os 3 rx = Some (r, rx2)" "rx_ok rx2" "rx_data rx2 = []" using rxbuf_clear_any [OF assms(4)] by blast
  then show ?thesis using Null assms(1,2) good_less good_fine
    by (auto simp: binary_deliver_def binary_inv_def ptrs_ok_def pkt_complete_def)
next
  case Set
  obtain r rx1 where 1: "rxbuf_zeropad os rx = Some (r, rx1)" "rx_ok rx1" "rx_len rx1 = rx_len rx"
    "r \<noteq> -1 \<longrightarrow> rx_len rx < length (rx_buf rx1)" using rxbuf_zeropad_any [OF assms(4), of os] by blast
  let ?p = "p\<lparr>p_rx := rx1\<rparr>"
  have p: "ptrs_ok ?p" "modes (p_mode ?p)" using assms(2,3) by (auto simp: binary_inv_def ptrs_ok_def)
  show ?thesis
  proof (cases "r = -1")
    case True
    then show ?thesis using 1(1) Set good_fine [OF assms(1)] by (simp add: binary_deliver_def)
  next
    case False
    then have "\<exists>m data. peek (rx_buf rx1) 0 1 = Some m \<and> peek (rx_buf rx1) 3 sz = Some data"
      using 1(4) assms(5) by (auto simp: peek_def)
    then obtain m data where md: "peek (rx_buf rx1) 0 1 = Some m" "peek (rx_buf rx1) 3 sz = Some data" by blast
    have "fits data" using md(2) 1(2,3) assms(5) by (intro short_fits) (auto simp: peek_Some_iff rx_ok_def)
    then obtain n' p' w' where c: "cb_input cb ?p w (m ! 0) data = Some (n', p', w')" "fine w'" "0 < n' \<longrightarrow> good n w' \<and> p' = ?p"
      using takes [OF assms(1) p] by blast
    obtain r2 rx2 where "rxbuf_clear os 3 rx1 = Some (r2, rx2)" "rx_ok rx2" "rx_data rx2 = []" using rxbuf_clear_any [OF 1(2)] by blast
    moreover from this have "binary_inv (p\<lparr>p_rx := rx2\<rparr>)" using assms(2) by (auto simp: binary_inv_def ptrs_ok_def pkt_complete_def)
    ultimately show ?thesis using 1(1) Set False md c by (cases "0 < n'") (auto simp: binary_deliver_def)
  qed
qed

lemma binary_loop_total:
  assumes "good (length net + n) w" "binary_inv p" "modes PROTO_MODE_BINARY"
  shows "\<exists>r p' w'. recv_binary_loop os cb p w net ret = Some (r, p', w') \<and> fine w' \<and> (0 < r \<longrightarrow> good n w' \<and> binary_inv p')"
  using assms(1,2)
proof (induction net arbitrary: p w ret rule: length_induct)
  case (1 net)
  show ?case
  proof (cases "net = []")
    case True
    then show ?thesis using 1 good_fine by (subst recv_binary_loop.simps) auto
  next
    case net: False
    have p: "rx_ok (p_rx p)" "\<not> pkt_complete (rx_data (p_rx p))" using 1(3) by (auto simp: binary_inv_def)
    define want where "want = (if rx_len (p_rx p) < 3 then 3 else 3 + pkt_size (rx_data (p_rx p))) - rx_len (p_rx p)"
    obtain r rx1 where w: "binary_want os (p_rx p) = Some (r, rx1, want)" "rx_ok rx1" "rx_data rx1 = rx_data (p_rx p)"
      using want_any [OF p, of os] unfolding want_def by blast
    define k where "k = min want (length net)"
    have k: "0 < k" "k \<le> length net" using net p by (auto simp: k_def want_def pkt_complete_def)
    obtain r2 rx2 where a: "rxbuf_add os (take k net) rx1 = Some (r2, rx2)" "rx_ok rx2"
      "rx_data rx2 = rx_data rx1 @ (if r2 = -1 then [] else take k net)" using rxbuf_add_any [OF w(2), of os "take k net"] by blast
    define sz where "sz = (if rx_len rx2 < 3 then 0xffff else pkt_size (rx_data rx2))"
    have sz: "binary_pkt_len rx2 = Some sz" using a(2) by (simp add: binary_pkt_len_ok sz_def)
    have unfold: "recv_binary_loop os cb p w net ret = (if r = -1 then Some (-1, p\<lparr>p_rx := rx1\<rparr>, w)
      else if 3 \<le> rx_len rx2 \<and> rx_len rx2 = 3 + sz then
        Option.bind (binary_deliver os cb (p\<lparr>p_rx := rx2\<rparr>) w sz) (\<lambda>(res, p1, w1).
          case res of Inl x \<Rightarrow> Some (x, p1, w1) | Inr x \<Rightarrow> recv_binary_loop os cb p1 w1 (drop k net) (ret + int k + x))
      else recv_binary_loop os cb (p\<lparr>p_rx := rx2\<rparr>) w (drop k net) (ret + int k))"
      using net by (subst recv_binary_loop.simps) (simp add: w(1) a(1) sz k_def [symmetric] Let_def)
    have less: "length (drop k net) < length net" using k by simp
    consider "r = -1" | (full) "r \<noteq> -1" "3 \<le> rx_len rx2" "rx_len rx2 = 3 + sz"
      | (part) "r \<noteq> -1" "\<not> (3 \<le> rx_len rx2 \<and> rx_len rx2 = 3 + sz)" by blast
    then show ?thesis
    proof cases
      case 1
      then show ?thesis using unfold good_fine [OF \<open>good (length net + n) w\<close>] by simp
    next
      case full
      have "good (Suc (length (drop k net) + n)) w" by (rule good_mono [OF \<open>good (length net + n) w\<close>]) (use less in simp)
      then obtain res p1 w1 where d: "binary_deliver os cb (p\<lparr>p_rx := rx2\<rparr>) w sz = Some (res, p1, w1)" "fine w1"
        "case res of Inl r \<Rightarrow> r \<le> 0 | Inr r \<Rightarrow> good (length (drop k net) + n) w1 \<and> binary_inv p1"
        using deliver_total [OF _ \<open>binary_inv p\<close> assms(3) a(2) full(3), of "length (drop k net) + n" w os] by blast
      then show ?thesis using full unfold "1.IH" less by (cases res) auto
    next
      case part
      have l: "rx_len rx2 = length (rx_data rx2)" "rx_len (p_rx p) = length (rx_data (p_rx p))" using a(2) p(1) by simp_all
      have "take k net = take want net" by (simp add: k_def min_def)
      then have "\<not> pkt_complete (rx_data rx2)"
        using incomplete_grows [OF p(2), of "rx_data rx2" net] part(2) a(3) w(3) unfolding sz_def want_def l by (auto split: if_splits)
      then have "binary_inv (p\<lparr>p_rx := rx2\<rparr>)" using \<open>binary_inv p\<close> a(2) by (simp add: binary_inv_def ptrs_ok_def)
      moreover have "good (length (drop k net) + n) w" by (rule good_mono [OF \<open>good (length net + n) w\<close>]) simp
      moreover have "recv_binary_loop os cb p w net ret = recv_binary_loop os cb (p\<lparr>p_rx := rx2\<rparr>) w (drop k net) (ret + int k)"
        using part unfold by auto
      ultimately show ?thesis using "1.IH" less by simp
    qed
  qed
qed

end

subsection \<open>Every decoder\<close>

context proto_app
begin

lemma recv_total:
  assumes "good (length net + n) w" "proto_ok p" "net \<noteq> [] \<Longrightarrow> modes (if p_mode p = PROTO_MODE_UNKNOWN then autodetect (hd net) else p_mode p)"
    "net \<noteq> [] \<Longrightarrow> fits (tl net)"
  shows "\<exists>r p' w'. proto_recv os cb p w net 0 = Some (r, p', w') \<and> fine w' \<and> (0 < r \<longrightarrow> good n w' \<and> proto_ok p' \<and>
    p_mode p' = (if p_mode p = PROTO_MODE_UNKNOWN then autodetect (hd net) else p_mode p))"
proof (cases "net = []")
  case True
  moreover have "ptrs_ok p" using assms(2) by (simp add: proto_ok_def)
  ultimately show ?thesis using eof [OF assms(1), of p] good_fine [OF assms(1)]
    by (cases "p_on_input p") (auto simp: proto_recv_def input_eof_def ptrs_ok_def)
next
  case net: False
  define p1 where "p1 = (if p_mode p = PROTO_MODE_UNKNOWN then p\<lparr>p_mode := autodetect (hd net)\<rparr> else p)"
  have p1: "proto_ok p1" "modes (p_mode p1)" "p_mode p1 \<noteq> PROTO_MODE_UNKNOWN" using assms(2,3) net
    by (auto simp: p1_def proto_ok_def ptrs_ok_def text_ok_def pkt_complete_def autodetect_def mode_defs)
  have m1: "p_mode p1 = (if p_mode p = PROTO_MODE_UNKNOWN then autodetect (hd net) else p_mode p)" by (simp add: p1_def)
  have recv: "proto_recv os cb p w net 0 = (if p_mode p1 = PROTO_MODE_BINARY then recv_binary os cb p1 w net
    else if p_mode p1 = PROTO_MODE_TEXT then recv_text os cb p1 w net
    else if p_mode p1 = PROTO_MODE_FRAMED then recv_framed cb p1 w net else Some (-1, p1, w))"
    using net by (simp add: proto_recv_def p1_def Let_def)
  consider (bin) "p_mode p1 = PROTO_MODE_BINARY" | (words) "p_mode p1 = PROTO_MODE_TEXT" | (fram) "p_mode p1 = PROTO_MODE_FRAMED"
    | (bad) "p_mode p1 \<noteq> PROTO_MODE_BINARY" "p_mode p1 \<noteq> PROTO_MODE_TEXT" "p_mode p1 \<noteq> PROTO_MODE_FRAMED" by blast
  then show ?thesis
  proof cases
    case bin
    then show ?thesis using binary_loop_total [OF assms(1), of p1 os 0] p1 net binary_inv_proto_ok
      by (auto simp: recv recv_binary_def binary_inv_def simp flip: m1)
  next
    case words
    then show ?thesis using text_bytes_total [OF assms(1), of p1 os 0] p1 net text_inv_proto_ok
      by (auto simp: recv recv_text_def text_inv_def mode_defs m1 [symmetric, unfolded mode_defs])
  next
    case fram
    have "good (Suc (length (tl net) + n)) w" using assms(1) net by (cases net) simp_all
    moreover have "ptrs_ok p1" using p1(1) by (simp add: proto_ok_def)
    moreover obtain m d where md: "net = m # d" "fits d" using net assms(4) by (cases net) auto
    ultimately obtain r p' w' where "cb_input cb p1 w m d = Some (r, p', w')" "fine w'" "0 < r \<longrightarrow> good n w' \<and> p' = p1"
      using takes [OF _ _ p1(2), of "length (tl net) + n" w d m] good_mono [of "length (tl net) + n" _ n] by auto
    moreover have "proto_recv os cb p w net 0 = recv_framed cb p1 w net" using recv fram by (simp add: mode_defs)
    ultimately show ?thesis using p1(1) md \<open>ptrs_ok p1\<close> good_fine [OF assms(1)] good_mono [OF assms(1), of n]
      by (cases "p_on_input p1") (auto simp: recv_framed_def ptrs_ok_def simp flip: m1)
  next
    case bad
    then show ?thesis using good_fine [OF assms(1)] by (simp add: recv)
  qed
qed

end

text \<open>Partial correctness of a character: what every pass keeps.\<close>

lemma text_1ch_keeps:
  assumes "\<And>p w r p' w'. I p \<Longrightarrow> text_jump os cb ch p w = Some (Inl (r, p', w')) \<Longrightarrow> I p'"
    "\<And>p w p' w'. I p \<Longrightarrow> text_jump os cb ch p w = Some (Inr (p', w')) \<Longrightarrow> I p'"
    "I p" "recv_text_1ch os cb p w ch = Some (r, p', w')"
  shows "I p'"
proof -
  have "wf jump_rel" by (simp add: jump_rel_def)
  then show ?thesis using assms(3,4)
  proof (induction p arbitrary: w rule: wf_induct_rule)
    case (less p)
    obtain res where res: "text_jump os cb ch p w = Some res"
      "(case res of Inl x \<Rightarrow> Some x | Inr (p1, w1) \<Rightarrow> recv_text_1ch os cb p1 w1 ch) = Some (r, p', w')"
      using less.prems(2) by (subst (asm) recv_text_1ch_jump) (auto split: bind_splits)
    show ?case
    proof (cases res)
      case (Inl x)
      then show ?thesis using res assms(1) [OF less.prems(1)] by auto
    next
      case (Inr y)
      obtain p1 w1 where y: "y = (p1, w1)" by (cases y)
      have j: "text_jump os cb ch p w = Some (Inr (p1, w1))" using res(1) Inr y by simp
      from less.IH [OF text_jump_less [OF j] assms(2) [OF less.prems(1) j]] res(2) Inr y show ?thesis by simp
    qed
  qed
qed

lemma proto_output_mode:
  "proto_output cb p w m fmt ap = Some (r, p1, w1) \<Longrightarrow> p_mode p \<noteq> PROTO_MODE_UNKNOWN \<Longrightarrow> p1 = p"
  by (auto simp: proto_output_def proto_outputv_def Let_def split: if_splits bind_splits)

lemma proto_output_error_mode:
  "proto_output_error cb p w c msg = Some (r, p1, w1) \<Longrightarrow> p_mode p \<noteq> PROTO_MODE_UNKNOWN \<Longrightarrow> p1 = p"
  by (auto simp: proto_output_error_def dest!: proto_output_mode split: if_splits bind_splits)

lemma skip_bar_mode [simp]: "p_mode (skip_bar p) = p_mode p"
  by (auto simp: skip_bar_def split: list.splits)

lemma set_state_mode [simp]: "p_mode (set_state st p) = p_mode p"
  by (simp add: set_state_def)

lemma text_word_mode:
  "text_word os cb p w = Some (res, p1, w1) \<Longrightarrow> p_mode p = PROTO_MODE_TEXT \<Longrightarrow> p_mode p1 = PROTO_MODE_TEXT"
  by (auto simp: text_word_def Let_def mode_defs dest!: proto_output_error_mode split: if_splits bind_splits option.splits)

lemma text_eol_mode:
  assumes "text_eol os cb p w = Some (r, p1, w1)" "\<And>p w m d r p1 w1. cb_input cb p w m d = Some (r, p1, w1) \<Longrightarrow> p_mode p1 = p_mode p"
    "p_mode p = PROTO_MODE_TEXT"
  shows "p_mode p1 = PROTO_MODE_TEXT"
  using assms(1,3) by (auto simp: text_eol_def text_input_def Let_def mode_defs dest!: proto_output_error_mode assms(2)
    split: if_splits bind_splits fptr.splits)

lemma text_1ch_mode:
  assumes "recv_text_1ch os cb p w ch = Some (r, p1, w1)" "p_mode p = PROTO_MODE_TEXT"
    "\<And>p w m d r p1 w1. cb_input cb p w m d = Some (r, p1, w1) \<Longrightarrow> p_mode p1 = p_mode p"
  shows "p_mode p1 = PROTO_MODE_TEXT"
proof (rule text_1ch_keeps [where I = "\<lambda>p. p_mode p = PROTO_MODE_TEXT", OF _ _ assms(2,1)])
  fix p p' :: proto and w r w'
  assume p: "p_mode p = PROTO_MODE_TEXT"
  show "p_mode p' = PROTO_MODE_TEXT" if "text_jump os cb ch p w = Some (Inl (r, p', w'))"
    using that p by (auto simp: text_jump_def Let_def mode_defs dest!: proto_output_error_mode dest: text_word_mode [unfolded mode_defs] text_eol_mode [unfolded mode_defs, OF _ assms(3)]
      split: tstate.splits if_splits bind_splits list.splits sum.splits)
  show "p_mode p' = PROTO_MODE_TEXT" if "text_jump os cb ch p w = Some (Inr (p', w'))"
    using that p by (auto simp: text_jump_def Let_def mode_defs dest!: proto_output_error_mode dest: text_word_mode [unfolded mode_defs] 
      split: tstate.splits if_splits bind_splits list.splits sum.splits)
qed

subsection \<open>Properties\<close>

text \<open>
  C10: no peer can make the decoders fault.  Take a translator in any protocol, with its callbacks set or NULL,
  whose receive buffer and text state are as the operations leave them, and callbacks that return and leave the
  translator as it is.  Then \<^verbatim>\<open>proto_recv\<close> returns for every sequence of bytes, for every answer of the
  allocator, and unless it reports an error or the end the translator is again in such a state.  So every access
  to the receive buffer, to the command word of 16 bytes and to the output buffer of an error reply is within
  bounds, and every loop ends.
\<close>

theorem proto_recv_total:
  assumes "\<And>p w m d. ptrs_ok p \<Longrightarrow> \<exists>r w'. cb_input cb p w m d = Some (r, p, w')"
    "\<And>p w bs. \<exists>r w'. cb_sendv cb p w bs = Some (r, w')" "\<And>p w msg. \<exists>w'. cb_error cb p w msg = Some w'"
    "proto_ok p"
  shows "\<exists>r p' w'. proto_recv os cb p w net 0 = Some (r, p', w') \<and> (0 < r \<longrightarrow> proto_ok p')"
proof -
  have "proto_app cb (\<lambda>n w. True) (\<lambda>w. True) (\<lambda>m. True) (\<lambda>d. True)"
    by unfold_locales (metis assms(1), metis assms(1), metis assms(2), metis assms(3), simp_all)
  from proto_app.recv_total [OF this _ assms(4), where os = os and w = w and net = net] show ?thesis by auto
qed

text \<open>A hostile line: a long word, an unclosed quote, a bad escape and a stray NUL.\<close>

theorem proto_recv_total_witness:
  "\<exists>r p' w'. proto_recv (good_os\<lparr>os_realloc := \<lambda>n. n < 2000\<rparr>) record_cb (fresh_proto PROTO_MODE_UNKNOWN) []
      (replicate 40 97 @ [10] @ lit ''sub '' @ [34, 92, 57, 0, 13]) 0 = Some (r, p', w') \<and> (0 < r \<longrightarrow> proto_ok p')"
  by (rule proto_recv_total)
    (simp_all add: record_cb_def proto_ok_def ptrs_ok_def fresh_proto_def mode_defs text_ok_def)

end
