(* ===== verification/Proto_Text.thy ===== *)
theory Proto_Text
  imports Proto_Safe
begin

text \<open>
  The text protocol: what the encoder writes for a message, and that the decoder reads it back.
\<close>

subsection \<open>Definitions\<close>

text \<open>The quoted form of a string, and the line of a message whose data is one \<^verbatim>\<open>%*s\<close> argument.\<close>

definition text_escape :: "byte \<Rightarrow> bytes" where
  "text_escape ch = (if needs_escape ch then octal_escape ch else [ch])"

definition text_quote :: "bytes \<Rightarrow> bytes" where
  "text_quote s = [34] @ concat (map text_escape s) @ [34]"

definition text_words :: "(byte \<times> bytes \<times> bytes) list" where
  "text_words =
    [(CMD_SUB, lit ''SUB'', lit ''t''), (CMD_UNSUB, lit ''UNSUB'', lit ''t''), (CMD_READ, lit ''READ'', lit ''t''),
     (CMD_WRITE, lit ''WRITE'', lit ''t|0t''), (CMD_PING, lit ''PING'', lit ''|t''),
     (MSG_INFO, lit ''INFO'', lit ''t|0t''), (MSG_PONG, lit ''PONG'', lit ''|t'')]"

definition text_strings :: "bytes \<Rightarrow> bytes \<Rightarrow> bytes list" where
  "text_strings fmt d =
     (if fmt = lit ''t|0t'' \<and> has_nul d then [cstr d, drop (length (cstr d) + 1) d] else [d])"

definition text_line :: "bytes \<Rightarrow> bytes \<Rightarrow> bytes \<Rightarrow> bytes" where
  "text_line word fmt d = word @ concat (map (\<lambda>s. [32] @ text_quote s) (text_strings fmt d)) @ [13, 10]"

text \<open>Progress of the decoder over a stretch of characters, and between states.\<close>

definition goes :: "os \<Rightarrow> 'w cb \<Rightarrow> proto \<Rightarrow> 'w \<Rightarrow> bytes \<Rightarrow> proto \<Rightarrow> 'w \<Rightarrow> bool" where
  "goes os cb p w xs p' w' \<longleftrightarrow>
     (\<forall>ret\<ge>0. \<exists>r. recv_text_loop os cb p w xs ret = Some (r, p', w') \<and> ret + int (length xs) \<le> r)"

definition reach :: "os \<Rightarrow> 'w cb \<Rightarrow> (proto \<Rightarrow> bool) \<Rightarrow> 'w \<Rightarrow> bytes \<Rightarrow> (proto \<Rightarrow> bool) \<Rightarrow> 'w \<Rightarrow> bool" where
  "reach os cb P w xs Q w' \<longleftrightarrow> (\<forall>p. P p \<longrightarrow> (\<exists>p'. Q p' \<and> goes os cb p w xs p' w'))"

definition at_bol :: "proto \<Rightarrow> proto \<Rightarrow> bool" where
  "at_bol p0 p \<longleftrightarrow> (\<exists>rx t. p = p0\<lparr>p_rx := rx, p_t := t\<rparr> \<and> rx_ok rx \<and> t_state t = T_BOL)"

definition at_cmd :: "proto \<Rightarrow> bytes \<Rightarrow> proto \<Rightarrow> bool" where
  "at_cmd p0 c p \<longleftrightarrow> (\<exists>rx t. p = p0\<lparr>p_rx := rx, p_t := t\<rparr> \<and> rx_ok rx \<and> t_state t = T_CMD \<and> t_cmd t = c)"

definition at_arg :: "proto \<Rightarrow> tstate \<Rightarrow> bytes \<Rightarrow> bool \<Rightarrow> bytes \<Rightarrow> proto \<Rightarrow> bool" where
  "at_arg p0 st fmt opt data p \<longleftrightarrow> (\<exists>rx t. p = p0\<lparr>p_rx := rx, p_t := t\<rparr> \<and> rx_ok rx \<and> rx_data rx = data \<and>
     t_state t = st \<and> t_fmt t = fmt \<and> t_optional t = opt)"

definition at_oct :: "proto \<Rightarrow> bytes \<Rightarrow> bool \<Rightarrow> bytes \<Rightarrow> nat \<Rightarrow> nat \<Rightarrow> proto \<Rightarrow> bool" where
  "at_oct p0 fmt opt data v c p \<longleftrightarrow> (\<exists>rx t. p = p0\<lparr>p_rx := rx, p_t := t\<rparr> \<and> rx_ok rx \<and> rx_data rx = data \<and>
     t_state t = T_QOCT \<and> t_fmt t = fmt \<and> t_optional t = opt \<and> t_intval t = v \<and> t_counter t = c)"

subsection \<open>Single characters\<close>

lemma ch_BOL:
  "t_state (p_t p) = T_BOL \<Longrightarrow> recv_text_1ch os cb p w ch =
     (if ch = 32 \<or> ch = 10 \<or> ch = 13 then Some (1, p, w)
      else recv_text_1ch os cb (p\<lparr>p_t := (p_t p)\<lparr>t_cmd := [], t_state := T_CMD\<rparr>\<rparr>) w ch)"
  by (subst recv_text_1ch.simps) (simp add: Let_def)

lemma ch_CMD:
  "t_state (p_t p) = T_CMD \<Longrightarrow> length (t_cmd (p_t p)) < 15 \<Longrightarrow> ch \<noteq> 32 \<Longrightarrow> ch \<noteq> 10 \<Longrightarrow> ch \<noteq> 13 \<Longrightarrow>
   recv_text_1ch os cb p w ch = Some (1, p\<lparr>p_t := (p_t p)\<lparr>t_cmd := t_cmd (p_t p) @ [ch]\<rparr>\<rparr>, w)"
  by (subst recv_text_1ch.simps) (simp add: Let_def)

lemma ch_CMD_end:
  "t_state (p_t p) = T_CMD \<Longrightarrow> length (t_cmd (p_t p)) < 16 \<Longrightarrow> ch = 32 \<or> ch = 10 \<or> ch = 13 \<Longrightarrow>
   recv_text_1ch os cb p w ch = do {
     (res, p1, w1) \<leftarrow> text_word os cb p w;
     case res of Inl n \<Rightarrow> Some (n, p1, w1) | Inr u \<Rightarrow> recv_text_1ch os cb p1 w1 ch
   }"
  by (subst recv_text_1ch.simps) (auto simp: Let_def)

lemma ch_ARGSP_space: "t_state (p_t p) = T_ARGSP \<Longrightarrow> recv_text_1ch os cb p w 32 = Some (1, p, w)"
  by (subst recv_text_1ch.simps) (simp add: Let_def)

lemma ch_ARGSP_eol:
  "t_state (p_t p) = T_ARGSP \<Longrightarrow> ch = 10 \<or> ch = 13 \<Longrightarrow> recv_text_1ch os cb p w ch = text_eol os cb (skip_bar p) w"
  by (subst recv_text_1ch.simps) (auto simp: Let_def)

lemma ch_ARGSP_arg:
  assumes "t_state (p_t p) = T_ARGSP" "ch \<noteq> 32" "ch \<noteq> 10" "ch \<noteq> 13" "t_fmt (p_t (skip_bar p)) = f # fmt"
  shows "f = 105 \<Longrightarrow> recv_text_1ch os cb p w ch = recv_text_1ch os cb
      ((skip_bar p)\<lparr>p_t := (p_t (skip_bar p))\<lparr>t_fmt := fmt, t_state := T_INT, t_intval := 0\<rparr>\<rparr>) w ch"
    "f = 116 \<Longrightarrow> recv_text_1ch os cb p w ch = recv_text_1ch os cb
      ((skip_bar p)\<lparr>p_t := (p_t (skip_bar p))\<lparr>t_fmt := fmt, t_state := T_STRBEG\<rparr>\<rparr>) w ch"
    "f = 48 \<Longrightarrow> recv_text_1ch os cb p w ch = do {
      (r, rx1) \<leftarrow> rxbuf_addc os 0 (p_rx (skip_bar p));
      let p3 = (skip_bar p)\<lparr>p_t := (p_t (skip_bar p))\<lparr>t_fmt := fmt\<rparr>, p_rx := rx1\<rparr>;
      recv_text_1ch os cb (if r = -1 then set_state T_ERROR p3 else p3) w ch }"
  using assms by - (subst recv_text_1ch.simps, simp add: Let_def set_state_def cong: if_cong)+

lemma ch_INT:
  "t_state (p_t p) = T_INT \<Longrightarrow> 48 \<le> ch \<Longrightarrow> ch \<le> 57 \<Longrightarrow> t_intval (p_t p) * 10 + unat ch - 48 \<le> 255 \<Longrightarrow>
   recv_text_1ch os cb p w ch = Some (1, p\<lparr>p_t := (p_t p)\<lparr>t_intval := t_intval (p_t p) * 10 + unat ch - 48\<rparr>\<rparr>, w)"
  by (subst recv_text_1ch.simps) (simp add: Let_def)

lemma ch_INT_end:
  "t_state (p_t p) = T_INT \<Longrightarrow> \<not> (48 \<le> ch \<and> ch \<le> 57) \<Longrightarrow>
   recv_text_1ch os cb p w ch = do {
     (r, rx1) \<leftarrow> rxbuf_addc os (of_nat (t_intval (p_t p))) (p_rx p);
     if r = -1 then Some (-1, p\<lparr>p_rx := rx1\<rparr>, w) else recv_text_1ch os cb (set_state T_ARGSP (p\<lparr>p_rx := rx1\<rparr>)) w ch
   }"
  by (subst recv_text_1ch.simps) (auto simp: Let_def)

lemma ch_STRBEG_quote: "t_state (p_t p) = T_STRBEG \<Longrightarrow> recv_text_1ch os cb p w 34 = Some (1, set_state T_QSTR p, w)"
  by (subst recv_text_1ch.simps) (simp add: Let_def)

lemma ch_QSTR:
  "t_state (p_t p) = T_QSTR \<Longrightarrow> \<not> needs_escape ch \<Longrightarrow>
   recv_text_1ch os cb p w ch = do { (r, rx1) \<leftarrow> rxbuf_addc os ch (p_rx p); Some (if r = -1 then -1 else 1, p\<lparr>p_rx := rx1\<rparr>, w) }"
  by (subst recv_text_1ch.simps) (simp add: Let_def needs_escape_def)

lemma ch_QSTR_end: "t_state (p_t p) = T_QSTR \<Longrightarrow> recv_text_1ch os cb p w 34 = Some (1, set_state T_ARGSP p, w)"
  by (subst recv_text_1ch.simps) (simp add: Let_def)

lemma ch_QSTR_esc:
  "t_state (p_t p) = T_QSTR \<Longrightarrow> recv_text_1ch os cb p w 92 =
   Some (1, p\<lparr>p_t := (p_t p)\<lparr>t_counter := 3, t_intval := 0, t_state := T_QOCT\<rparr>\<rparr>, w)"
  by (subst recv_text_1ch.simps) (simp add: Let_def)

lemma ch_QOCT:
  "t_state (p_t p) = T_QOCT \<Longrightarrow> 48 \<le> ch \<Longrightarrow> ch \<le> 55 \<Longrightarrow> 1 < t_counter (p_t p) \<Longrightarrow> t_counter (p_t p) < 256 \<Longrightarrow>
   recv_text_1ch os cb p w ch = Some (1, p\<lparr>p_t := (p_t p)\<lparr>t_intval := (t_intval (p_t p) * 8 mod 65536) OR (unat ch - 48),
     t_counter := t_counter (p_t p) - 1\<rparr>\<rparr>, w)"
  by (subst recv_text_1ch.simps) (auto simp: Let_def mod_if not_less)

lemma ch_QOCT_last:
  "t_state (p_t p) = T_QOCT \<Longrightarrow> 48 \<le> ch \<Longrightarrow> ch \<le> 55 \<Longrightarrow> t_counter (p_t p) = 1 \<Longrightarrow>
   recv_text_1ch os cb p w ch =
     (let v = (t_intval (p_t p) * 8 mod 65536) OR (unat ch - 48); p1 = p\<lparr>p_t := (p_t p)\<lparr>t_intval := v, t_counter := 0\<rparr>\<rparr> in do {
        (r, rx1) \<leftarrow> rxbuf_addc os (of_nat v) (p_rx p1);
        if r = -1 then Some (-1, p1\<lparr>p_rx := rx1\<rparr>, w) else Some (1, set_state T_QSTR (p1\<lparr>p_rx := rx1\<rparr>), w)
      })"
  by (subst recv_text_1ch.simps) (auto simp: Let_def not_less)

subsection \<open>Stretches of characters\<close>

lemma upd_inject: "p0\<lparr>p_rx := rx, p_t := t\<rparr> = p0\<lparr>p_rx := rx', p_t := t'\<rparr> \<longleftrightarrow> rx = rx' \<and> t = t'"
  by (metis proto.select_convs(5,6) proto.surjective proto.update_convs(5,6))

lemma upd_order [simp]: "p\<lparr>p_t := t, p_rx := rx\<rparr> = p\<lparr>p_rx := rx, p_t := t\<rparr>"
  by simp

lemma at_iffs [simp]:
  "at_bol p0 (p0\<lparr>p_rx := rx, p_t := t\<rparr>) \<longleftrightarrow> rx_ok rx \<and> t_state t = T_BOL"
  "at_cmd p0 c (p0\<lparr>p_rx := rx, p_t := t\<rparr>) \<longleftrightarrow> rx_ok rx \<and> t_state t = T_CMD \<and> t_cmd t = c"
  "at_arg p0 st fmt opt data (p0\<lparr>p_rx := rx, p_t := t\<rparr>) \<longleftrightarrow> rx_ok rx \<and> rx_data rx = data \<and>
     t_state t = st \<and> t_fmt t = fmt \<and> t_optional t = opt"
  "at_oct p0 fmt opt data v k (p0\<lparr>p_rx := rx, p_t := t\<rparr>) \<longleftrightarrow> rx_ok rx \<and> rx_data rx = data \<and>
     t_state t = T_QOCT \<and> t_fmt t = fmt \<and> t_optional t = opt \<and> t_intval t = v \<and> t_counter t = k"
  by (auto simp: at_bol_def at_cmd_def at_arg_def at_oct_def upd_inject)

lemma reach_Nil: "(\<And>p. P p \<Longrightarrow> Q p) \<Longrightarrow> reach os cb P w [] Q w"
  by (auto simp: reach_def goes_def)

lemma reach_append:
  assumes "reach os cb P w xs Q w1" "reach os cb Q w1 ys R w2"
  shows "reach os cb P w (xs @ ys) R w2"
  unfolding reach_def
proof (intro allI impI)
  fix p
  assume "P p"
  then obtain p1 p2 where g: "goes os cb p w xs p1 w1" "R p2" "goes os cb p1 w1 ys p2 w2"
    using assms unfolding reach_def by meson
  have "\<exists>r. recv_text_loop os cb p w (xs @ ys) ret = Some (r, p2, w2) \<and> ret + int (length (xs @ ys)) \<le> r" if "0 \<le> ret" for ret
  proof -
    obtain r1 where r1: "recv_text_loop os cb p w xs ret = Some (r1, p1, w1)" "ret + int (length xs) \<le> r1"
      using g(1) \<open>0 \<le> ret\<close> by (auto simp: goes_def)
    then have "0 \<le> r1" "0 < r1 \<or> xs = []" using \<open>0 \<le> ret\<close> by (auto simp: not_less neq_Nil_conv)
    moreover obtain r2 where "recv_text_loop os cb p1 w1 ys r1 = Some (r2, p2, w2)" "r1 + int (length ys) \<le> r2"
      using g(3) \<open>0 \<le> r1\<close> by (auto simp: goes_def)
    ultimately show ?thesis using text_loop_append [OF r1(1) _ \<open>0 \<le> ret\<close>] r1(2) by auto
  qed
  then show "\<exists>p'. R p' \<and> goes os cb p w (xs @ ys) p' w2" using g(2) by (auto simp: goes_def)
qed

lemma reach_char:
  assumes "\<And>p. P p \<Longrightarrow> \<exists>n p'. recv_text_1ch os cb p w ch = Some (n, p', w') \<and> 0 < n \<and> Q p'"
  shows "reach os cb P w [ch] Q w'"
  unfolding reach_def
proof (intro allI impI)
  fix p
  assume "P p"
  then obtain n p' where "recv_text_1ch os cb p w ch = Some (n, p', w')" "0 < n" "Q p'" using assms by blast
  then show "\<exists>p'. Q p' \<and> goes os cb p w [ch] p' w'" by (intro exI [of _ p']) (auto simp: goes_def)
qed

lemma reach_from:
  "(\<And>rx t. rx_ok rx \<Longrightarrow> t_state t = T_BOL \<Longrightarrow>
     \<exists>n p'. recv_text_1ch os cb (p0\<lparr>p_rx := rx, p_t := t\<rparr>) w ch = Some (n, p', w') \<and> 0 < n \<and> Q p') \<Longrightarrow>
   reach os cb (at_bol p0) w [ch] Q w'"
  "(\<And>rx t. rx_ok rx \<Longrightarrow> t_state t = T_CMD \<Longrightarrow> t_cmd t = c \<Longrightarrow>
     \<exists>n p'. recv_text_1ch os cb (p0\<lparr>p_rx := rx, p_t := t\<rparr>) w ch = Some (n, p', w') \<and> 0 < n \<and> Q p') \<Longrightarrow>
   reach os cb (at_cmd p0 c) w [ch] Q w'"
  "(\<And>rx t. rx_ok rx \<Longrightarrow> rx_data rx = data \<Longrightarrow> t_state t = st \<Longrightarrow> t_fmt t = fmt \<Longrightarrow> t_optional t = opt \<Longrightarrow>
     \<exists>n p'. recv_text_1ch os cb (p0\<lparr>p_rx := rx, p_t := t\<rparr>) w ch = Some (n, p', w') \<and> 0 < n \<and> Q p') \<Longrightarrow>
   reach os cb (at_arg p0 st fmt opt data) w [ch] Q w'"
  "(\<And>rx t. rx_ok rx \<Longrightarrow> rx_data rx = data \<Longrightarrow> t_state t = T_QOCT \<Longrightarrow> t_fmt t = fmt \<Longrightarrow> t_optional t = opt \<Longrightarrow>
     t_intval t = v \<Longrightarrow> t_counter t = k \<Longrightarrow>
     \<exists>n p'. recv_text_1ch os cb (p0\<lparr>p_rx := rx, p_t := t\<rparr>) w ch = Some (n, p', w') \<and> 0 < n \<and> Q p') \<Longrightarrow>
   reach os cb (at_oct p0 fmt opt data v k) w [ch] Q w'"
  by (rule reach_char; auto simp: at_bol_def at_cmd_def at_arg_def at_oct_def)+

lemma reach_Cons:
  "reach os cb P w [x] Q w1 \<Longrightarrow> reach os cb Q w1 xs R w2 \<Longrightarrow> reach os cb P w (x # xs) R w2"
  using reach_append [of os cb P w "[x]" Q w1 xs R w2] by simp

lemma reach_pre: "reach os cb P w xs Q w' \<Longrightarrow> (\<And>p. P' p \<Longrightarrow> P p) \<Longrightarrow> reach os cb P' w xs Q w'"
  by (auto simp: reach_def)

text \<open>Adding a character never fails while there is room.\<close>

lemma addc_room:
  assumes "rx_ok rx" "\<forall>n. os_realloc os n" "length (rx_data rx) < 65535"
  shows "\<exists>rx'. rxbuf_addc os ch rx = Some (0, rx') \<and> rx_ok rx' \<and> rx_data rx' = rx_data rx @ [ch]"
  using assms(1)
proof (cases rule: rxbuf_addc_ok [where os = os and ch = ch])
  case fail
  then show ?thesis using assms by simp
qed blast

lemma reach_word:
  assumes "\<forall>ch\<in>set word. ch \<noteq> 32 \<and> ch \<noteq> 10 \<and> ch \<noteq> 13" "length c + length word < 16"
  shows "reach os cb (at_cmd p0 c) w word (at_cmd p0 (c @ word)) w"
  using assms
proof (induction word arbitrary: c)
  case Nil
  then show ?case by (simp add: reach_Nil)
next
  case (Cons x xs)
  have "reach os cb (at_cmd p0 c) w [x] (at_cmd p0 (c @ [x])) w"
    using Cons.prems by (intro reach_from) (auto simp: ch_CMD)
  moreover have "reach os cb (at_cmd p0 (c @ [x])) w xs (at_cmd p0 (c @ x # xs)) w"
    using Cons.IH [of "c @ [x]"] Cons.prems by simp
  ultimately show ?case by (rule reach_Cons)
qed

lemma reach_plain:
  assumes "\<forall>n. os_realloc os n" "\<not> needs_escape ch" "length data < 65535"
  shows "reach os cb (at_arg p0 T_QSTR fmt opt data) w [ch] (at_arg p0 T_QSTR fmt opt (data @ [ch])) w"
proof (rule reach_from)
  fix rx :: rxbuf and t :: textproto
  assume a: "rx_ok rx" "rx_data rx = data" "t_state t = T_QSTR" "t_fmt t = fmt" "t_optional t = opt"
  obtain rx' where "rxbuf_addc os ch rx = Some (0, rx')" "rx_ok rx'" "rx_data rx' = data @ [ch]"
    using addc_room [OF a(1) assms(1), of ch] a(2) assms(3) by auto
  then show "\<exists>n p'. recv_text_1ch os cb (p0\<lparr>p_rx := rx, p_t := t\<rparr>) w ch = Some (n, p', w) \<and> 0 < n \<and>
      at_arg p0 T_QSTR fmt opt (data @ [ch]) p'"
    using a assms(2) by (simp add: ch_QSTR)
qed

lemma reach_esc_start:
  "reach os cb (at_arg p0 T_QSTR fmt opt data) w [92] (at_oct p0 fmt opt data 0 3) w"
  by (intro reach_from) (simp add: ch_QSTR_esc)

lemma reach_oct:
  "48 \<le> ch \<Longrightarrow> ch \<le> 55 \<Longrightarrow> 1 < k \<Longrightarrow> k < 256 \<Longrightarrow>
   reach os cb (at_oct p0 fmt opt data v k) w [ch] (at_oct p0 fmt opt data ((v * 8 mod 65536) OR (unat ch - 48)) (k - 1)) w"
  by (intro reach_from) (simp add: ch_QOCT)

lemma reach_oct_last:
  assumes "\<forall>n. os_realloc os n" "48 \<le> ch" "ch \<le> 55" "length data < 65535"
  shows "reach os cb (at_oct p0 fmt opt data v 1) w [ch]
    (at_arg p0 T_QSTR fmt opt (data @ [of_nat ((v * 8 mod 65536) OR (unat ch - 48))])) w"
    (is "reach _ _ _ _ _ (at_arg _ _ _ _ (_ @ [?b])) _")
proof (rule reach_from)
  fix rx :: rxbuf and t :: textproto
  assume a: "rx_ok rx" "rx_data rx = data" "t_state t = T_QOCT" "t_fmt t = fmt" "t_optional t = opt"
    "t_intval t = v" "t_counter t = 1"
  obtain rx' where "rxbuf_addc os ?b rx = Some (0, rx')" "rx_ok rx'" "rx_data rx' = data @ [?b]"
    using addc_room [OF a(1) assms(1), of ?b] a(2) assms(4) by auto
  then show "\<exists>n p'. recv_text_1ch os cb (p0\<lparr>p_rx := rx, p_t := t\<rparr>) w ch = Some (n, p', w) \<and> 0 < n \<and>
      at_arg p0 T_QSTR fmt opt (data @ [?b]) p'"
    using a assms(2,3) by (simp add: ch_QOCT_last set_state_def)
qed

lemma reach_octal:
  assumes "\<forall>n. os_realloc os n" "length data < 65535" "48 \<le> a" "a \<le> 55" "48 \<le> b" "b \<le> 55" "48 \<le> c" "c \<le> 55"
  shows "reach os cb (at_arg p0 T_QSTR fmt opt data) w [92, a, b, c] (at_arg p0 T_QSTR fmt opt
    (data @ [of_nat ((((unat a - 48) * 8 mod 65536 OR (unat b - 48)) * 8 mod 65536) OR (unat c - 48))])) w"
proof -
  have 1: "reach os cb (at_oct p0 fmt opt data 0 3) w [a] (at_oct p0 fmt opt data (unat a - 48) 2) w"
    using reach_oct [of a 3 os cb p0 fmt opt data 0] assms by simp
  have 2: "reach os cb (at_oct p0 fmt opt data v 2) w [b] (at_oct p0 fmt opt data ((v * 8 mod 65536) OR (unat b - 48)) 1) w" for v
    using reach_oct [of b 2 os cb p0 fmt opt data v] assms by simp
  show ?thesis by (rule reach_Cons [OF reach_esc_start reach_Cons [OF 1 reach_Cons [OF 2 reach_oct_last [OF assms(1,7,8,2)]]]])
qed

lemma reach_escape:
  assumes "\<forall>n. os_realloc os n" "length data < 65535"
  shows "reach os cb (at_arg p0 T_QSTR fmt opt data) w (text_escape ch) (at_arg p0 T_QSTR fmt opt (data @ [ch])) w"
proof (cases "needs_escape ch")
  case False
  then show ?thesis using reach_plain assms by (simp add: text_escape_def)
next
  case True
  note * = reach_octal [OF assms, of _ _ _ cb p0 fmt opt w]
  show ?thesis using True * [of 48 49 50] * [of 48 49 53] * [of 48 52 50] * [of 49 51 52] * [of 48 48 48]
    by (auto simp: text_escape_def needs_escape_def octal_escape_def)
qed

lemma reach_escapes:
  assumes "\<forall>n. os_realloc os n" "length data + length s < 65536"
  shows "reach os cb (at_arg p0 T_QSTR fmt opt data) w (concat (map text_escape s)) (at_arg p0 T_QSTR fmt opt (data @ s)) w"
  using assms(2)
proof (induction s arbitrary: data)
  case Nil
  then show ?case by (simp add: reach_Nil)
next
  case (Cons ch s)
  have "reach os cb (at_arg p0 T_QSTR fmt opt data) w (text_escape ch) (at_arg p0 T_QSTR fmt opt (data @ [ch])) w"
    by (rule reach_escape [OF assms(1)]) (use Cons.prems in simp)
  from reach_append [OF this Cons.IH] Cons.prems show ?case by simp
qed

text \<open>A quoted string as the next argument; \<open>pre\<close> is what the decoder skips of the format before it.\<close>

lemma reach_space:
  "reach os cb (at_arg p0 T_ARGSP fmt opt data) w [32] (at_arg p0 T_ARGSP fmt opt data) w"
  by (intro reach_from) (simp add: ch_ARGSP_space)

lemma reach_argument:
  assumes "\<forall>n. os_realloc os n" "length data + length s < 65535"
    "(pre, opt', zero) = ([], opt, []) \<or> (pre, opt', zero) = ([124], True, []) \<or> (pre, opt', zero) = ([124, 48], True, [0])"
  shows "reach os cb (at_arg p0 T_ARGSP (pre @ 116 # fmt) opt data) w (text_quote s)
    (at_arg p0 T_ARGSP fmt opt' (data @ zero @ s)) w"
proof -
  have op: "reach os cb (at_arg p0 T_ARGSP (pre @ 116 # fmt) opt data) w [34] (at_arg p0 T_QSTR fmt opt' (data @ zero)) w"
  proof (rule reach_from)
    fix rx :: rxbuf and t :: textproto
    assume a: "rx_ok rx" "rx_data rx = data" "t_state t = T_ARGSP" "t_fmt t = pre @ 116 # fmt" "t_optional t = opt"
    obtain rx' where z: "rxbuf_addc os 0 rx = Some (0, rx')" "rx_ok rx'" "rx_data rx' = data @ [0]"
      using addc_room [OF a(1) assms(1), of 0] a(2) assms(2) by auto
    show "\<exists>n p'. recv_text_1ch os cb (p0\<lparr>p_rx := rx, p_t := t\<rparr>) w 34 = Some (n, p', w) \<and> 0 < n \<and>
        at_arg p0 T_QSTR fmt opt' (data @ zero) p'"
      using assms(3) a z by (auto simp: ch_ARGSP_arg ch_STRBEG_quote skip_bar_def set_state_def)
  qed
  have cl: "reach os cb (at_arg p0 T_QSTR fmt opt' (data @ zero @ s)) w [34] (at_arg p0 T_ARGSP fmt opt' (data @ zero @ s)) w"
    by (intro reach_from) (simp add: ch_QSTR_end set_state_def)
  have st: "reach os cb (at_arg p0 T_QSTR fmt opt' (data @ zero)) w (concat (map text_escape s)) (at_arg p0 T_QSTR fmt opt' (data @ zero @ s)) w"
    using reach_escapes [OF assms(1), of "data @ zero" s] assms(2,3) by auto
  show ?thesis using reach_append [OF op reach_append [OF st cl]] by (simp add: text_quote_def)
qed

lemma reach_start:
  assumes "word \<noteq> []" "\<forall>ch\<in>set word. ch \<noteq> 32 \<and> ch \<noteq> 10 \<and> ch \<noteq> 13" "length word < 16"
  shows "reach os cb (at_bol p0) w word (at_cmd p0 word) w"
proof (cases word)
  case (Cons x xs)
  have "reach os cb (at_bol p0) w [x] (at_cmd p0 [x]) w"
    using assms Cons by (intro reach_from) (simp add: ch_BOL ch_CMD)
  moreover have "reach os cb (at_cmd p0 [x]) w xs (at_cmd p0 ([x] @ xs)) w"
    using assms Cons by (intro reach_word) auto
  ultimately show ?thesis using reach_Cons Cons by fastforce
qed (use assms in simp)

lemma reach_word_end:
  assumes "\<forall>n. os_realloc os n" "lookup_cmd word = Some (cid, fmt)" "length word < 16"
  shows "reach os cb (at_cmd p0 word) w [32] (at_arg p0 T_ARGSP fmt False [cid]) w"
proof (rule reach_from)
  fix rx :: rxbuf and t :: textproto
  assume a: "rx_ok rx" "t_state t = T_CMD" "t_cmd t = word"
  obtain rx1 where c: "rxbuf_clear os 1 rx = Some (0, rx1)" "rx_ok rx1" "rx_data rx1 = []"
    using rxbuf_clear_ok [OF a(1), of 1 os] assms(1) by auto
  obtain rx2 where d: "rxbuf_addc os cid rx1 = Some (0, rx2)" "rx_ok rx2" "rx_data rx2 = [cid]"
    using addc_room [OF c(2) assms(1), of cid] c(3) by auto
  show "\<exists>n p'. recv_text_1ch os cb (p0\<lparr>p_rx := rx, p_t := t\<rparr>) w 32 = Some (n, p', w) \<and> 0 < n \<and>
      at_arg p0 T_ARGSP fmt False [cid] p'"
    using a c d assms(2,3) by (simp add: ch_CMD_end text_word_def ch_ARGSP_space)
qed

lemma reach_eol:
  assumes "\<forall>n. os_realloc os n" "accepts cb step" "p_on_input p0 = Set" "length d < 65534" "cid \<noteq> PSEUDO_HELP"
    "opt \<or> fmt = [] \<or> hd fmt = 124"
  shows "reach os cb (at_arg p0 T_ARGSP fmt opt (cid # d)) w [13, 10] (at_bol p0) (step w cid d)"
proof -
  have "reach os cb (at_arg p0 T_ARGSP fmt opt (cid # d)) w [13] (at_bol p0) (step w cid d)"
  proof (rule reach_from)
    fix rx :: rxbuf and t :: textproto
    assume a: "rx_ok rx" "rx_data rx = cid # d" "t_state t = T_ARGSP" "t_fmt t = fmt" "t_optional t = opt"
    have len: "rx_len rx = length d + 1" using length_rx_data [OF a(1)] a(2) by simp
    obtain rx1 where z: "rxbuf_zeropad os rx = Some (0, rx1)" "rx_ok rx1" "rx_data rx1 = cid # d" "rx_len rx1 = length d + 1"
      using a(1)
    proof (cases rule: rxbuf_zeropad_ok [where os = os])
      case fail
      then show ?thesis using assms(1,4) len by simp
    qed (use that a(2) len in auto)
    have pk: "peek (rx_buf rx1) 0 1 = Some [cid]" "peek (rx_buf rx1) 1 (length d) = Some d"
      using z(2,3,4) by (cases "rx_buf rx1"; auto simp: peek_def rx_data_def rx_ok_def)+
    define t' where "t' = p_t (skip_bar (p0\<lparr>p_rx := rx, p_t := t\<rparr>))"
    have p: "skip_bar (p0\<lparr>p_rx := rx, p_t := t\<rparr>) = p0\<lparr>p_rx := rx, p_t := t'\<rparr>" "t_optional t' \<or> t_fmt t' = []"
      using a(4,5) assms(6) by (cases fmt; auto simp: skip_bar_def t'_def)+
    let ?p = "p0\<lparr>p_rx := rx1, p_t := t'\<rparr>"
    obtain n where n: "0 < n" "cb_input cb ?p w cid d = Some (n, ?p, step w cid d)"
      using assms(2) unfolding accepts_def by meson
    show "\<exists>n p'. recv_text_1ch os cb (p0\<lparr>p_rx := rx, p_t := t\<rparr>) w 13 = Some (n, p', step w cid d) \<and> 0 < n \<and> at_bol p0 p'"
      using a(3) p z pk n assms(3,5) by (auto simp: ch_ARGSP_eol text_eol_def text_input_def set_state_def)
  qed
  moreover have "reach os cb (at_bol p0) w' [10] (at_bol p0) w'" for w'
    by (intro reach_from) (simp add: ch_BOL)
  ultimately show ?thesis by (rule reach_Cons)
qed

lemma text_words_ok:
  assumes "(cid, word, fmt) \<in> set text_words"
  shows "lookup_cmd word = Some (cid, fmt)" "word \<noteq> []" "length word < 16" "\<forall>ch\<in>set word. ch \<noteq> 32 \<and> ch \<noteq> 10 \<and> ch \<noteq> 13"
    "cid \<noteq> PSEUDO_HELP" "fmt = [116] \<or> fmt = [124, 116] \<or> fmt = [116, 124, 48, 116]"
proof -
  have "list_all (\<lambda>(cid, word, fmt). lookup_cmd word = Some (cid, fmt) \<and> word \<noteq> [] \<and> length word < 16 \<and>
      list_all (\<lambda>ch. ch \<noteq> 32 \<and> ch \<noteq> 10 \<and> ch \<noteq> 13) word \<and> cid \<noteq> PSEUDO_HELP \<and>
      (fmt = [116] \<or> fmt = [124, 116] \<or> fmt = [116, 124, 48, 116])) text_words" by code_simp
  with assms show "lookup_cmd word = Some (cid, fmt)" "word \<noteq> []" "length word < 16" "\<forall>ch\<in>set word. ch \<noteq> 32 \<and> ch \<noteq> 10 \<and> ch \<noteq> 13"
    "cid \<noteq> PSEUDO_HELP" "fmt = [116] \<or> fmt = [124, 116] \<or> fmt = [116, 124, 48, 116]"
    by (auto simp: list_all_iff)
qed

lemma cstr_rest: "has_nul d \<Longrightarrow> d = cstr d @ 0 # drop (length (cstr d) + 1) d"
  by (induction d) auto

lemma reach_line:
  assumes "\<forall>n. os_realloc os n" "accepts cb step" "p_on_input p0 = Set" "length d < 65000" "(cid, word, fmt) \<in> set text_words"
  shows "reach os cb (at_bol p0) w (text_line word fmt d) (at_bol p0) (step w cid d)"
proof -
  note ok = text_words_ok [OF assms(5)]
  have beg: "reach os cb (at_bol p0) w (word @ [32]) (at_arg p0 T_ARGSP fmt False [cid]) w"
    by (rule reach_append [OF reach_start [OF ok(2,4,3)] reach_word_end [OF assms(1) ok(1,3)]])
  note arg = reach_argument [OF assms(1), of "[cid]"]
  note fin = reach_eol [OF assms(1-3) _ ok(5)]
  show ?thesis
  proof (cases "fmt = [116, 124, 48, 116] \<and> has_nul d")
    case True
    let ?k = "cstr d" and ?v = "drop (length (cstr d) + 1) d"
    have d: "d = ?k @ [0] @ ?v" using True cstr_rest [of d] by simp
    have 1: "reach os cb (at_arg p0 T_ARGSP fmt False [cid]) w (text_quote ?k) (at_arg p0 T_ARGSP [124, 48, 116] False ([cid] @ ?k)) w"
      using arg [where s = ?k and pre = "[]" and opt' = False and zero = "[]" and opt = False and fmt = "[124, 48, 116]"] True assms(4) length_cstr_le [of d] by simp
    have "length ?k + (length d - Suc (length ?k)) < 65534" using assms(4) length_cstr_le [of d] by linarith
    then have 2: "reach os cb (at_arg p0 T_ARGSP [124, 48, 116] False ([cid] @ ?k)) w (text_quote ?v)
        (at_arg p0 T_ARGSP [] True (([cid] @ ?k) @ [0] @ ?v)) w"
      using reach_argument [OF assms(1), where data = "[cid] @ ?k" and s = ?v and pre = "[124, 48]" and opt' = True and zero = "[0]" and opt = False and fmt = "[]"] assms(4) length_cstr_le [of d] by simp
    have 3: "reach os cb (at_arg p0 T_ARGSP [] True (cid # d)) w [13, 10] (at_bol p0) (step w cid d)"
      using fin [of d True "[]"] assms(4) by simp
    have "([cid] @ ?k) @ [0] @ ?v = cid # d" using d by simp
    from reach_append [OF beg reach_append [OF 1 reach_append [OF reach_space reach_append [OF 2 3 [folded this]]]]] show ?thesis
      using True by (simp add: text_line_def text_strings_def lit_def)
  next
    case False
    then have line: "text_line word fmt d = (word @ [32]) @ text_quote d @ [13, 10]"
      by (auto simp: text_line_def text_strings_def lit_def)
    let ?fmt = "if fmt = [116, 124, 48, 116] then [124, 48, 116] else []"
    have "reach os cb (at_arg p0 T_ARGSP fmt False [cid]) w (text_quote d) (at_arg p0 T_ARGSP ?fmt (fmt = [124, 116]) (cid # d)) w"
      using ok(6) assms(4) arg [where cb = cb and ?p0.0 = p0 and w = w and s = d and pre = "[]" and opt' = False and zero = "[]" and opt = False and fmt = ?fmt]
        arg [where cb = cb and ?p0.0 = p0 and w = w and s = d and pre = "[124]" and opt' = True and zero = "[]" and opt = False and fmt = ?fmt] by auto
    from reach_append [OF beg reach_append [OF this fin]] show ?thesis using assms(4) by (simp add: line)
  qed
qed

subsection \<open>The encoder\<close>

text \<open>
  A step of the encoder appends data to the line: what was sent and what is in the output buffer
  together grow by it, and the buffer does not outgrow the line.
\<close>

definition puts :: "(bytes, bytes) attempt \<Rightarrow> bytes \<Rightarrow> bytes \<Rightarrow> bytes \<Rightarrow> bool" where
  "puts m w ob data \<longleftrightarrow> (\<exists>ob' w'. m = Some (Some ob', w') \<and> w' @ ob' = w @ ob @ data \<and> length ob' \<le> length ob + length data)"

lemma puts_bind:
  assumes "puts m w ob data" "\<And>ob' w'. w' @ ob' = w @ ob @ data \<Longrightarrow> length ob' \<le> length ob + length data \<Longrightarrow> puts (f ob' w') w' ob' data'"
  shows "puts (attempt_bind m f) w ob (data @ data')"
proof -
  obtain ob' w' where m: "m = Some (Some ob', w')" "w' @ ob' = w @ ob @ data" "length ob' \<le> length ob + length data"
    using assms(1) by (auto simp: puts_def)
  obtain ob2 w2 where "f ob' w' = Some (Some ob2, w2)" "w2 @ ob2 = w' @ ob' @ data'" "length ob2 \<le> length ob' + length data'"
    using assms(2) [OF m(2,3)] by (auto simp: puts_def)
  moreover from this have "w2 @ ob2 = w @ ob @ data @ data'" using m(2) by simp
  ultimately show ?thesis using m(1,3) by (simp add: puts_def)
qed

lemma putc_puts: "length ob < 4095 \<Longrightarrow> puts (outbuf_putc wire_cb p w ob ch) w ob [ch]"
  by (simp add: puts_def outbuf_putc_def OUTBUF_SIZE_def)

lemma wire_sendv: "p_on_sendv p = Set \<Longrightarrow> sendv wire_cb p w [(bs, length bs)] = Some (int (length bs), w @ bs)"
  by (simp add: sendv_def peek_def wire_cb_def)

lemma outbuf_puts:
  assumes "p_on_sendv p = Set" "length ob + length data < 4096"
  shows "puts (proto_outbuf wire_cb p w ob data) w ob data"
proof (cases "length data \<le> sub32 8 (length ob)")
  case True
  then show ?thesis using assms by (simp add: puts_def proto_outbuf_def OUTBUF_SIZE_def)
next
  case False
  have "length ob \<le> 8"
  proof (rule ccontr)
    assume "\<not> length ob \<le> 8"
    then have "sub32 8 (length ob) = 2 ^ 32 + 8 - length ob" using assms(2) by (simp add: sub32_def)
    then show False using False assms(2) by simp
  qed
  then have "sub32 8 (length ob) = 8 - length ob" by (intro sub32_id) simp_all
  moreover have "length (ob @ take (8 - length ob) data) = 8" using False calculation \<open>length ob \<le> 8\<close> by simp
  moreover from this have "sendv wire_cb p w [(ob @ take (8 - length ob) data, 8)] = Some (8, w @ ob @ take (8 - length ob) data)"
    using wire_sendv [OF assms(1), of w "ob @ take (8 - length ob) data"] by simp
  ultimately show ?thesis using False assms
    by (auto simp: puts_def proto_outbuf_def OUTBUF_SIZE_def outbuf_flush_def Let_def)
qed

lemma length_text_escape [simp]: "length (text_escape ch) = (if needs_escape ch then 4 else 1)"
  by (simp add: text_escape_def octal_escape_def)

lemma string_loop_puts:
  assumes "p_on_sendv p = Set" "length ob + length (concat (map text_escape s)) < 4095"
  shows "puts (text_string_loop wire_cb p w ob s) w ob (concat (map text_escape s) @ [34])"
  using assms(2)
proof (induction s arbitrary: w ob)
  case Nil
  then show ?case by (simp add: putc_puts)
next
  case (Cons ch s)
  have "puts (if needs_escape ch then proto_outbuf wire_cb p w ob (octal_escape ch) else outbuf_putc wire_cb p w ob ch)
      w ob (text_escape ch)"
    using Cons.prems by (auto simp: text_escape_def octal_escape_def intro!: outbuf_puts [OF assms(1)] putc_puts split: if_splits)
  from puts_bind [OF this Cons.IH] Cons.prems show ?case by simp
qed

lemma string_puts:
  assumes "p_on_sendv p = Set" "length ob + length (text_quote s) < 4096" "length s \<le> length str" "take (length s) str = s"
  shows "puts (output_text_string wire_cb p w ob str (length s)) w ob (text_quote s)"
proof -
  have "length s \<le> length (concat (map text_escape s))" by (induction s) auto
  then have l: "length s \<le> 65535" "length ob + length (concat (map text_escape s)) < 4094" using assms(2) by (simp_all add: text_quote_def)
  have "puts (attempt_bind (outbuf_putc wire_cb p w ob 34) (\<lambda>ob1 w1. text_string_loop wire_cb p w1 ob1 s)) w ob
      ([34] @ concat (map text_escape s) @ [34])"
    by (rule puts_bind [OF putc_puts string_loop_puts [OF assms(1)]]) (use l in auto)
  then show ?thesis using l(1) assms(3,4) by (simp add: output_text_string_def peek_def text_quote_def)
qed

text \<open>The same for the steps that also return the rest of the format.\<close>

definition puts_with :: "'x \<Rightarrow> (bytes \<times> 'x, bytes) attempt \<Rightarrow> bytes \<Rightarrow> bytes \<Rightarrow> bytes \<Rightarrow> bool" where
  "puts_with x m w ob data \<longleftrightarrow>
     (\<exists>ob' w'. m = Some (Some (ob', x), w') \<and> w' @ ob' = w @ ob @ data \<and> length ob' \<le> length ob + length data)"

lemma puts_with_bind:
  assumes "puts m w ob data" "\<And>ob' w'. w' @ ob' = w @ ob @ data \<Longrightarrow> length ob' \<le> length ob + length data \<Longrightarrow> puts_with x (f ob' w') w' ob' data'"
  shows "puts_with x (attempt_bind m f) w ob (data @ data')"
proof -
  obtain ob' w' where m: "m = Some (Some ob', w')" "w' @ ob' = w @ ob @ data" "length ob' \<le> length ob + length data"
    using assms(1) by (auto simp: puts_def)
  obtain ob2 w2 where "f ob' w' = Some (Some (ob2, x), w2)" "w2 @ ob2 = w' @ ob' @ data'" "length ob2 \<le> length ob' + length data'"
    using assms(2) [OF m(2,3)] by (auto simp: puts_with_def)
  moreover from this have "w2 @ ob2 = w @ ob @ data @ data'" using m(2) by simp
  ultimately show ?thesis using m(1,3) by (simp add: puts_with_def)
qed

lemma puts_with_end:
  "puts m w ob data \<Longrightarrow> puts_with x (attempt_bind m (\<lambda>ob w. Some (Some (ob, x), w))) w ob data"
  by (auto simp: puts_def puts_with_def)

text \<open>The argument of \<^verbatim>\<open>%*s\<close>: one quoted string, or the key and the value.\<close>

lemma star_arg_one:
  assumes "p_on_sendv p = Set" "length ob + length (text_quote d) < 4096" "tfmt = lit ''|0t'' \<Longrightarrow> \<not> has_nul d"
  shows "puts_with (tfmt, opt) (output_star_arg wire_cb p w ob tfmt opt True (int (length d)) d) w ob (text_quote d)"
proof -
  have "length d \<le> length (concat (map text_escape d))" by (induction d) auto
  then have "nat (int (length d) mod 2 ^ 32) = length d" using assms(2) by (simp add: text_quote_def)
  moreover have "puts (output_text_string wire_cb p w ob d (length d)) w ob (text_quote d)"
    by (rule string_puts [OF assms(1,2)]) simp_all
  ultimately show ?thesis using assms(3) by (auto simp: output_star_arg_def peek_def intro: puts_with_end)
qed

lemma star_arg_two:
  assumes "p_on_sendv p = Set" "has_nul d"
    "length ob + length (text_quote (cstr d) @ [32] @ text_quote (drop (length (cstr d) + 1) d)) < 4096"
  shows "puts_with ([], True) (output_star_arg wire_cb p w ob (lit ''|0t'') opt True (int (length d)) d) w ob
    (text_quote (cstr d) @ [32] @ text_quote (drop (length (cstr d) + 1) d))"
proof -
  have d: "take (length (cstr d)) d = cstr d" "length (cstr d) \<le> length d"
    using cstr_rest [OF assms(2)] length_cstr_le by (metis append_eq_conv_conj, simp)
  have "puts_with ([], True) (attempt_bind (output_text_string wire_cb p w ob d (length (cstr d))) (\<lambda>ob1 w1.
      attempt_bind (outbuf_putc wire_cb p w1 ob1 32) (\<lambda>ob2 w2.
      attempt_bind (output_text_string wire_cb p w2 ob2 (drop (length (cstr d) + 1) d) (length (drop (length (cstr d) + 1) d)))
        (\<lambda>ob3 w3. Some (Some (ob3, [], True), w3))))) w ob
      (text_quote (cstr d) @ [32] @ text_quote (drop (length (cstr d) + 1) d))"
    by (intro puts_with_bind puts_with_end string_puts [OF assms(1)] putc_puts) (use assms(3) d in auto)
  then show ?thesis using assms(2) by (simp add: output_star_arg_def peek_def Let_def)
qed

lemma puts_with_then:
  assumes "puts_with x m w ob data" "\<And>ob' w'. w' @ ob' = w @ ob @ data \<Longrightarrow> length ob' \<le> length ob + length data \<Longrightarrow> puts (f (ob', x) w') w' ob' data'"
  shows "puts (attempt_bind m f) w ob (data @ data')"
proof -
  obtain ob' w' where m: "m = Some (Some (ob', x), w')" "w' @ ob' = w @ ob @ data" "length ob' \<le> length ob + length data"
    using assms(1) by (auto simp: puts_with_def)
  obtain ob2 w2 where "f (ob', x) w' = Some (Some ob2, w2)" "w2 @ ob2 = w' @ ob' @ data'" "length ob2 \<le> length ob' + length data'"
    using assms(2) [OF m(2,3)] by (auto simp: puts_def)
  moreover from this have "w2 @ ob2 = w @ ob @ data @ data'" using m(2) by simp
  ultimately show ?thesis using m(1,3) by (simp add: puts_def)
qed

lemma puts_flush:
  assumes "p_on_sendv p = Set" "puts m w [] data"
  shows "\<exists>r\<ge>0. do { (r, w1) \<leftarrow> m; case r of None \<Rightarrow> Some (-1, w1) | Some ob \<Rightarrow> outbuf_flush wire_cb p w1 ob } = Some (r, w @ data)"
proof -
  obtain ob' w' where m: "m = Some (Some ob', w')" "w' @ ob' = w @ data" using assms(2) by (auto simp: puts_def)
  then show ?thesis using wire_sendv [OF assms(1), of w' ob'] by (auto simp: outbuf_flush_def)
qed

lemma attempt_bind_return: "attempt_bind m (\<lambda>(a, b, c) w. Some (Some (a, b, c), w)) = m"
  by (cases m) (auto simp: attempt_bind_def split: option.splits)

text \<open>The loop over the format \<^verbatim>\<open>%*s\<close> for a table entry that begins with \<^verbatim>\<open>t\<close>.\<close>

lemma output_args_star:
  "next_tfmt tfmt optional = (116, tfmt1, opt1) \<Longrightarrow>
   output_text_args cb p loc cfmt w ob tfmt optional (lit ''%*s'') [ArgInt len, ArgStr str] =
     attempt_bind (outbuf_putc cb p w ob 32) (\<lambda>ob1 w1. output_star_arg cb p w1 ob1 tfmt1 opt1 True len str)"
  by (simp add: lit_def output_text_args.simps(2) next_fmt_def skip_spaces_def Let_def attempt_bind_return cong: if_cong)

lemma text_words_found:
  assumes "(cid, word, fmt) \<in> set text_words"
  shows "find (\<lambda>(word, mid, cfmt). mid = cid) cmdtab = Some (word, cid, fmt)"
proof -
  have "list_all (\<lambda>(cid, word, fmt). find (\<lambda>(word, mid, cfmt). mid = cid) cmdtab = Some (word, cid, fmt)) text_words" by code_simp
  with assms show ?thesis by (auto simp: list_all_iff)
qed

lemma args_puts:
  assumes "p_on_sendv p = Set" "fmt = [116] \<or> fmt = [124, 116] \<or> fmt = [116, 124, 48, 116]"
    "length ob + length (concat (map (\<lambda>s. [32] @ text_quote s) (text_strings fmt d))) < 4096"
  shows "\<exists>tfmt opt. (opt \<or> tfmt = [] \<or> hd tfmt = 124) \<and>
    puts_with (tfmt, opt) (output_text_args wire_cb p loc cfmt w ob fmt False (lit ''%*s'') [ArgInt (int (length d)), ArgStr d])
      w ob (concat (map (\<lambda>s. [32] @ text_quote s) (text_strings fmt d)))"
proof (cases "fmt = [116, 124, 48, 116] \<and> has_nul d")
  case True
  have "puts_with ([], True) (attempt_bind (outbuf_putc wire_cb p w ob 32) (\<lambda>ob1 w1.
      output_star_arg wire_cb p w1 ob1 (lit ''|0t'') False True (int (length d)) d)) w ob
      ([32] @ text_quote (cstr d) @ [32] @ text_quote (drop (length (cstr d) + 1) d))"
    by (intro puts_with_bind putc_puts star_arg_two assms(1)) (use True assms(3) in \<open>auto simp: text_strings_def lit_def\<close>)
  moreover have n: "next_tfmt fmt False = (116, lit ''|0t'', False)" using True by (simp add: lit_def)
  moreover have "text_strings fmt d = [cstr d, drop (length (cstr d) + 1) d]" using True by (simp add: text_strings_def lit_def)
  ultimately show ?thesis by (intro exI [of _ "[]"] exI [of _ True]) (simp add: output_args_star [OF n])
next
  case False
  then have strs: "text_strings fmt d = [d]" by (auto simp: text_strings_def lit_def)
  obtain f tfmt1 opt1 where nf: "next_tfmt fmt False = (f, tfmt1, opt1)" by (cases "next_tfmt fmt False")
  then have n: "next_tfmt fmt False = (116, tfmt1, opt1)" "opt1 \<or> tfmt1 = [] \<or> hd tfmt1 = 124"
    "tfmt1 = lit ''|0t'' \<longrightarrow> fmt = [116, 124, 48, 116]"
    using assms(2) by (auto simp: lit_def)
  have "puts_with (tfmt1, opt1) (attempt_bind (outbuf_putc wire_cb p w ob 32) (\<lambda>ob1 w1.
      output_star_arg wire_cb p w1 ob1 tfmt1 opt1 True (int (length d)) d)) w ob ([32] @ text_quote d)"
    by (intro puts_with_bind putc_puts star_arg_one assms(1)) (use False n(3) assms(3) in \<open>auto simp: strs\<close>)
  then show ?thesis using n(2) by (intro exI [of _ tfmt1] exI [of _ opt1]) (simp add: output_args_star [OF n(1)] strs)
qed

lemma output_text_line:
  assumes "p_on_sendv p = Set" "(cid, word, fmt) \<in> set text_words" "length (text_line word fmt d) < 4096"
  shows "\<exists>r\<ge>0. output_text wire_cb p w cid (lit ''%*s'') [ArgInt (int (length d)), ArgStr d] = Some (r, w @ text_line word fmt d)"
proof -
  let ?args = "concat (map (\<lambda>s. [32] @ text_quote s) (text_strings fmt d))"
  have len: "length word + length ?args + 2 < 4096" using assms(3) by (simp add: text_line_def)
  have "puts (attempt_bind (proto_outbuf wire_cb p w [] word) (\<lambda>ob1 w1.
      attempt_bind (output_text_args wire_cb p loc fmt w1 ob1 fmt False (lit ''%*s'') [ArgInt (int (length d)), ArgStr d]) (\<lambda>(ob2, tfmt, optional) w2.
        if \<not> optional \<and> tfmt \<noteq> [] \<and> hd tfmt \<noteq> 124
        then output_text_error wire_cb p w2 (loc @ lit '': missing arguments for '' @ [39] @ fmt @ [39])
        else proto_outbuf wire_cb p w2 ob2 [13, 10]))) w [] (word @ ?args @ [13, 10])" for loc
  proof (intro puts_bind outbuf_puts assms(1))
    fix ob1 w1 :: bytes
    assume "length ob1 \<le> length ([] :: bytes) + length word"
    then have "length ob1 + length ?args + 2 < 4096" using len by simp
    moreover obtain tfmt opt where "opt \<or> tfmt = [] \<or> hd tfmt = 124"
      "puts_with (tfmt, opt) (output_text_args wire_cb p loc fmt w1 ob1 fmt False (lit ''%*s'') [ArgInt (int (length d)), ArgStr d]) w1 ob1 ?args"
      using args_puts [OF assms(1) text_words_ok(6) [OF assms(2)], of ob1 d loc fmt w1] calculation by auto
    ultimately show "puts (attempt_bind (output_text_args wire_cb p loc fmt w1 ob1 fmt False (lit ''%*s'') [ArgInt (int (length d)), ArgStr d])
      (\<lambda>(ob2, tfmt, optional) w2.
        if \<not> optional \<and> tfmt \<noteq> [] \<and> hd tfmt \<noteq> 124
        then output_text_error wire_cb p w2 (loc @ lit '': missing arguments for '' @ [39] @ fmt @ [39])
        else proto_outbuf wire_cb p w2 ob2 [13, 10])) w1 ob1 (?args @ [13, 10])"
      by (intro puts_with_then) (auto intro!: outbuf_puts assms(1))
  qed (use len in simp)
  from puts_flush [OF assms(1) this] show ?thesis
    by (simp add: output_text_def text_words_found [OF assms(2)] text_line_def Let_def)
qed

lemma send_all_lines:
  "p_mode p = PROTO_MODE_TEXT \<Longrightarrow> p_on_sendv p = Set \<Longrightarrow>
   list_all2 (\<lambda>(m, d) line. \<exists>word fmt. (m, word, fmt) \<in> set text_words \<and> line = text_line word fmt d \<and> length line < 4096) ms lines \<Longrightarrow>
   send_all p ms w = Some (w @ concat lines)"
proof (induction ms arbitrary: w lines)
  case (Cons md ms)
  obtain m d where md: "md = (m, d)" by (cases md)
  obtain word fmt lines' where l: "lines = text_line word fmt d # lines'" "(m, word, fmt) \<in> set text_words"
    "length (text_line word fmt d) < 4096"
    "list_all2 (\<lambda>(m, d) line. \<exists>word fmt. (m, word, fmt) \<in> set text_words \<and> line = text_line word fmt d \<and> length line < 4096) ms lines'"
    using Cons.prems(3) by (auto simp: md list_all2_Cons1)
  obtain r where "0 \<le> r" "output_text wire_cb p w m (lit ''%*s'') [ArgInt (int (length d)), ArgStr d] = Some (r, w @ text_line word fmt d)"
    using output_text_line [OF Cons.prems(2) l(2,3)] by blast
  then have "proto_output wire_cb p w m (lit ''%*s'') [ArgInt (int (length d)), ArgStr d] = Some (r, p, w @ text_line word fmt d)" "\<not> r < 0"
    using Cons.prems(1) by (simp_all add: proto_output_def proto_outputv_def mode_defs)
  then show ?case using Cons.IH [OF Cons.prems(1,2) l(4)] by (simp add: md l(1))
qed simp

lemma at_bol_fresh: "at_bol (fresh_proto m) (fresh_proto m)"
  by (auto simp: at_bol_def fresh_proto_def rx_ok_def rxbuf_init_def intro!: exI)

subsection \<open>Streams of lines\<close>

definition is_line :: "byte \<times> bytes \<Rightarrow> bytes \<Rightarrow> bool" where
  "is_line = (\<lambda>(m, d) line. \<exists>word fmt. (m, word, fmt) \<in> set text_words \<and> line = text_line word fmt d \<and> length line < 4096)"

lemma lines_exist:
  "\<forall>(m, d)\<in>set ms. \<exists>word fmt. (m, word, fmt) \<in> set text_words \<and> length (text_line word fmt d) < 4096 \<Longrightarrow>
   \<exists>lines. list_all2 is_line ms lines"
proof (induction ms)
  case (Cons md ms)
  then obtain lines line where "list_all2 is_line ms lines" "is_line md line" by (cases md) (auto simp: is_line_def)
  then show ?case by (intro exI [of _ "line # lines"]) simp
qed auto

lemma line_data: "length d \<le> length (text_line word fmt d)"
proof -
  have q: "length s \<le> length (text_quote s)" for s
  proof -
    have "length s \<le> length (concat (map text_escape s))" by (induction s) auto
    then show ?thesis by (simp add: text_quote_def)
  qed
  show ?thesis
  proof (cases "fmt = lit ''t|0t'' \<and> has_nul d")
    case True
    have "length d = length (cstr d) + 1 + length (drop (length (cstr d) + 1) d)" using cstr_rest [of d] True by (metis add.assoc add.commute length_append length_Cons plus_1_eq_Suc)
    then show ?thesis using q [of "cstr d"] q [of "drop (length (cstr d) + 1) d"] True by (simp add: text_line_def text_strings_def)
  next
    case False
    then show ?thesis using q [of d] by (auto simp: text_line_def text_strings_def)
  qed
qed

lemma reach_lines:
  assumes "\<forall>n. os_realloc os n" "accepts cb step" "p_on_input p0 = Set" "list_all2 is_line ms lines"
  shows "reach os cb (at_bol p0) w (concat lines) (at_bol p0) (deliver_all step ms w)"
  using assms(4)
proof (induction ms arbitrary: w lines)
  case Nil
  then show ?case by (auto simp: reach_def goes_def)
next
  case (Cons md ms)
  obtain m d word fmt lines' where l: "md = (m, d)" "lines = text_line word fmt d # lines'" "(m, word, fmt) \<in> set text_words"
    "length (text_line word fmt d) < 4096" "list_all2 is_line ms lines'"
    using Cons.prems by (cases md) (auto simp: list_all2_Cons1 is_line_def)
  then have "length d < 65000" using line_data [of d word fmt] by simp
  from reach_append [OF reach_line [OF assms(1-3) this l(3)] Cons.IH [OF l(5)]] show ?case using l(1,2) by simp
qed

lemma text_loop_mode:
  assumes "recv_text_loop os cb p w net ret = Some (r, p1, w1)" "p_mode p = PROTO_MODE_TEXT" "accepts cb step"
  shows "p_mode p1 = PROTO_MODE_TEXT"
  using assms(1,2)
proof (induction net arbitrary: p w ret)
  case (Cons ch net)
  have keep: "cb_input cb p w m d = Some (r, p1, w1) \<Longrightarrow> p_mode p1 = p_mode p" for p w m d r p1 w1
    using assms(3) unfolding accepts_def by (metis option.inject prod.inject)
  obtain n p2 w2 where c: "recv_text_1ch os cb p w ch = Some (n, p2, w2)"
    "(if n \<le> 0 then Some (n, p2, w2) else recv_text_loop os cb p2 w2 net (ret + n)) = Some (r, p1, w1)"
    using Cons.prems(1) by (auto split: bind_splits)
  have "p_mode p2 = PROTO_MODE_TEXT" by (rule text_1ch_mode [OF c(1) Cons.prems(2)]) (rule keep)
  then show ?case using c(2) Cons.IH by (auto split: if_splits)
qed simp

lemma feed_text:
  assumes "accepts cb step" "p_mode p = PROTO_MODE_TEXT" "[] \<notin> set frags"
  shows "feed_all (\<lambda>p w net. proto_recv os cb p w net 0) frags p w = feed_all (recv_text os cb) frags p w"
  using assms(2,3)
proof (induction frags arbitrary: p w)
  case (Cons f frags)
  have "proto_recv os cb p w f 0 = recv_text os cb p w f" using Cons.prems by (auto simp: proto_recv_def mode_defs)
  moreover have "p_mode p1 = PROTO_MODE_TEXT" if "recv_text os cb p w f = Some (r, p1, w1)" for r p1 w1
    using text_loop_mode [OF _ Cons.prems(1) assms(1)] that Cons.prems(2) by (auto simp: recv_text_def split: if_splits)
  ultimately show ?case using Cons.IH Cons.prems(2) by (auto split: bind_splits)
qed simp

text \<open>The stream contract of the text decoder, on \<^verbatim>\<open>recv_text\<close> itself.\<close>

lemma text_cuts:
  assumes "recv_text os cb p w (concat frags) = Some (r, p1, w1)" "0 < r" "frags \<noteq> []" "[] \<notin> set frags"
  shows "feed_all (recv_text os cb) frags p w = Some (p1, w1)"
proof -
  define net where "net = concat frags"
  have "net \<noteq> []" using assms(3,4) by (cases frags) (auto simp: net_def)
  then have fits: "text_fits (os, cb, p) w net" "text_delta (os, cb, p) w net = ((os, cb, p1), w1)"
    using assms(1,2) by (simp_all add: text_fits_def text_delta_def recv_text_def flip: net_def)
  have feed: "feed_all text_feed xs (os, cb, p) w = map_option (\<lambda>(p1, w1). ((os, cb, p1), w1)) (feed_all (recv_text os cb) xs p w)" for xs p w
    by (induction xs arbitrary: p w) (auto simp: text_feed_def split: bind_splits)
  show ?thesis using text_stream.feed_all_delta [OF TrueI assms(4), of "(os, cb, p)" w] fits by (auto simp: feed simp flip: net_def)
qed

lemma string_loop_plain:
  assumes "\<forall>ch\<in>set s. \<not> needs_escape ch" "length ob + length s \<le> 4095"
  shows "text_string_loop cb p w ob (s @ t) = text_string_loop cb p w (ob @ s) t"
  using assms by (induction s arbitrary: ob) (auto simp: outbuf_putc_def OUTBUF_SIZE_def)

lemma escape_overflows:
  assumes "4093 \<le> length ob" "length ob \<le> 4095"
  shows "proto_outbuf cb p w ob (octal_escape ch) = None"
proof -
  have "length (octal_escape ch) = 4" by (simp add: octal_escape_def)
  moreover have "sub32 8 (length ob) = 2 ^ 32 + 8 - length ob" using assms by (simp add: sub32_def)
  then have "4 \<le> sub32 8 (length ob)" using assms by simp
  ultimately show ?thesis using assms by (simp add: proto_outbuf_def OUTBUF_SIZE_def Let_def)
qed

subsection \<open>Properties\<close>



text \<open>
  C9: messages survive a text connection.  The messages that carry strings, that is all but the handshake,
  transactions and errors, are printed as lines by \<^verbatim>\<open>proto_output\<close> with \<^verbatim>\<open>%*s\<close>; if each line has less than 4096
  bytes, the receiver's \<^verbatim>\<open>proto_recv\<close> delivers exactly those messages, in order, however the bytes are cut into
  non-empty reads.  The data may hold any bytes, NULs, quotes, backslashes and line ends included.
\<close>

theorem text_roundtrip:
  assumes "p_mode q = PROTO_MODE_TEXT" "p_on_sendv q = Set"
    "\<forall>n. os_realloc os n" "accepts cb step" "p_mode p = PROTO_MODE_TEXT" "p_on_input p = Set"
    "rx_ok (p_rx p)" "t_state (p_t p) = T_BOL"
    "\<forall>(m, d)\<in>set ms. \<exists>word fmt. (m, word, fmt) \<in> set text_words \<and> length (text_line word fmt d) < 4096"
    "send_all q ms [] = Some sent" "concat frags = sent" "[] \<notin> set frags"
  shows "\<exists>p'. feed_all (\<lambda>p w net. proto_recv os cb p w net 0) frags p w = Some (p', deliver_all step ms w) \<and>
    t_state (p_t p') = T_BOL"
proof -
  obtain lines where lines: "list_all2 is_line ms lines" using lines_exist [OF assms(9)] by blast
  then have sent: "concat frags = concat lines" using send_all_lines [OF assms(1,2)] assms(10,11) by (simp add: is_line_def)
  have "at_bol p p" using assms(7,8) by (auto simp: at_bol_def intro!: exI [of _ "p_rx p"] exI [of _ "p_t p"])
  then obtain p' where p': "at_bol p p'" "goes os cb p w (concat lines) p' (deliver_all step ms w)"
    using reach_lines [OF assms(3,4,6) lines, of w] by (auto simp: reach_def)
  have bol: "t_state (p_t p') = T_BOL" using p'(1) by (auto simp: at_bol_def)
  have "feed_all (recv_text os cb) frags p w = Some (p', deliver_all step ms w)"
  proof (cases "frags = []")
    case True
    then have "goes os cb p w [] p' (deliver_all step ms w)" using p'(2) unfolding sent [symmetric] by simp
    then show ?thesis using True by (auto simp: goes_def)
  next
    case False
    then have "concat frags \<noteq> []" using assms(12) by (cases frags) auto
    then obtain r where "recv_text os cb p w (concat frags) = Some (r, p', deliver_all step ms w)" "0 < r"
      using p'(2) sent unfolding goes_def recv_text_def by (smt (verit) length_greater_0_conv of_nat_0_less_iff)
    then show ?thesis using False assms(12) by (intro text_cuts)
  qed
  then show ?thesis using feed_text [OF assms(4,5,12)] bol by auto
qed

theorem text_roundtrip_witness:
  "\<exists>p'. feed_all (\<lambda>p w net. proto_recv good_os record_cb p w net 0)
      [lit ''WRI'', lit ''TE '' @ [34, 107], [34, 32, 34, 92], lit ''012'' @ [34, 13, 10]] (fresh_proto PROTO_MODE_TEXT) [] =
    Some (p', deliver_all (\<lambda>w m d. w @ [(m, d)]) [(CMD_WRITE, [107, 0, 10])] []) \<and> t_state (p_t p') = T_BOL"
proof -
  have "send_all (fresh_proto PROTO_MODE_TEXT) [(CMD_WRITE, [107, 0, 10])] [] =
      Some (concat [lit ''WRI'', lit ''TE '' @ [34, 107], [34, 32, 34, 92], lit ''012'' @ [34, 13, 10]])" by code_simp
  moreover have "length (text_line (lit ''WRITE'') (lit ''t|0t'') [107, 0, 10]) < 4096" by code_simp
  then have "\<forall>(m, d)\<in>set [(CMD_WRITE, [107, 0, 10])]. \<exists>word fmt. (m, word, fmt) \<in> set text_words \<and> length (text_line word fmt d) < 4096"
    by (auto simp: text_words_def)
  ultimately show ?thesis
    by (intro text_roundtrip [OF _ _ _ record_accepts]) (simp_all add: fresh_proto_def lit_def)
qed

text \<open>
  C36: the output buffer of a text line overflows.  \<^verbatim>\<open>proto_outbuf\<close> computes the space left from
  \<^verbatim>\<open>sizeof sizeof outbuf\<close>, which wraps once more than 8 bytes are in the buffer of 4096.  A character that
  needs an escape, after 4087 to 4089 that need none, is stored across the end of the buffer: the reply to a
  \<^verbatim>\<open>PING\<close> with such data is an out-of-bounds write, for every client and every state of the translator.
\<close>

theorem text_output_overflows:
  assumes "p_mode p = PROTO_MODE_TEXT" "\<forall>ch\<in>set s. \<not> needs_escape ch" "4087 \<le> length s" "length s \<le> 4089" "needs_escape ch"
    "length (s @ ch # rest) \<le> 65535"
  shows "proto_output cb p w MSG_PONG (lit ''%*s'') [ArgInt (int (length (s @ ch # rest))), ArgStr (s @ ch # rest)] = None"
proof -
  define d where "d = s @ ch # rest"
  have len: "nat (int (length d) mod 2 ^ 32) = length d" "length d \<le> 65535" using assms(6) by (simp_all add: d_def)
  have ob: "proto_outbuf cb p w [] (lit ''PONG'') = Some (Some (lit ''PONG''), w)"
    by (simp add: proto_outbuf_def lit_def sub32_def OUTBUF_SIZE_def)
  have "text_string_loop cb p w (lit ''PONG'' @ [32, 34]) (s @ ch # rest) = text_string_loop cb p w ((lit ''PONG'' @ [32, 34]) @ s) (ch # rest)"
    by (rule string_loop_plain [OF assms(2)]) (use assms(4) in \<open>simp add: lit_def\<close>)
  also have "\<dots> = None"
    using assms(3-5) by (simp add: escape_overflows lit_def)
  finally have "output_text_string cb p w (lit ''PONG'' @ [32]) d (length d) = None"
    using len(2) by (simp add: output_text_string_def peek_def outbuf_putc_def OUTBUF_SIZE_def lit_def d_def)
  then have "output_star_arg cb p w (lit ''PONG'' @ [32]) [] True True (int (length d)) d = None"
    using len(1) by (simp add: output_star_arg_def lit_def)
  moreover have "next_tfmt (lit ''|t'') False = (116, [], True)" by (simp add: lit_def)
  ultimately have "output_text_args cb p loc cfmt w (lit ''PONG'') (lit ''|t'') False (lit ''%*s'') [ArgInt (int (length d)), ArgStr d] = None" for loc cfmt
    by (simp add: output_args_star outbuf_putc_def OUTBUF_SIZE_def lit_def [of "''PONG''"])
  moreover have "(MSG_PONG, lit ''PONG'', lit ''|t'') \<in> set text_words" by (simp add: text_words_def)
  ultimately have "output_text cb p w MSG_PONG (lit ''%*s'') [ArgInt (int (length d)), ArgStr d] = None"
    by (simp add: output_text_def text_words_found ob Let_def)
  then show ?thesis using assms(1) by (simp add: proto_output_def proto_outputv_def mode_defs flip: d_def)
qed

theorem text_output_overflows_witness:
  "proto_output wire_cb (fresh_proto PROTO_MODE_TEXT) [] MSG_PONG (lit ''%*s'')
      [ArgInt (int (length (replicate 4087 97 @ [10]))), ArgStr (replicate 4087 97 @ [10])] = None"
  using text_output_overflows [of "fresh_proto PROTO_MODE_TEXT" "replicate 4087 97" 10 "[]" wire_cb "[]"]
  by (simp add: fresh_proto_def needs_escape_def)

end
