(* ===== verification/Net.thy ===== *)
theory Net
  imports Infod_Prelude
begin

text \<open>
  The system calls of the server, the daemon and the client library.  Every call is recorded in a
  history, and what the kernel answers is a parameter: a function of the history before the
  call, so that any behaviour of the network and of the peers is covered.  A socket address is
  its bytes; \<open>k_getaddrinfo\<close> gives the text of an error or a list of address families with
  addresses, \<open>k_getnameinfo\<close> the host and the service of the peer.  Programs that use the network
  extend the record \<open>net\<close> with their own state.
\<close>

subsection \<open>System calls\<close>

datatype event =
    Close int
  | Accept int int
  | Poll "(int \<times> nat) list" "nat list"
  | Read int "bytes option"
  | Writev int bytes int
  | Shutdown_read int
  | Nonblock int
  | Stderr bytes
  | Stdout bytes
  | Syslog bytes
  | Sleep nat
  | Socket int int
  | Setsockopt int
  | Bind int bytes int
  | Listen int int
  | Connect int bytes int

record net =
  events :: "event list"

record kernel =
  k_os :: os
  k_close :: "event list \<Rightarrow> int \<Rightarrow> int"
  k_accept :: "event list \<Rightarrow> int \<Rightarrow> int"
  k_poll :: "event list \<Rightarrow> (int \<times> nat) list \<Rightarrow> int \<times> nat list"
  k_getfl :: "event list \<Rightarrow> int \<Rightarrow> int"
  k_read :: "event list \<Rightarrow> int \<Rightarrow> bytes option"
  k_writev :: "event list \<Rightarrow> int \<Rightarrow> bytes \<Rightarrow> int"
  k_socket :: "event list \<Rightarrow> int \<Rightarrow> int"
  k_setsockopt :: "event list \<Rightarrow> int \<Rightarrow> int"
  k_bind :: "event list \<Rightarrow> int \<Rightarrow> bytes \<Rightarrow> int"
  k_listen :: "event list \<Rightarrow> int \<Rightarrow> int"
  k_connect :: "event list \<Rightarrow> int \<Rightarrow> bytes \<Rightarrow> int"
  k_getenv :: "bytes \<Rightarrow> bytes option"
  k_getaddrinfo :: "event list \<Rightarrow> bytes option \<Rightarrow> bytes \<Rightarrow> bytes + (int \<times> bytes) list"
  k_getnameinfo :: "event list \<Rightarrow> int \<Rightarrow> (bytes \<times> bytes) option"
  k_strerror :: "event list \<Rightarrow> bytes"

definition emit :: "event \<Rightarrow> 'w net_scheme \<Rightarrow> 'w net_scheme" where
  "emit e w = w\<lparr>events := events w @ [e]\<rparr>"

definition sys_close :: "kernel \<Rightarrow> int \<Rightarrow> 'w net_scheme \<Rightarrow> int \<times> 'w net_scheme" where
  "sys_close K fd w = (k_close K (events w) fd, emit (Close fd) w)"

definition sys_accept :: "kernel \<Rightarrow> int \<Rightarrow> 'w net_scheme \<Rightarrow> int \<times> 'w net_scheme" where
  "sys_accept K fd w = (let r = k_accept K (events w) fd in (r, emit (Accept fd r) w))"

definition sys_poll :: "kernel \<Rightarrow> (int \<times> nat) list \<Rightarrow> 'w net_scheme \<Rightarrow> int \<times> nat list \<times> 'w net_scheme" where
  "sys_poll K fds w = (let (r, revs) = k_poll K (events w) fds in (r, revs, emit (Poll fds revs) w))"

definition sys_read :: "kernel \<Rightarrow> int \<Rightarrow> nat \<Rightarrow> 'w net_scheme \<Rightarrow> bytes option \<times> 'w net_scheme" where
  "sys_read K fd n w = (let r = map_option (take n) (k_read K (events w) fd) in (r, emit (Read fd r) w))"

definition sys_writev :: "kernel \<Rightarrow> int \<Rightarrow> bytes \<Rightarrow> 'w net_scheme \<Rightarrow> int \<times> 'w net_scheme" where
  "sys_writev K fd bs w = (let r = k_writev K (events w) fd bs in (r, emit (Writev fd bs r) w))"

definition sys_socket :: "kernel \<Rightarrow> int \<Rightarrow> 'w net_scheme \<Rightarrow> int \<times> 'w net_scheme" where
  "sys_socket K family w = (let r = k_socket K (events w) family in (r, emit (Socket family r) w))"

definition sys_setsockopt :: "kernel \<Rightarrow> int \<Rightarrow> 'w net_scheme \<Rightarrow> int \<times> 'w net_scheme" where
  "sys_setsockopt K fd w = (k_setsockopt K (events w) fd, emit (Setsockopt fd) w)"

definition sys_bind :: "kernel \<Rightarrow> int \<Rightarrow> bytes \<Rightarrow> 'w net_scheme \<Rightarrow> int \<times> 'w net_scheme" where
  "sys_bind K fd addr w = (let r = k_bind K (events w) fd addr in (r, emit (Bind fd addr r) w))"

definition sys_listen :: "kernel \<Rightarrow> int \<Rightarrow> 'w net_scheme \<Rightarrow> int \<times> 'w net_scheme" where
  "sys_listen K fd w = (let r = k_listen K (events w) fd in (r, emit (Listen fd r) w))"

definition sys_connect :: "kernel \<Rightarrow> int \<Rightarrow> bytes \<Rightarrow> 'w net_scheme \<Rightarrow> int \<times> 'w net_scheme" where
  "sys_connect K fd addr w = (let r = k_connect K (events w) fd addr in (r, emit (Connect fd addr r) w))"

definition strerror :: "kernel \<Rightarrow> 'w net_scheme \<Rightarrow> bytes" where
  "strerror K w = k_strerror K (events w)"

text \<open>An element of an array, a fault outside of it.\<close>

definition nth_opt :: "'a list \<Rightarrow> nat \<Rightarrow> 'a option" where
  "nth_opt xs i = (if i < length xs then Some (xs ! i) else None)"

definition upd_opt :: "'a list \<Rightarrow> nat \<Rightarrow> 'a \<Rightarrow> 'a list option" where
  "upd_opt xs i v = (if i < length xs then Some (xs[i := v]) else None)"

lemma nth_opt_Some [simp]: "i < length xs \<Longrightarrow> nth_opt xs i = Some (xs ! i)"
  by (simp add: nth_opt_def)

lemma upd_opt_Some [simp]: "i < length xs \<Longrightarrow> upd_opt xs i v = Some (xs[i := v])"
  by (simp add: upd_opt_def)

lemma events_emit [simp]: "events (emit e w) = events w @ [e]"
  by (simp add: emit_def)

lemma more_emit [simp]: "net.more (emit e w) = net.more w"
  by (simp add: emit_def)

end
