(* ===== verification/Sock.thy ===== *)
theory Sock
  imports Net
begin

text \<open>
  Socket addresses: \<^verbatim>\<open>src/lib/sockunix.c\<close> and \<^verbatim>\<open>src/lib/socktcp.c\<close>.
\<close>

definition AF_UNIX :: int where "AF_UNIX = 1"
definition AF_INET6 :: int where "AF_INET6 = 10"
definition INFOD_SOCKET :: bytes where "INFOD_SOCKET = [0] @ lit ''INFOD''"
definition INFOD3_PORT :: bytes where "INFOD3_PORT = lit ''26931''"
definition INFOD_SERVER :: bytes where "INFOD_SERVER = lit ''INFOD_SERVER''"

text \<open>
  \<^verbatim>\<open>struct sockaddr_un\<close> has two bytes of family and a path of 108 bytes; the address is its
  first \<^verbatim>\<open>len_return\<close> bytes.
\<close>

definition init_address :: "kernel \<Rightarrow> bytes" where
  "init_address K =
     (let path = (case k_getenv K (lit ''INFOD_SOCKET'') of
            None \<Rightarrow> INFOD_SOCKET
          | Some path \<Rightarrow> if path \<noteq> [] then take 108 path else INFOD_SOCKET)
      in [1, 0] @ path)"

definition sockunix_listen :: "kernel \<Rightarrow> 'w net_scheme \<Rightarrow> int \<times> 'w net_scheme" where
  "sockunix_listen K w =
     (let (s, w1) = sys_socket K AF_UNIX w in
      if s = -1 then (-1, w1)
      else let (r, w2) = sys_bind K s (init_address K) w1 in
        if r = -1 then (-1, snd (sys_close K s w2))
        else let (r2, w3) = sys_listen K s w2 in
          if r2 = -1 then (-1, snd (sys_close K s w3)) else (s, w3))"

definition sockunix_connect :: "kernel \<Rightarrow> 'w net_scheme \<Rightarrow> int \<times> 'w net_scheme" where
  "sockunix_connect K w =
     (let (s, w1) = sys_socket K AF_UNIX w in
      if s = -1 then (-1, w1)
      else let (r, w2) = sys_connect K s (init_address K) w1 in
        if r = -1 then (-1, snd (sys_close K s w2)) else (s, w2))"

definition sockunix_peername :: "int \<Rightarrow> nat \<Rightarrow> bytes" where
  "sockunix_peername fd sz = take (sz - 1) (lit ''local/'' @ dec_int fd)"

definition tcp_server_addrinfo :: "kernel \<Rightarrow> bytes option \<Rightarrow> 'w net_scheme \<Rightarrow> bytes + (int \<times> bytes) list" where
  "tcp_server_addrinfo K port w =
     k_getaddrinfo K (events w) None (case port of None \<Rightarrow> INFOD3_PORT | Some p \<Rightarrow> p)"

text \<open>The part of a string before and after its last colon.\<close>

fun split_colon :: "bytes \<Rightarrow> (bytes \<times> bytes) option" where
  "split_colon [] = None"
| "split_colon (b # bs) =
     (case split_colon bs of
        Some (node, port) \<Rightarrow> Some (b # node, port)
      | None \<Rightarrow> if b = 58 then Some ([], bs) else None)"

text \<open>
  Without \<^verbatim>\<open>hostport\<close> the environment variable \<^verbatim>\<open>INFOD_SERVER\<close> is read, a fault when it is not set.
\<close>

definition tcp_client_addrinfo ::
  "kernel \<Rightarrow> bytes option \<Rightarrow> 'w net_scheme \<Rightarrow> (bytes + (int \<times> bytes) list) option" where
  "tcp_client_addrinfo K hostport w = do {
     hp \<leftarrow> (case hostport of
              Some h \<Rightarrow> Some (Some h)
            | None \<Rightarrow> do { h \<leftarrow> k_getenv K INFOD_SERVER; Some (if h = [] then None else Some h) });
     let target = (case hp of None \<Rightarrow> INFOD3_PORT | Some h \<Rightarrow> h);
     Some (case split_colon target of
       Some (node, port) \<Rightarrow> k_getaddrinfo K (events w) (Some (take 255 node)) port
     | None \<Rightarrow> k_getaddrinfo K (events w) None target)
   }"

definition tcp_peername :: "kernel \<Rightarrow> nat \<Rightarrow> int \<Rightarrow> 'w net_scheme \<Rightarrow> bytes" where
  "tcp_peername K sz fd w =
     (case k_getnameinfo K (events w) fd of
        None \<Rightarrow> lit ''n/a''
      | Some (host, service) \<Rightarrow> take (sz - 1) (host @ [58] @ service))"

lemma split_colon_Some:
  "split_colon s = Some (node, port) \<Longrightarrow> s = node @ [58] @ port \<and> 58 \<notin> set port"
proof (induction s arbitrary: node)
  case (Cons b bs)
  have none: "split_colon bs = None \<Longrightarrow> 58 \<notin> set bs" for bs
    by (induction bs) (auto split: option.splits if_splits)
  show ?case using Cons none [of bs] by (auto split: option.splits if_splits)
qed simp

end
