(* ===== verification/Server.thy ===== *)
theory Server
  imports Sock
begin

text \<open>
  The poll loop, \<^verbatim>\<open>src/daemon/server.c\<close>.  The arrays \<^verbatim>\<open>socket\<close> and \<^verbatim>\<open>pollfd\<close> are lists as long as
  the allocated blocks; an access outside of one is a fault.  The upcalls of a
  \<^verbatim>\<open>struct server_context\<close> are functions on the state of the application, of which the history
  of system calls is a part; an upcall does not call the server.  A client context is a value of
  type \<open>'c\<close>, with \<open>None\<close> for \<^verbatim>\<open>NULL\<close>.
\<close>

subsection \<open>State\<close>

record listener =
  l_name :: bytes
  l_peername :: bool    \<comment> \<open>the pointer \<^verbatim>\<open>peername\<close> is \<^verbatim>\<open>tcp_peername\<close>, not \<^verbatim>\<open>NULL\<close>\<close>

record ('w, 'c) server_context =
  max_sockets :: nat
  ctx_on_accept :: "('w \<Rightarrow> int \<Rightarrow> listener option \<Rightarrow> ('c option \<times> 'w) option) option"
  ctx_on_ready :: "'w \<Rightarrow> 'c option \<Rightarrow> int \<Rightarrow> (int \<times> 'w) option"
  ctx_on_close :: "('w \<Rightarrow> 'c option \<Rightarrow> listener option \<Rightarrow> 'w option) option"
  ctx_on_listener_close :: "('w \<Rightarrow> listener option \<Rightarrow> 'w option) option"
  ctx_on_error :: "('w \<Rightarrow> bytes \<Rightarrow> 'w option) option"

record 'c server_socket =
  ss_data :: "'c option"
  ss_listener :: "listener option"
  ss_is_listener :: bool

record pollfd =
  pfd_fd :: int
  pfd_events :: nat
  pfd_revents :: nat

record 'c server =
  sv_n :: nat
  sv_nmax :: nat
  sv_socket :: "'c server_socket list"
  sv_pollfd :: "pollfd list"

definition POLLIN :: nat where
  "POLLIN = 1"

definition INCREMENT :: nat where
  "INCREMENT = 16"

definition PEERNAMESZ :: nat where
  "PEERNAMESZ = 256"

subsection \<open>Helpers\<close>

definition server_on_error ::
  "('w net_scheme, 'c) server_context \<Rightarrow> 'w net_scheme \<Rightarrow> bytes \<Rightarrow> (int \<times> 'w net_scheme) option" where
  "server_on_error ctx w msg =
     (case ctx_on_error ctx of
        None \<Rightarrow> Some (-1, emit (Stderr (lit ''error: '' @ msg @ [10])) w)
      | Some f \<Rightarrow> do { w1 \<leftarrow> f w (take 2047 msg); Some (-1, w1) })"

definition is_listener :: "'c server \<Rightarrow> nat \<Rightarrow> bool option" where
  "is_listener sv i = map_option ss_is_listener (nth_opt (sv_socket sv) i)"

definition listener_peername :: "kernel \<Rightarrow> 'w net_scheme \<Rightarrow> listener option \<Rightarrow> int \<Rightarrow> bytes" where
  "listener_peername K w l fd =
     (if fd = -1 then lit ''closed''
      else case l of
        None \<Rightarrow> lit ''?''
      | Some l \<Rightarrow> if \<not> l_peername l then l_name l else tcp_peername K PEERNAMESZ fd w)"

text \<open>The loop of \<^verbatim>\<open>server_listen_enable\<close>, \<open>k\<close> sockets from \<open>i\<close> on.\<close>

fun listen_enable_loop :: "nat \<Rightarrow> nat \<Rightarrow> bool \<Rightarrow> 'c server \<Rightarrow> 'c server option" where
  "listen_enable_loop 0 i enable sv = Some sv"
| "listen_enable_loop (Suc k) i enable sv = do {
     l \<leftarrow> is_listener sv i;
     if l then do {
       p \<leftarrow> nth_opt (sv_pollfd sv) i;
       let p1 = (if enable then p\<lparr>pfd_events := POLLIN\<rparr> else p\<lparr>pfd_revents := 0, pfd_events := 0\<rparr>);
       listen_enable_loop k (i + 1) enable (sv\<lparr>sv_pollfd := (sv_pollfd sv)[i := p1]\<rparr>)
     } else listen_enable_loop k (i + 1) enable sv
   }"

definition server_listen_enable :: "bool \<Rightarrow> 'c server \<Rightarrow> 'c server option" where
  "server_listen_enable enable sv = listen_enable_loop (sv_n sv) 0 enable sv"

text \<open>\<^verbatim>\<open>realloc\<close> of an array; new cells are zero bytes, though nothing depends on it.\<close>

definition realloc_array :: "'a \<Rightarrow> nat \<Rightarrow> 'a list \<Rightarrow> 'a list" where
  "realloc_array z n xs = take n xs @ replicate (n - length xs) z"

definition server_resize ::
  "kernel \<Rightarrow> ('w net_scheme, 'c) server_context \<Rightarrow> nat \<Rightarrow> 'c server \<Rightarrow> 'w net_scheme \<Rightarrow>
   (int \<times> 'c server \<times> 'w net_scheme) option" where
  "server_resize K ctx n0 sv w =
     (if n0 < sv_n sv then None
      else
        let n = (if n0 mod INCREMENT \<noteq> 0 then n0 + (INCREMENT - n0 mod INCREMENT) else n0) in
        if sv_nmax sv = n \<or> sub32 (sv_nmax sv) 1 = n then Some (0, sv, w)
        else
          let sv1 = (if n < sv_nmax sv then sv\<lparr>sv_nmax := n\<rparr> else sv) in
          if n \<noteq> 0 \<and> \<not> os_realloc (k_os K) (n * 24) then do {
            (r, w1) \<leftarrow> server_on_error ctx w (lit ''realloc '' @ dec (n * 24) @ lit '': '' @ strerror K w);
            Some (r, sv1, w1)
          } else
            let sv2 = sv1\<lparr>sv_socket := realloc_array \<lparr>ss_data = None, ss_listener = None, ss_is_listener = False\<rparr> n (sv_socket sv1)\<rparr> in
            if n \<noteq> 0 \<and> \<not> os_realloc (k_os K) (n * 8) then do {
              (r, w1) \<leftarrow> server_on_error ctx w (lit ''realloc '' @ dec (n * 8) @ lit '': '' @ strerror K w);
              Some (r, sv2, w1)
            } else
              Some (0, sv2\<lparr>sv_pollfd := realloc_array \<lparr>pfd_fd = 0, pfd_events = 0, pfd_revents = 0\<rparr> n (sv_pollfd sv2), sv_nmax := n\<rparr>, w))"

text \<open>\<^verbatim>\<open>fcntl\<close>: \<open>O_NONBLOCK\<close> is 2048.\<close>

definition set_nonblock :: "kernel \<Rightarrow> int \<Rightarrow> 'w net_scheme \<Rightarrow> 'w net_scheme" where
  "set_nonblock K fd w =
     (let val = k_getfl K (events w) fd in
      if val \<noteq> -1 \<and> val AND 2048 = 0 then emit (Nonblock fd) w else w)"

subsection \<open>Adding and deleting sockets\<close>

text \<open>The result is the index of the new socket, -1 on failure.\<close>

definition server_add_socket ::
  "kernel \<Rightarrow> ('w net_scheme, 'c) server_context \<Rightarrow> int \<Rightarrow> 'c server \<Rightarrow> 'w net_scheme \<Rightarrow>
   (int \<times> 'c server \<times> 'w net_scheme) option" where
  "server_add_socket K ctx fd sv w =
     (let i = sv_n sv in do {
        (r, sv1, w1) \<leftarrow> server_resize K ctx (sv_n sv + 1) sv w;
        if r = -1 then Some (-1, sv1, w1)
        else do {
          let w2 = set_nonblock K fd w1;
          pfd \<leftarrow> upd_opt (sv_pollfd sv1) i \<lparr>pfd_fd = fd, pfd_events = POLLIN, pfd_revents = 0\<rparr>;
          soc \<leftarrow> upd_opt (sv_socket sv1) i \<lparr>ss_data = None, ss_listener = None, ss_is_listener = False\<rparr>;
          let sv2 = sv1\<lparr>sv_pollfd := pfd, sv_socket := soc, sv_n := sv_n sv1 + 1\<rparr>;
          sv3 \<leftarrow> (if max_sockets ctx \<noteq> 0 \<and> max_sockets ctx \<le> sv_n sv2 then server_listen_enable False sv2 else Some sv2);
          Some (int i, sv3, w2)
        }
      })"

definition close_delete_socket ::
  "kernel \<Rightarrow> ('w net_scheme, 'c) server_context \<Rightarrow> nat \<Rightarrow> 'c server \<Rightarrow> 'w net_scheme \<Rightarrow>
   ('c server \<times> 'w net_scheme) option" where
  "close_delete_socket K ctx i sv w = do {
     let lst = sv_n sv - 1;
     soc \<leftarrow> nth_opt (sv_socket sv) i;
     pfd \<leftarrow> nth_opt (sv_pollfd sv) i;
     if ss_is_listener soc then None
     else do {
       let (r, w1) = sys_close K (pfd_fd pfd) w;
       w2 \<leftarrow> (if r = -1
              then map_option snd (server_on_error ctx w1
                (lit ''['' @ listener_peername K w1 (ss_listener soc) (pfd_fd pfd) @ lit ''] close: '' @ strerror K w1))
              else Some w1);
       w3 \<leftarrow> (case ctx_on_close ctx of None \<Rightarrow> Some w2 | Some f \<Rightarrow> f w2 (ss_data soc) (ss_listener soc));
       sv1 \<leftarrow> (if i < lst then do {
                pl \<leftarrow> nth_opt (sv_pollfd sv) lst;
                sl \<leftarrow> nth_opt (sv_socket sv) lst;
                Some (sv\<lparr>sv_pollfd := (sv_pollfd sv)[i := pl], sv_socket := (sv_socket sv)[i := sl]\<rparr>)
              } else Some sv);
       let sv2 = sv1\<lparr>sv_n := sv_n sv1 - 1\<rparr>;
       sv3 \<leftarrow> (if max_sockets ctx \<noteq> 0 \<and> sv_n sv2 = max_sockets ctx - 1 then server_listen_enable True sv2 else Some sv2);
       (r2, sv4, w4) \<leftarrow> server_resize K ctx (sv_n sv3) sv3 w3;
       Some (sv4, w4)
     }
   }"

text \<open>The scan for the descriptor after \<^verbatim>\<open>on_accept\<close>, \<open>k\<close> sockets from \<open>i\<close> on.\<close>

fun add_fd_scan :: "nat \<Rightarrow> nat \<Rightarrow> int \<Rightarrow> 'c option \<Rightarrow> listener option \<Rightarrow> 'c server \<Rightarrow> 'c server option" where
  "add_fd_scan 0 i fd data l sv = Some sv"
| "add_fd_scan (Suc k) i fd data l sv = do {
     p \<leftarrow> nth_opt (sv_pollfd sv) i;
     if pfd_fd p = fd then do {
       s \<leftarrow> nth_opt (sv_socket sv) i;
       Some (sv\<lparr>sv_socket := (sv_socket sv)[i := s\<lparr>ss_data := data, ss_listener := l\<rparr>]\<rparr>)
     } else add_fd_scan k (i + 1) fd data l sv
   }"

definition server_add_fd ::
  "kernel \<Rightarrow> ('w net_scheme, 'c) server_context \<Rightarrow> int \<Rightarrow> listener option \<Rightarrow> 'c server \<Rightarrow> 'w net_scheme \<Rightarrow>
   (int \<times> 'c server \<times> 'w net_scheme) option" where
  "server_add_fd K ctx fd l sv w =
     (if fd = -1 then Some (-1, sv, w)
      else do {
        (i, sv1, w1) \<leftarrow> server_add_socket K ctx fd sv w;
        if i = -1 then Some (-1, sv1, w1)
        else case ctx_on_accept ctx of
          None \<Rightarrow> Some (0, sv1, w1)
        | Some f \<Rightarrow> do {
            (data, w2) \<leftarrow> f w1 fd l;
            sv2 \<leftarrow> add_fd_scan (sv_n sv1) 0 fd data l sv1;
            Some (0, sv2, w2)
          }
      })"

definition server_accept ::
  "kernel \<Rightarrow> ('w net_scheme, 'c) server_context \<Rightarrow> int \<Rightarrow> listener option \<Rightarrow> 'c server \<Rightarrow> 'w net_scheme \<Rightarrow>
   ('c server \<times> 'w net_scheme) option" where
  "server_accept K ctx listen_fd l sv w =
     (let (fd, w1) = sys_accept K listen_fd w in
      if fd = -1 then do {
        (r, w2) \<leftarrow> server_on_error ctx w1
          (lit ''['' @ (case l of None \<Rightarrow> lit ''(null)'' | Some l \<Rightarrow> l_name l) @ lit ''] accept: '' @ strerror K w1);
        Some (sv, w2)
      } else do {
        (r, sv2, w2) \<leftarrow> server_add_fd K ctx fd l sv w1;
        if r = -1 then
          let (r3, w3) = sys_close K fd w2 in
          if r3 = -1 then do {
            (r4, w4) \<leftarrow> server_on_error ctx w3
              (lit ''['' @ listener_peername K w3 l fd @ lit ''] close: '' @ strerror K w3);
            Some (sv2, w4)
          } else Some (sv2, w3)
        else Some (sv2, w2)
      })"

definition server_add_listener ::
  "kernel \<Rightarrow> ('w net_scheme, 'c) server_context \<Rightarrow> int \<Rightarrow> listener option \<Rightarrow> 'c server \<Rightarrow> 'w net_scheme \<Rightarrow>
   (int \<times> 'c server \<times> 'w net_scheme) option" where
  "server_add_listener K ctx fd l sv w = do {
     (i, sv1, w1) \<leftarrow> server_add_socket K ctx fd sv w;
     if i < 0 then Some (-1, sv1, w1)
     else do {
       soc \<leftarrow> upd_opt (sv_socket sv1) (nat i) \<lparr>ss_data = None, ss_listener = l, ss_is_listener = True\<rparr>;
       Some (0, sv1\<lparr>sv_socket := soc\<rparr>, w1)
     }
   }"

subsection \<open>The poll loop\<close>

text \<open>One pass of the loop body for a socket with events; the result says whether \<open>i\<close> advances.\<close>

definition serve_socket ::
  "kernel \<Rightarrow> ('w net_scheme, 'c) server_context \<Rightarrow> nat \<Rightarrow> 'c server \<Rightarrow> 'w net_scheme \<Rightarrow>
   (bool \<times> 'c server \<times> 'w net_scheme) option" where
  "serve_socket K ctx i sv w = do {
     soc \<leftarrow> nth_opt (sv_socket sv) i;
     pfd \<leftarrow> nth_opt (sv_pollfd sv) i;
     if ss_is_listener soc then do {
       (sv1, w1) \<leftarrow> server_accept K ctx (pfd_fd pfd) (ss_listener soc) sv w;
       Some (True, sv1, w1)
     } else do {
       (len, w1) \<leftarrow> ctx_on_ready ctx w (ss_data soc) (pfd_fd pfd);
       if 0 < len then Some (True, sv, w1)
       else do {
         w2 \<leftarrow> (if len = 0 then Some w1
                else map_option snd (server_on_error ctx w1
                  (lit ''['' @ listener_peername K w1 (ss_listener soc) (pfd_fd pfd) @ lit ''] on_ready: '' @ strerror K w1)));
         (sv1, w3) \<leftarrow> close_delete_socket K ctx i sv w2;
         Some (False, sv1, w3)
       }
     }
   }"

partial_function (option) server_poll_loop ::
  "kernel \<Rightarrow> ('w net_scheme, 'c) server_context \<Rightarrow> nat \<Rightarrow> 'c server \<Rightarrow> 'w net_scheme \<Rightarrow>
   ('c server \<times> 'w net_scheme) option" where
  [code]: "server_poll_loop K ctx i sv w =
     (if sv_n sv \<le> i then Some (sv, w)
      else Option.bind (nth_opt (sv_pollfd sv) i) (\<lambda>pfd.
        if pfd_revents pfd = 0 then server_poll_loop K ctx (i + 1) sv w
        else
          Option.bind (serve_socket K ctx i (sv\<lparr>sv_pollfd := (sv_pollfd sv)[i := pfd\<lparr>pfd_revents := 0\<rparr>]\<rparr>) w)
            (\<lambda>(advance, sv1, w1). server_poll_loop K ctx (if advance then i + 1 else i) sv1 w1)))"

text \<open>\<^verbatim>\<open>poll\<close> stores the returned events in the first \<open>n\<close> cells.\<close>

definition store_revents :: "nat list \<Rightarrow> pollfd list \<Rightarrow> pollfd list" where
  "store_revents revs pfds = map2 (\<lambda>p r. p\<lparr>pfd_revents := r\<rparr>) pfds revs @ drop (length revs) pfds"

definition server_poll ::
  "kernel \<Rightarrow> ('w net_scheme, 'c) server_context \<Rightarrow> 'c server \<Rightarrow> 'w net_scheme \<Rightarrow>
   (int \<times> 'c server \<times> 'w net_scheme) option" where
  "server_poll K ctx sv w =
     (if sv_n sv = 0 then Some (0, sv, w)
      else if length (sv_pollfd sv) < sv_n sv then None
      else
        let (ret, revs, w1) = sys_poll K (map (\<lambda>p. (pfd_fd p, pfd_events p)) (take (sv_n sv) (sv_pollfd sv))) w in
        if ret \<le> 0 then Some (ret, sv, w1)
        else do {
          (sv2, w2) \<leftarrow> server_poll_loop K ctx 0
            (sv\<lparr>sv_pollfd := store_revents (take (sv_n sv) revs) (sv_pollfd sv)\<rparr>) w1;
          Some (ret, sv2, w2)
        })"

definition server_new :: "kernel \<Rightarrow> 'c server option" where
  "server_new K =
     (if os_realloc (k_os K) 32 then Some \<lparr>sv_n = 0, sv_nmax = 0, sv_socket = [], sv_pollfd = []\<rparr> else None)"

text \<open>The two loops of \<^verbatim>\<open>server_free\<close>, over the connections and then over the listeners.\<close>

fun free_loop ::
  "kernel \<Rightarrow> ('w net_scheme, 'c) server_context \<Rightarrow> bool \<Rightarrow> nat \<Rightarrow> nat \<Rightarrow> 'c server \<Rightarrow> 'w net_scheme \<Rightarrow>
   'w net_scheme option" where
  "free_loop K ctx listeners 0 i sv w = Some w"
| "free_loop K ctx listeners (Suc k) i sv w = do {
     soc \<leftarrow> nth_opt (sv_socket sv) i;
     if ss_is_listener soc \<noteq> listeners then free_loop K ctx listeners k (i + 1) sv w
     else do {
       pfd \<leftarrow> nth_opt (sv_pollfd sv) i;
       let w1 = snd (sys_close K (pfd_fd pfd) w);
       w2 \<leftarrow> (if listeners
              then (case ctx_on_listener_close ctx of None \<Rightarrow> Some w1 | Some f \<Rightarrow> f w1 (ss_listener soc))
              else (case ctx_on_close ctx of None \<Rightarrow> Some w1 | Some f \<Rightarrow> f w1 (ss_data soc) (ss_listener soc)));
       free_loop K ctx listeners k (i + 1) sv w2
     }
   }"

definition server_free ::
  "kernel \<Rightarrow> ('w net_scheme, 'c) server_context \<Rightarrow> 'c server \<Rightarrow> 'w net_scheme \<Rightarrow> 'w net_scheme option" where
  "server_free K ctx sv w = do {
     w1 \<leftarrow> free_loop K ctx False (sv_n sv) 0 sv w;
     free_loop K ctx True (sv_n sv) 0 sv w1
   }"

definition shutdown_read :: "int \<Rightarrow> 'w net_scheme \<Rightarrow> 'w net_scheme" where
  "shutdown_read fd w = emit (Shutdown_read fd) w"

end
