(* ===== verification/Store.thy ===== *)
theory Store
  imports Infod_Prelude
begin

text \<open>
  The file-backed key/value store, \<^verbatim>\<open>src/daemon/store.c\<close>.

  The mapped backing file is a list of bytes; an info pointer is its offset from
  \<^verbatim>\<open>filebase\<close>; \<^verbatim>\<open>index[0..n-1]\<close> is a list of such pointers (\<^verbatim>\<open>None\<close> is \<^verbatim>\<open>NULL\<close>), whose
  length is \<^verbatim>\<open>n\<close>.  Every access to the mapping goes through \<open>peek\<close> and \<open>poke\<close>, so that one
  outside of it is a fault.  Offsets and sizes are \<^verbatim>\<open>uint32_t\<close>: naturals whose additions and
  subtractions wrap at $2^{32}$ (\<open>add32\<close>, \<open>sub32\<close>).  The loops over the records of the file take
  fuel, because on a corrupt file they need not end.
\<close>

subsection \<open>The store\<close>

definition STORE_INCREMENT :: nat where
  "STORE_INCREMENT = 64"

definition INFO_ALIGN :: nat where
  "INFO_ALIGN = 8"

definition UINT32_MAX :: nat where
  "UINT32_MAX = 2 ^ 32 - 1"

record store =
  mem :: bytes                 \<comment> \<open>the mapping at \<^verbatim>\<open>filebase\<close>\<close>
  filesz :: nat
  pagesize :: nat
  space :: nat
  index :: "nat option list"   \<comment> \<open>the first \<^verbatim>\<open>n\<close> cells of the array\<close>
  idx_max :: nat               \<comment> \<open>its capacity, \<^verbatim>\<open>max\<close>\<close>

definition roundup :: "nat \<Rightarrow> nat \<Rightarrow> nat" where
  "roundup n align = add32 n (sub32 align 1) AND not32 (sub32 align 1)"

subsection \<open>The sorted index\<close>

definition store_index_ensure :: "os \<Rightarrow> nat \<Rightarrow> store \<Rightarrow> int \<times> store" where
  "store_index_ensure os i s =
     (if i < idx_max s then (0, s)
      else let new_max = roundup (add32 i 1) STORE_INCREMENT in
        if os_realloc os (new_max * 8) then (0, s\<lparr>idx_max := new_max\<rparr>) else (-1, s))"

definition store_index_insert :: "os \<Rightarrow> nat \<Rightarrow> store \<Rightarrow> (int \<times> store) option" where
  "store_index_insert os i s =
     (if length (index s) < i then None
      else let (r, s1) = store_index_ensure os (length (index s)) s in
        if r = -1 then Some (-1, s1)
        else Some (int i, s1\<lparr>index := take i (index s1) @ None # drop i (index s1)\<rparr>))"

definition store_index_delete :: "nat \<Rightarrow> store \<Rightarrow> store option" where
  "store_index_delete i s =
     (if i < length (index s)
      then Some (s\<lparr>index := take i (index s) @ drop (Suc i) (index s)\<rparr>) else None)"

text \<open>Dereferencing \<^verbatim>\<open>store->index[i]\<close>.\<close>

definition index_at :: "store \<Rightarrow> nat \<Rightarrow> nat option" where
  "index_at s i = (if i < length (index s) then index s ! i else None)"

text \<open>
  \<^verbatim>\<open>qsort(index, n, sizeof index[0], info_compar)\<close>: the pointers sorted by the keys they point
  to.  Fewer than two cells are not compared.
\<close>

definition info_key :: "bytes \<Rightarrow> nat option \<Rightarrow> bytes option" where
  "info_key m p = (case p of None \<Rightarrow> None | Some a \<Rightarrow> cstr_at m (a + 2))"

definition qsort_index :: "bytes \<Rightarrow> nat option list \<Rightarrow> nat option list option" where
  "qsort_index m ps =
     (if length ps < 2 then Some ps
      else do {
        ks \<leftarrow> those (map (info_key m) ps);
        Some (map snd (sort_key fst (zip ks ps)))
      })"

subsection \<open>Records of the file\<close>

definition info_size :: "nat \<Rightarrow> nat" where
  "info_size sz = roundup (2 + sz) INFO_ALIGN"

definition info_sz :: "bytes \<Rightarrow> nat \<Rightarrow> nat option" where
  "info_sz m a = do { b \<leftarrow> peek m a 2; Some (of_le b) }"

definition record_is_gap :: "bytes \<Rightarrow> nat \<Rightarrow> bool option" where
  "record_is_gap m a = do { sz \<leftarrow> info_sz m a; Some (sz = 0) }"

definition record_init_gap :: "bytes \<Rightarrow> nat \<Rightarrow> nat \<Rightarrow> bytes option" where
  "record_init_gap m a nbytes =
     (if nbytes < INFO_ALIGN then None
      else poke m a (le_bytes 2 0 @ le_bytes 2 0 @ le_bytes 4 (nbytes - INFO_ALIGN)))"

definition record_get_size :: "bytes \<Rightarrow> nat \<Rightarrow> nat option" where
  "record_get_size m a = do {
     gap \<leftarrow> record_is_gap m a;
     if gap then do { b \<leftarrow> peek m (a + 4) 4; Some (add32 (roundup (of_le b) INFO_ALIGN) INFO_ALIGN) }
     else do { sz \<leftarrow> info_sz m a; Some (info_size sz) }
   }"

definition store_set_space :: "nat \<Rightarrow> store \<Rightarrow> store option" where
  "store_set_space sp s =
     (let s1 = s\<lparr>space := sp\<rparr> in
      if sp \<noteq> filesz s then do {
        m \<leftarrow> record_init_gap (mem s1) sp (sub32 (filesz s1) sp);
        Some (s1\<lparr>mem := m\<rparr>)
      } else Some s1)"

text \<open>The loop of \<^verbatim>\<open>info_make_gap\<close> over the gaps that follow.\<close>

fun make_gap_scan :: "nat \<Rightarrow> bytes \<Rightarrow> nat \<Rightarrow> nat \<Rightarrow> nat option" where
  "make_gap_scan 0 m fsz next_offset = None"
| "make_gap_scan (Suc k) m fsz next_offset =
     (if next_offset < fsz then do {
        record_sz \<leftarrow> record_get_size m next_offset;
        gap \<leftarrow> record_is_gap m next_offset;
        if \<not> gap then Some next_offset
        else if sub32 fsz record_sz < next_offset then make_gap_scan k m fsz fsz
        else make_gap_scan k m fsz (add32 next_offset record_sz)
      } else Some next_offset)"

definition info_make_gap :: "nat \<Rightarrow> store \<Rightarrow> store option" where
  "info_make_gap offset s = do {
     sz \<leftarrow> info_sz (mem s) offset;
     next1 \<leftarrow> make_gap_scan (filesz s + 1) (mem s) (filesz s) (add32 offset (info_size sz));
     let next2 = (if filesz s < next1 then filesz s else next1);
     m \<leftarrow> record_init_gap (mem s) offset (sub32 next2 offset);
     if next2 = filesz s then store_set_space offset (s\<lparr>mem := m\<rparr>) else Some (s\<lparr>mem := m\<rparr>)
   }"

definition memmove :: "bytes \<Rightarrow> nat \<Rightarrow> nat \<Rightarrow> nat \<Rightarrow> bytes option" where
  "memmove m dst src n = do { bs \<leftarrow> peek m src n; poke m dst bs }"

text \<open>The loop of \<^verbatim>\<open>store_repack\<close>: it yields \<^verbatim>\<open>w_offset\<close> and the unsorted new index.\<close>

fun repack_loop ::
  "os \<Rightarrow> nat \<Rightarrow> nat \<Rightarrow> nat \<Rightarrow> nat option list \<Rightarrow> store \<Rightarrow> (nat \<times> nat option list \<times> store) option" where
  "repack_loop os 0 offset w_offset idx s = None"
| "repack_loop os (Suc k) offset w_offset idx s =
     (if offset < space s then do {
        recordsz \<leftarrow> record_get_size (mem s) offset;
        gap \<leftarrow> record_is_gap (mem s) offset;
        if \<not> gap then do {
          m \<leftarrow> (if w_offset \<noteq> offset then memmove (mem s) w_offset offset recordsz else Some (mem s));
          let (r, s1) = store_index_ensure os (length idx) (s\<lparr>mem := m\<rparr>);
          if length idx < idx_max s1
          then repack_loop os k (add32 offset recordsz) (add32 w_offset recordsz)
                 (idx @ [Some w_offset]) s1
          else None
        } else repack_loop os k (add32 offset recordsz) w_offset idx s
      } else Some (w_offset, idx, s))"

definition store_repack :: "os \<Rightarrow> store \<Rightarrow> store option" where
  "store_repack os s = do {
     (sp, idx, s1) \<leftarrow> repack_loop os (space s + 1) 0 0 [] s;
     if space s1 < sp then None
     else do {
       m \<leftarrow> (if sp < filesz s1 then record_init_gap (mem s1) sp (sub32 (filesz s1) sp)
             else Some (mem s1));
       s2 \<leftarrow> store_set_space sp (s1\<lparr>mem := m\<rparr>);
       idx' \<leftarrow> qsort_index (mem s2) idx;
       Some (s2\<lparr>index := idx'\<rparr>)
     }
   }"

subsection \<open>The backing file\<close>

text \<open>
  Changing the size of the file.  \<^verbatim>\<open>posix_fallocate\<close> extends the file with zeros when it
  returns 0; a new mapping reaches only as far as the file does.
\<close>

definition store_file_setsize :: "os \<Rightarrow> nat \<Rightarrow> store \<Rightarrow> int \<times> store" where
  "store_file_setsize os new_filesz s =
     (let old_filesz = filesz s;
          grown = (if old_filesz < new_filesz
                   then os_fallocate os old_filesz (new_filesz - old_filesz) else 0) in
      if old_filesz < new_filesz \<and> grown = -1 then (-1, s)
      else if new_filesz = 0 \<or> \<not> os_mmap os new_filesz then (-1, s)
      else
        let backing = mem s @ (if grown = 0 then replicate (new_filesz - old_filesz) 0 else []);
            s1 = s\<lparr>mem := take new_filesz backing, filesz := new_filesz\<rparr> in
        if new_filesz < old_filesz \<and> os_ftruncate os new_filesz = -1
        then (0, s1\<lparr>filesz := old_filesz\<rparr>) else (0, s1))"

definition store_file_trim :: "os \<Rightarrow> store \<Rightarrow> store option" where
  "store_file_trim os s =
     (let sp = space s;
          maxfilesz = roundup (add32 sp (3 * pagesize s)) (pagesize s) in
      if maxfilesz < filesz s then
        let newfilesz = roundup (add32 sp (pagesize s)) (pagesize s);
            (r, s1) = store_file_setsize os newfilesz s in
        do {
          m \<leftarrow> record_init_gap (mem s1) sp (sub32 (filesz s1) sp);
          Some (s1\<lparr>mem := m\<rparr>)
        }
      else Some s)"

text \<open>The part of \<^verbatim>\<open>store_file_alloc\<close> after the space has been made.\<close>

definition file_alloc_at_space :: "nat \<Rightarrow> store \<Rightarrow> (nat option \<times> store) option" where
  "file_alloc_at_space sz s =
     (let allocsz = info_size sz; info = space s; sp = add32 (space s) allocsz in
      if sub32 (filesz s) (space s) < allocsz then None
      else do {
        m \<leftarrow> (if sp < filesz s then record_init_gap (mem s) sp (sub32 (filesz s) sp)
              else Some (mem s));
        m' \<leftarrow> poke m info (le_bytes 2 sz);
        Some (Some info, s\<lparr>space := sp, mem := m'\<rparr>)
      })"

text \<open>Its second half: growing the file when the repacked space is still too small.\<close>

definition file_alloc_grow :: "os \<Rightarrow> nat \<Rightarrow> store \<Rightarrow> (nat option \<times> store) option" where
  "file_alloc_grow os sz s =
     (let allocsz = info_size sz in
      if sub32 (filesz s) (space s) < allocsz then
        if sub32 UINT32_MAX allocsz \<le> filesz s then Some (None, s)
        else
          let newfilesz = roundup (add32 (space s) allocsz) (pagesize s);
              (r, s1) = store_file_setsize os newfilesz s in
          if r = -1 then Some (None, s1) else file_alloc_at_space sz s1
      else file_alloc_at_space sz s)"

definition store_file_alloc :: "os \<Rightarrow> nat \<Rightarrow> store \<Rightarrow> (nat option \<times> store) option" where
  "store_file_alloc os sz s = do {
     s1 \<leftarrow> (if sub32 (filesz s) (space s) < info_size sz then store_repack os s else Some s);
     file_alloc_grow os sz s1
   }"

definition store_file_dealloc :: "os \<Rightarrow> nat \<Rightarrow> store \<Rightarrow> store option" where
  "store_file_dealloc os offset s = do {
     sz \<leftarrow> info_sz (mem s) offset;
     let gapsz = info_size sz;
     let after_offset = add32 offset gapsz;
     if after_offset = space s then do {
       s1 \<leftarrow> store_set_space offset s;
       store_file_trim os s1
     } else do {
       gap \<leftarrow> record_is_gap (mem s) after_offset;
       gapsz' \<leftarrow> (if gap then do { g \<leftarrow> record_get_size (mem s) after_offset; Some (add32 gapsz g) }
                 else Some gapsz);
       m \<leftarrow> record_init_gap (mem s) offset gapsz';
       Some (s\<lparr>mem := m\<rparr>)
     }
   }"

subsection \<open>Resizing an info\<close>

text \<open>The shrinking branch of \<^verbatim>\<open>store_info_realloc\<close>; \<open>after\<close> is \<^verbatim>\<open>after_record\<close>.\<close>

definition info_shrink ::
  "os \<Rightarrow> nat \<Rightarrow> nat \<Rightarrow> nat \<Rightarrow> nat \<Rightarrow> nat \<Rightarrow> nat option \<Rightarrow> store \<Rightarrow> (nat option \<times> store) option" where
  "info_shrink os i offset new_sz new_alloc old_alloc after s = do {
     m \<leftarrow> poke (mem s) offset (le_bytes 2 new_sz);
     let s1 = s\<lparr>mem := m\<rparr>;
     case after of
       None \<Rightarrow> do {
         s2 \<leftarrow> store_set_space (add32 offset new_alloc) s1;
         s3 \<leftarrow> store_file_trim os s2;
         Some (index_at s3 i, s3)
       }
     | Some a \<Rightarrow> do {
         gap \<leftarrow> record_is_gap (mem s1) a;
         ignored \<leftarrow> (if gap then record_get_size (mem s1) a else Some 0);
         m' \<leftarrow> record_init_gap (mem s1) (add32 offset new_alloc) (sub32 old_alloc new_alloc);
         Some (Some offset, s1\<lparr>mem := m'\<rparr>)
       }
   }"

text \<open>
  The last part of \<^verbatim>\<open>store_info_realloc\<close>: the old info becomes a gap (together with a gap of
  \<open>after_size\<close> bytes behind it, if there is one) and a new info is allocated.
\<close>

definition info_move ::
  "os \<Rightarrow> nat \<Rightarrow> nat \<Rightarrow> nat \<Rightarrow> nat \<Rightarrow> nat \<Rightarrow> nat option \<Rightarrow> store \<Rightarrow> (nat option \<times> store) option" where
  "info_move os i offset new_sz new_alloc old_alloc after_size s = do {
     m \<leftarrow> record_init_gap (mem s) offset
            (case after_size of Some a \<Rightarrow> add32 old_alloc a | None \<Rightarrow> old_alloc);
     let s1 = s\<lparr>mem := m\<rparr>;
     if new_alloc < sub32 (filesz s1) (space s1) then do {
       (info, s2) \<leftarrow> store_file_alloc os new_sz s1;
       Some (info, s2\<lparr>index := (index s2)[i := info]\<rparr>)
     } else do {
       s2 \<leftarrow> store_index_delete i s1;
       (info, s3) \<leftarrow> store_file_alloc os new_sz s2;
       case info of
         None \<Rightarrow> Some (None, s3)
       | Some a \<Rightarrow> do {
           (r, s4) \<leftarrow> store_index_insert os i s3;
           if i < length (index s4) then Some (Some a, s4\<lparr>index := (index s4)[i := Some a]\<rparr>)
           else None
         }
     }
   }"

definition store_info_realloc :: "os \<Rightarrow> nat \<Rightarrow> nat \<Rightarrow> store \<Rightarrow> (nat option \<times> store) option" where
  "store_info_realloc os i new_sz s = do {
     offset \<leftarrow> index_at s i;
     old_sz \<leftarrow> info_sz (mem s) offset;
     let new_alloc = info_size new_sz;
     let old_alloc = info_size old_sz;
     if \<not> offset < filesz s \<or> offset mod INFO_ALIGN \<noteq> 0 then None
     else if new_alloc = old_alloc then do {
       m \<leftarrow> poke (mem s) offset (le_bytes 2 new_sz);
       Some (Some offset, s\<lparr>mem := m\<rparr>)
     } else
       let after = (if add32 offset old_alloc = space s then None else Some (offset + old_alloc)) in
       if new_alloc < old_alloc then info_shrink os i offset new_sz new_alloc old_alloc after s
       else
         let grow = sub32 new_alloc old_alloc in do {
           after_size \<leftarrow> (case after of
               None \<Rightarrow> Some None
             | Some a \<Rightarrow> do {
                 gap \<leftarrow> record_is_gap (mem s) a;
                 if gap then do { g \<leftarrow> record_get_size (mem s) a; Some (Some g) } else Some None
               });
           case after_size of
             None \<Rightarrow> info_move os i offset new_sz new_alloc old_alloc None s
           | Some g \<Rightarrow>
               if g = grow then do {
                 m \<leftarrow> poke (mem s) offset (le_bytes 2 new_sz);
                 Some (Some offset, s\<lparr>mem := m\<rparr>)
               } else if grow < g then do {
                 m \<leftarrow> record_init_gap (mem s) (offset + new_alloc) (sub32 g grow);
                 m' \<leftarrow> poke m offset (le_bytes 2 new_sz);
                 Some (Some offset, s\<lparr>mem := m'\<rparr>)
               } else info_move os i offset new_sz new_alloc old_alloc (Some g) s
         }
   }"

definition store_info_free :: "os \<Rightarrow> nat \<Rightarrow> store \<Rightarrow> store option" where
  "store_info_free os i s = do {
     info \<leftarrow> index_at s i;
     s1 \<leftarrow> store_file_dealloc os info s;
     Some (s1\<lparr>index := (index s1)[i := None]\<rparr>)
   }"

subsection \<open>Lookup\<close>

text \<open>\<^verbatim>\<open>strcmp(key, list[m]->keyvalue)\<close>\<close>

definition key_cmp :: "store \<Rightarrow> bytes \<Rightarrow> nat \<Rightarrow> int option" where
  "key_cmp s key i = do { a \<leftarrow> index_at s i; strcmp key (drop (a + 2) (mem s)) }"

text \<open>The loop of \<^verbatim>\<open>store_find\<close>; it yields \<^verbatim>\<open>m\<close> and \<^verbatim>\<open>b\<close>.\<close>

function find_loop :: "store \<Rightarrow> bytes \<Rightarrow> nat \<Rightarrow> nat \<Rightarrow> (nat \<times> nat) option" where
  "find_loop s key a b =
     (let m = (a + b) div 2 in
      if a < m then do {
        cmp \<leftarrow> key_cmp s key m;
        if cmp = 0 then Some (m, b)
        else if cmp < 0 then find_loop s key a m
        else find_loop s key (m + 1) b
      } else Some (m, b))"
  by pat_completeness auto
termination
  by (relation "measure (\<lambda>(s, key, a, b). b - a)") auto

declare find_loop.simps [simp del]

definition store_find :: "store \<Rightarrow> bytes \<Rightarrow> nat option" where
  "store_find s key = do {
     (m, b) \<leftarrow> find_loop s key 0 (length (index s));
     if m < b then do {
       cmp \<leftarrow> key_cmp s key m;
       Some (if 0 < cmp then m + 1 else m)
     } else Some m
   }"

definition store_eq :: "store \<Rightarrow> nat \<Rightarrow> bytes \<Rightarrow> bool option" where
  "store_eq s i key =
     (if i < length (index s) then do { cmp \<leftarrow> key_cmp s key i; Some (cmp = 0) } else Some False)"

subsection \<open>Operations\<close>

text \<open>The branch of \<^verbatim>\<open>store_put\<close> for a key that is there, with another value.\<close>

definition put_old :: "os \<Rightarrow> bytes \<Rightarrow> nat \<Rightarrow> store \<Rightarrow> (int \<times> store) option" where
  "put_old os kv i s = do {
     (info, s1) \<leftarrow> store_info_realloc os i (length kv) s;
     case info of
       None \<Rightarrow> Some (-1, s1)
     | Some b \<Rightarrow> do { m \<leftarrow> poke (mem s1) (b + 2) kv; Some (1, s1\<lparr>mem := m\<rparr>) }
   }"

text \<open>Its branch for a key that is not there.\<close>

definition put_new :: "os \<Rightarrow> bytes \<Rightarrow> nat \<Rightarrow> store \<Rightarrow> (int \<times> store) option" where
  "put_new os kv i s = do {
     (info, s1) \<leftarrow> store_file_alloc os (length kv) s;
     case info of
       None \<Rightarrow> Some (-1, s1)
     | Some b \<Rightarrow> do {
         (r, s2) \<leftarrow> store_index_insert os i s1;
         if r = -1 then do { s3 \<leftarrow> store_file_dealloc os b s2; Some (-1, s3) }
         else do {
           m \<leftarrow> poke (mem s2) (b + 2) kv;
           Some (1, s2\<lparr>index := (index s2)[i := Some b], mem := m\<rparr>)
         }
       }
   }"

text \<open>
  \<^verbatim>\<open>store_put(store, sz, keyvalue)\<close>, where \<open>kv\<close> is the buffer of \<^verbatim>\<open>sz\<close> bytes.  The result is
  the return value and the new store.
\<close>

definition store_put :: "os \<Rightarrow> bytes \<Rightarrow> store \<Rightarrow> (int \<times> store) option" where
  "store_put os kv s = do {
     i \<leftarrow> store_find s kv;
     eq \<leftarrow> store_eq s i kv;
     if eq then do {
       a \<leftarrow> index_at s i;
       old_sz \<leftarrow> info_sz (mem s) a;
       same \<leftarrow> (if old_sz = length kv
               then do { b \<leftarrow> peek (mem s) (a + 2) (length kv); Some (b = kv) }
               else Some False);
       if same then Some (0, s) else put_old os kv i s
     } else put_new os kv i s
   }"

definition store_del :: "os \<Rightarrow> bytes option \<Rightarrow> store \<Rightarrow> (int \<times> store) option" where
  "store_del os key s =
     (case key of
        None \<Rightarrow> Some (0, s)
      | Some k \<Rightarrow> do {
          i \<leftarrow> store_find s k;
          eq \<leftarrow> store_eq s i k;
          if \<not> eq then Some (0, s)
          else do {
            s1 \<leftarrow> store_info_free os i s;
            s2 \<leftarrow> store_index_delete i s1;
            Some (1, s2)
          }
        })"

text \<open>The result of a lookup is an info pointer or \<^verbatim>\<open>NULL\<close>.\<close>

definition store_get :: "store \<Rightarrow> bytes \<Rightarrow> nat option option" where
  "store_get s key = do {
     i \<leftarrow> store_find s key;
     eq \<leftarrow> store_eq s i key;
     if \<not> eq then Some None else Some (index_at s i)
   }"

definition store_get_next :: "store \<Rightarrow> nat \<Rightarrow> nat option \<times> nat" where
  "store_get_next s ix =
     (if length (index s) \<le> ix then (None, ix) else (index s ! ix, ix + 1))"

definition store_get_first :: "store \<Rightarrow> nat option \<times> nat" where
  "store_get_first s = store_get_next s 0"

text \<open>The bytes \<^verbatim>\<open>info->keyvalue[0..sz-1]\<close> of an info pointer.\<close>

definition info_keyvalue :: "store \<Rightarrow> nat \<Rightarrow> bytes option" where
  "info_keyvalue s a = do { sz \<leftarrow> info_sz (mem s) a; peek (mem s) (a + 2) sz }"

subsection \<open>Opening the file\<close>

text \<open>The scan of \<^verbatim>\<open>store_file_open\<close>: the final \<^verbatim>\<open>offset\<close> and the number of data records.\<close>

fun open_scan :: "nat \<Rightarrow> bytes \<Rightarrow> nat \<Rightarrow> nat \<Rightarrow> nat \<Rightarrow> (nat \<times> nat) option" where
  "open_scan 0 m fsz offset n = None"
| "open_scan (Suc k) m fsz offset n =
     (if offset < fsz then do {
        record_sz \<leftarrow> record_get_size m offset;
        if sub32 fsz record_sz < offset then Some (offset, n)
        else do {
          gap \<leftarrow> record_is_gap m offset;
          open_scan k m fsz (add32 offset record_sz) (if gap then n else n + 1)
        }
      } else Some (offset, n))"

text \<open>The de-duplication loop.\<close>

fun open_dedup :: "nat \<Rightarrow> nat \<Rightarrow> store \<Rightarrow> store option" where
  "open_dedup 0 i s = None"
| "open_dedup (Suc k) i s =
     (if i < length (index s) then do {
        info \<leftarrow> index_at s i;
        prev \<leftarrow> index_at s (i - 1);
        pkey \<leftarrow> cstr_at (mem s) (prev + 2);
        cmp \<leftarrow> strcmp pkey (drop (info + 2) (mem s));
        if cmp \<noteq> 0 then open_dedup k (i + 1) s
        else do {
          s1 \<leftarrow> info_make_gap info s;
          s2 \<leftarrow> store_index_delete i s1;
          open_dedup k i s2
        }
      } else Some s)"

text \<open>The second half of \<^verbatim>\<open>store_file_open\<close>: building the index over the mapping \<open>m\<close>.\<close>

definition open_index :: "os \<Rightarrow> nat \<Rightarrow> nat \<Rightarrow> bytes \<Rightarrow> store option option" where
  "open_index os pgsz fsz m = do {
     (offset, n) \<leftarrow> open_scan (fsz + 1) m fsz 0 0;
     let s0 = \<lparr>mem = m, filesz = fsz, pagesize = pgsz, space = offset, index = [], idx_max = 0\<rparr>;
     let (r, s1) = (if n \<noteq> 0 then store_index_ensure os (n - 1) s0 else (0, s0));
     if r = -1 then Some None
     else do {
       s2 \<leftarrow> store_repack os s1;
       s3 \<leftarrow> open_dedup (length (index s2) + 1) 1 s2;
       Some (Some s3)
     }
   }"

text \<open>
  \<^verbatim>\<open>store_file_open\<close> on a file with contents \<open>file\<close>, with a page size \<open>pgsz\<close>.  \<^verbatim>\<open>None\<close> inside
  the option is the return value -1.
\<close>

definition store_file_open :: "os \<Rightarrow> nat \<Rightarrow> bytes \<Rightarrow> store option option" where
  "store_file_open os pgsz file =
     (let st_size = length file in
      if UINT32_MAX \<le> st_size then Some None
      else
        let fsz = max pgsz (roundup st_size pgsz) in
        if st_size < fsz \<and> os_ftruncate os fsz = -1 then Some None
        else if \<not> os_mmap os fsz then Some None
        else open_index os pgsz fsz (take fsz (file @ replicate (fsz - st_size) 0)))"

text \<open>
  \<^verbatim>\<open>store_open\<close> and \<^verbatim>\<open>store_close\<close> own the file descriptor.  The outcome of \<^verbatim>\<open>open\<close> (the
  descriptor and the contents of the file) and of \<^verbatim>\<open>flock\<close> are arguments; the results list the
  descriptors closed on the way.  A handle is the descriptor and the mapped store.
\<close>

definition store_close :: "int \<Rightarrow> int list" where
  "store_close fd = (if fd \<noteq> -1 then [fd] else [])"

definition store_open ::
  "os \<Rightarrow> nat \<Rightarrow> bytes option \<Rightarrow> (int \<times> bytes) option \<Rightarrow> bool \<Rightarrow> ((int \<times> store) option \<times> int list) option" where
  "store_open os pgsz filename opened locked =
     (if filename = None then Some (None, [])
      else if \<not> os_realloc os 48 then Some (None, [])
      else case opened of
        None \<Rightarrow> Some (None, store_close (-1))
      | Some (fd, file) \<Rightarrow>
          if \<not> locked then Some (None, fd # store_close (-1))
          else do {
            r \<leftarrow> store_file_open os pgsz file;
            case r of
              None \<Rightarrow> Some (None, fd # store_close (-1))
            | Some s \<Rightarrow> Some (Some (fd, s), [])
          })"

end
