(* ===== verification/Store_Layout.thy ===== *)
theory Store_Layout
  imports Store
begin

text \<open>
  The layout of the backing file: a sequence of records, each a data record (an info) or a gap,
  laid out one after the other in 8-byte aligned chunks.  The lemmas say what the record
  accessors of \<^verbatim>\<open>store.c\<close> read from such a chunk and what their writes make of it.
\<close>

subsection \<open>Records and chunks\<close>

datatype frec = Data bytes | Gap nat

fun rsize :: "frec \<Rightarrow> nat" where
  "rsize (Data kv) = info_size (length kv)"
| "rsize (Gap n) = n"

text \<open>The bytes of one record; the padding after the key and value is not specified.\<close>

fun chunk :: "frec \<Rightarrow> bytes \<Rightarrow> bool" where
  "chunk (Data kv) c \<longleftrightarrow> 0 < length kv \<and> length kv < 65536 \<and> length c = info_size (length kv) \<and>
     take 2 c = le_bytes 2 (length kv) \<and> take (length kv) (drop 2 c) = kv"
| "chunk (Gap n) c \<longleftrightarrow> length c = n \<and> 8 \<le> n \<and> 8 dvd n \<and> n < 2 ^ 32 \<and>
     take 2 c = le_bytes 2 0 \<and> add32 (roundup (of_le (take 4 (drop 4 c))) 8) 8 = n"

text \<open>A byte string that is the concatenation of the chunks of a list of records.\<close>

fun lay :: "frec list \<Rightarrow> bytes \<Rightarrow> bool" where
  "lay [] m \<longleftrightarrow> m = []"
| "lay (r # rs) m \<longleftrightarrow> chunk r (take (rsize r) m) \<and> lay rs (drop (rsize r) m)"

definition tsize :: "frec list \<Rightarrow> nat" where
  "tsize rs = sum_list (map rsize rs)"

subsection \<open>Rounding\<close>

lemma and_high_bits:
  assumes "x < 2 ^ 32" "k \<le> 32"
  shows "(x :: nat) AND (2 ^ 32 - 2 ^ k) = 2 ^ k * (x div 2 ^ k)"
proof -
  have p: "(2 ^ 32 :: nat) = 2 ^ k * 2 ^ (32 - k)" using assms(2) by (simp flip: power_add)
  have m: "(2 ^ 32 - 2 ^ k :: nat) = push_bit k (mask (32 - k))"
    unfolding p by (simp add: push_bit_eq_mult mask_eq_exp_minus_1 diff_mult_distrib2 mult.commute)
  have "x AND push_bit k (mask (32 - k)) = push_bit k (take_bit (32 - k) (drop_bit k x))"
    by (rule bit_eqI) (auto simp: bit_simps)
  moreover have "drop_bit k x < 2 ^ (32 - k)"
    using assms(1) p by (simp add: drop_bit_eq_div div_less_iff_less_mult mult.commute)
  ultimately show ?thesis
    by (simp only: m) (simp add: take_bit_nat_eq_self push_bit_eq_mult drop_bit_eq_div mult.commute)
qed

lemma roundup_eq:
  assumes "n + 2 ^ k \<le> 2 ^ 32" "k < 32"
  shows "roundup n (2 ^ k) = 2 ^ k * ((n + (2 ^ k - 1)) div 2 ^ k)"
proof -
  have k: "(2 ^ k :: nat) < 2 ^ 32" using assms(2) by (intro power_strict_increasing) auto
  have pos: "(1 :: nat) \<le> 2 ^ k" by simp
  have s: "sub32 (2 ^ k) 1 = 2 ^ k - 1" using k pos by (simp only: sub32_id)
  have a: "add32 n (2 ^ k - 1) = n + (2 ^ k - 1)" using assms(1) pos by (intro add32_id) linarith
  have nt: "not32 (2 ^ k - 1) = 2 ^ 32 - 2 ^ k" using k pos by (simp add: not32_def)
  have "n + (2 ^ k - 1) < 2 ^ 32" using assms(1) pos by linarith
  from and_high_bits [OF this, of k] assms(2) show ?thesis
    by (simp only: roundup_def s a nt)
qed

lemma roundup_8: "n + 8 \<le> 2 ^ 32 \<Longrightarrow> roundup n 8 = 8 * ((n + 7) div 8)"
  using roundup_eq [of n 3] by simp

lemma info_size_eq: "sz < 65536 \<Longrightarrow> info_size sz = 8 * ((sz + 9) div 8)"
  by (simp add: info_size_def INFO_ALIGN_def roundup_8)

lemma info_size_bounds:
  assumes "sz < 65536"
  shows "sz + 2 \<le> info_size sz" "info_size sz < sz + 10" "8 dvd info_size sz" "8 \<le> info_size sz"
    "info_size sz \<le> 65544"
  using assms by (auto simp: info_size_eq)

subsection \<open>Reading and writing a chunk\<close>

lemma chunk_length: "chunk r c \<Longrightarrow> length c = rsize r"
  by (cases r) auto

lemma chunk_bounds: "chunk r c \<Longrightarrow> 8 \<le> rsize r \<and> 8 dvd rsize r"
  by (cases r) (auto simp: info_size_bounds)

lemma info_sz_chunk:
  assumes "chunk r c" "length A = a"
  shows "info_sz (A @ c @ B) a = Some (case r of Data kv \<Rightarrow> length kv | Gap n \<Rightarrow> 0)"
  using assms chunk_length [OF assms(1)] chunk_bounds [OF assms(1)]
  by (cases r) (auto simp: info_sz_def mem_simps of_le_le_bytes)

lemma is_gap_chunk:
  assumes "chunk r c" "length A = a"
  shows "record_is_gap (A @ c @ B) a = Some (case r of Data kv \<Rightarrow> False | Gap n \<Rightarrow> True)"
  using assms info_sz_chunk [OF assms] by (cases r) (auto simp: record_is_gap_def)

lemma get_size_chunk:
  assumes "chunk r c" "length A = a"
  shows "record_get_size (A @ c @ B) a = Some (rsize r)"
proof (cases r)
  case (Data kv)
  then show ?thesis using info_sz_chunk [OF assms] is_gap_chunk [OF assms]
    by (simp add: record_get_size_def)
next
  case (Gap n)
  have "peek (A @ c @ B) (a + 4) 4 = Some (take 4 (drop 4 c))"
    using assms Gap by (simp add: peek_def)
  then show ?thesis using Gap assms is_gap_chunk [OF assms]
    by (simp add: record_get_size_def INFO_ALIGN_def)
qed

lemma init_gap_chunk:
  assumes "length A = a" "length c = n" "8 \<le> n" "8 dvd n" "n < 2 ^ 32"
  shows "\<exists>c'. record_init_gap (A @ c @ B) a n = Some (A @ c' @ B) \<and> chunk (Gap n) c'"
proof -
  let ?h = "le_bytes 2 0 @ le_bytes 2 0 @ le_bytes 4 (n - 8)"
  have "roundup (n - 8) 8 = n - 8" using assms by (subst roundup_8) presburger+
  then have r: "add32 (roundup (n - 8) 8) 8 = n" using assms by (simp add: add32_def)
  have "chunk (Gap n) (?h @ drop 8 c)"
    using assms r by (simp add: of_le_le_bytes)
  moreover have "record_init_gap (A @ c @ B) a n = Some (A @ (?h @ drop 8 c) @ B)"
    using assms by (simp only: record_init_gap_def INFO_ALIGN_def) (simp add: poke_def)
  ultimately show ?thesis by blast
qed

lemma init_data_chunk:
  assumes "length A = a" "length c = info_size sz" "0 < sz" "sz < 65536"
  shows "\<exists>c' kv. poke (A @ c @ B) a (le_bytes 2 sz) = Some (A @ c' @ B) \<and>
     chunk (Data kv) c' \<and> length kv = sz"
proof (intro exI conjI)
  have b: "sz + 2 \<le> length c" using assms info_size_bounds(1) [of sz] by simp
  then show "poke (A @ c @ B) a (le_bytes 2 sz) = Some (A @ (le_bytes 2 sz @ drop 2 c) @ B)"
    using assms by (simp add: poke_def)
  show "length (take sz (drop 2 c)) = sz" using b by simp
  then show "chunk (Data (take sz (drop 2 c))) (le_bytes 2 sz @ drop 2 c)"
    using assms b by simp
qed

lemma fill_data_chunk:
  assumes "length A + 2 = a" "chunk (Data kv0) c" "length kv = length kv0"
  shows "\<exists>c'. poke (A @ c @ B) a kv = Some (A @ c' @ B) \<and> chunk (Data kv) c'"
proof (intro exI conjI)
  have b: "length kv + 2 \<le> length c" using assms info_size_bounds(1) [of "length kv"] by simp
  then show "poke (A @ c @ B) a kv = Some (A @ (take 2 c @ kv @ drop (2 + length kv) c) @ B)"
    using assms by (auto simp: poke_def)
  show "chunk (Data kv) (take 2 c @ kv @ drop (2 + length kv) c)"
    using assms b by simp
qed

subsection \<open>Layouts\<close>

lemma tsize_simps [simp]: "tsize [] = 0" "tsize (r # rs) = rsize r + tsize rs"
  "tsize (xs @ ys) = tsize xs + tsize ys"
  by (auto simp: tsize_def)

lemma lay_Cons_iff: "lay (r # rs) m \<longleftrightarrow> (\<exists>c m'. m = c @ m' \<and> chunk r c \<and> lay rs m')"
proof
  assume "lay (r # rs) m"
  then have "m = take (rsize r) m @ drop (rsize r) m" "chunk r (take (rsize r) m)"
    "lay rs (drop (rsize r) m)" by auto
  then show "\<exists>c m'. m = c @ m' \<and> chunk r c \<and> lay rs m'" by blast
qed (auto simp: chunk_length)

declare lay.simps(2) [simp del]

lemma lay_length: "lay rs m \<Longrightarrow> length m = tsize rs"
  by (induction rs arbitrary: m) (auto simp: lay_Cons_iff chunk_length)

lemma lay_append_iff: "lay (rs @ ss) m \<longleftrightarrow> (\<exists>m1 m2. m = m1 @ m2 \<and> lay rs m1 \<and> lay ss m2)"
proof (induction rs arbitrary: m)
  case (Cons r rs)
  show ?case
  proof
    assume "lay ((r # rs) @ ss) m"
    then obtain c m1 m2 where "m = c @ m1 @ m2" "chunk r c" "lay rs m1" "lay ss m2"
      by (auto simp: lay_Cons_iff Cons.IH)
    then show "\<exists>m1 m2. m = m1 @ m2 \<and> lay (r # rs) m1 \<and> lay ss m2"
      by (intro exI [of _ "c @ m1"] exI [of _ m2]) (auto simp: lay_Cons_iff)
  qed (fastforce simp: lay_Cons_iff Cons.IH)
qed simp

lemma lay_bounds: "lay rs m \<Longrightarrow> r \<in> set rs \<Longrightarrow> 8 \<le> rsize r \<and> 8 dvd rsize r"
  by (induction rs arbitrary: m) (auto simp: lay_Cons_iff dest: chunk_bounds)

lemma lay_aligned: "lay rs m \<Longrightarrow> 8 dvd tsize rs"
  by (induction rs arbitrary: m) (auto simp: lay_Cons_iff dest: chunk_bounds)

lemma lay_splitE:
  assumes "lay (xs @ r # ys) m"
  obtains A c B where "m = A @ c @ B" "lay xs A" "chunk r c" "lay ys B" "length A = tsize xs"
    "length c = rsize r"
proof -
  from assms obtain A c B where "m = A @ c @ B" "lay xs A" "chunk r c" "lay ys B"
    by (auto simp: lay_append_iff lay_Cons_iff)
  then show thesis by (rule that) (simp_all add: lay_length chunk_length \<open>lay xs A\<close> \<open>chunk r c\<close>)
qed

lemma lay_splitI: "lay xs A \<Longrightarrow> chunk r c \<Longrightarrow> lay ys B \<Longrightarrow> lay (xs @ r # ys) (A @ c @ B)"
  unfolding lay_append_iff lay_Cons_iff by blast

end
