(* ===== verification/Store_File.thy ===== *)
theory Store_File
  imports Store_Layout "HOL-Library.Multiset"
begin

text \<open>
  The operations on the backing file, each on a file that is a sequence of records followed by
  one gap: what \<^verbatim>\<open>store_set_space\<close>, \<^verbatim>\<open>store_file_setsize\<close>, \<^verbatim>\<open>store_file_trim\<close>,
  \<^verbatim>\<open>store_repack\<close>, \<^verbatim>\<open>store_file_alloc\<close> and \<^verbatim>\<open>store_file_dealloc\<close> make of the multiset of the
  data records (offset and contents) it holds.
\<close>

subsection \<open>Definitions\<close>

definition page_size_ok :: "nat \<Rightarrow> bool" where
  "page_size_ok p \<longleftrightarrow> p \<in> (\<lambda>k. 2 ^ k) ` {3..<32}"

definition geometry :: "store \<Rightarrow> bool" where
  "geometry s \<longleftrightarrow> page_size_ok (pagesize s) \<and> pagesize s dvd filesz s \<and> 0 < filesz s \<and>
     filesz s < 2 ^ 32 \<and> length (mem s) = filesz s \<and> space s \<le> filesz s"

definition file_rep :: "frec list \<Rightarrow> store \<Rightarrow> bool" where
  "file_rep rs s \<longleftrightarrow> geometry s \<and> lay rs (take (space s) (mem s)) \<and>
     (space s < filesz s \<longrightarrow> chunk (Gap (filesz s - space s)) (drop (space s) (mem s)))"

definition os_sane :: "os \<Rightarrow> bool" where
  "os_sane os \<longleftrightarrow> (\<forall>a n. os_fallocate os a n = 0) \<and> (\<forall>n. os_ftruncate os n = 0)"

fun datas :: "nat \<Rightarrow> frec list \<Rightarrow> (nat \<times> bytes) list" where
  "datas off [] = []"
| "datas off (Data kv # rs) = (off, kv) # datas (off + info_size (length kv)) rs"
| "datas off (Gap n # rs) = datas (off + n) rs"

fun is_data :: "frec \<Rightarrow> bool" where
  "is_data (Data kv) = True"
| "is_data (Gap n) = False"

definition file_data :: "store \<Rightarrow> (nat \<times> bytes) multiset \<Rightarrow> bool" where
  "file_data s D \<longleftrightarrow> (\<exists>rs. file_rep rs s \<and> mset (datas 0 rs) = D)"

text \<open>
  A file seen around a stretch \<open>c\<close> of its bytes: records \<open>xs\<close> before it, records \<open>ys\<close> after
  it, and the final gap \<open>T\<close>.
\<close>

definition file_at ::
  "store \<Rightarrow> frec list \<Rightarrow> bytes \<Rightarrow> bytes \<Rightarrow> frec list \<Rightarrow> bytes \<Rightarrow> bytes \<Rightarrow> bool" where
  "file_at s xs A c ys B T \<longleftrightarrow> geometry s \<and> mem s = A @ c @ B @ T \<and> length (A @ c @ B) = space s \<and>
     lay xs A \<and> lay ys B \<and> (space s < filesz s \<longrightarrow> chunk (Gap (filesz s - space s)) T)"

definition same_index :: "store \<Rightarrow> store \<Rightarrow> bool" where
  "same_index s s' \<longleftrightarrow> index s' = index s \<and> idx_max s' = idx_max s \<and> pagesize s' = pagesize s"

subsection \<open>Well-formed files\<close>

lemma roundup_wraps:
  assumes "n < 2 ^ 32" "2 ^ 32 < n + 2 ^ k" "k < 32"
  shows "roundup n (2 ^ k) = 0"
proof -
  have k: "(2 ^ k :: nat) < 2 ^ 32" using assms(3) by (intro power_strict_increasing) auto
  have pos: "(1 :: nat) \<le> 2 ^ k" by simp
  have s: "sub32 (2 ^ k) 1 = 2 ^ k - 1" using k pos by (simp only: sub32_id)
  have "n + (2 ^ k - 1) = n + 2 ^ k - 1 - 2 ^ 32 + 2 ^ 32" using assms(2) pos by linarith
  moreover have small: "n + 2 ^ k - 1 - 2 ^ 32 < 2 ^ k" using assms(1,2) pos by linarith
  ultimately have a: "add32 n (2 ^ k - 1) = n + 2 ^ k - 1 - 2 ^ 32"
    unfolding add32_def using k by (metis less_trans mod_add_self2 mod_less)
  have nt: "not32 (2 ^ k - 1) = 2 ^ 32 - 2 ^ k" using k pos by (simp add: not32_def)
  from and_high_bits [of "n + 2 ^ k - 1 - 2 ^ 32" k] small k assms(3) show ?thesis
    by (simp only: roundup_def s a nt) simp
qed

lemma page_size_okE:
  assumes "page_size_ok p" obtains k where "p = 2 ^ k" "3 \<le> k" "k < 32"
  using assms by (auto simp: page_size_ok_def)

lemma page_size_8_dvd: "page_size_ok p \<Longrightarrow> 8 dvd p \<and> 8 \<le> p"
proof -
  assume "page_size_ok p"
  then obtain k where k: "p = 2 ^ k" "3 \<le> k" by (rule page_size_okE)
  then have "p = 2 ^ 3 * 2 ^ (k - 3)" by (simp only: power_add [symmetric] le_add_diff_inverse)
  then show ?thesis by simp
qed

lemma page_dvd_less: "page_size_ok p \<Longrightarrow> p dvd n \<Longrightarrow> n < 2 ^ 32 \<Longrightarrow> n + p \<le> 2 ^ 32"
proof -
  assume "page_size_ok p" and n: "p dvd n" "n < 2 ^ 32"
  then obtain k where k: "p = 2 ^ k" "k < 32" by (metis page_size_okE)
  then have p: "p dvd 2 ^ 32" unfolding k(1) by (intro le_imp_power_dvd) simp
  then have "p dvd 2 ^ 32 - n" using n by (simp add: dvd_diff_nat)
  then show "n + p \<le> 2 ^ 32" using n dvd_imp_le [of p "2 ^ 32 - n"] by linarith
qed

lemma roundup_page:
  assumes "page_size_ok p" "n < 2 ^ 32"
  shows "roundup n p = 0 \<or> (n \<le> roundup n p \<and> roundup n p < n + p \<and> p dvd roundup n p \<and>
    roundup n p < 2 ^ 32)"
proof -
  from assms(1) obtain k where k: "p = 2 ^ k" "k < 32" by (metis page_size_okE)
  show ?thesis
  proof (cases "n + p \<le> 2 ^ 32")
    case True
    with k have r: "roundup n p = p * ((n + (p - 1)) div p)" using roundup_eq by simp
    have p: "0 < p" using k by simp
    have "(n + (p - 1)) mod p < p" using p by simp
    moreover have "p * ((n + (p - 1)) div p) + (n + (p - 1)) mod p = n + (p - 1)" by simp
    ultimately have "n \<le> roundup n p" "roundup n p < n + p" "roundup n p < 2 ^ 32"
      using True p unfolding r by linarith+
    moreover have "p dvd roundup n p" unfolding r by simp
    ultimately show ?thesis by blast
  next
    case False
    with k assms(2) roundup_wraps show ?thesis by simp
  qed
qed

lemma tail_gap:
  assumes "geometry s" "space s < filesz s" "lay rs (take (space s) (mem s))"
  shows "\<exists>m. record_init_gap (mem s) (space s) (sub32 (filesz s) (space s)) = Some m \<and>
    file_rep rs (s\<lparr>mem := m\<rparr>) \<and> take (space s) m = take (space s) (mem s) \<and> length m = filesz s"
proof -
  let ?A = "take (space s) (mem s)" and ?T = "drop (space s) (mem s)"
  note g = assms(1) [unfolded geometry_def]
  have l: "length ?A = space s" "length ?T = filesz s - space s" using g by auto
  have d: "8 dvd space s" using lay_aligned [OF assms(3)] lay_length [OF assms(3)] l by simp
  moreover have f: "8 dvd filesz s" using g page_size_8_dvd dvd_trans by blast
  ultimately have gd: "8 dvd filesz s - space s" by simp
  then have ge: "8 \<le> filesz s - space s" using assms(2) by (simp add: dvd_imp_le)
  have lt: "filesz s - space s < 2 ^ 32" using g by linarith
  from init_gap_chunk [OF l ge gd lt, of "[]"] obtain c where
    c: "record_init_gap (mem s) (space s) (filesz s - space s) = Some (?A @ c)"
      "chunk (Gap (filesz s - space s)) c" by auto
  have sub: "sub32 (filesz s) (space s) = filesz s - space s" using g by (simp add: sub32_id)
  have m: "length (?A @ c) = filesz s" "take (space s) (?A @ c) = ?A" "drop (space s) (?A @ c) = c"
    using l chunk_length [OF c(2)] g by simp_all
  then have "file_rep rs (s\<lparr>mem := ?A @ c\<rparr>)"
    using assms c(2) by (simp add: file_rep_def geometry_def)
  with c m sub show ?thesis by (intro exI [of _ "?A @ c"]) simp
qed

lemma set_space_rep:
  assumes "geometry s" "sp \<le> filesz s" "lay rs (take sp (mem s))"
  shows "\<exists>m. store_set_space sp s = Some (s\<lparr>space := sp, mem := m\<rparr>) \<and>
    file_rep rs (s\<lparr>space := sp, mem := m\<rparr>)"
proof (cases "sp = filesz s")
  case True
  then show ?thesis using assms
    by (auto simp: store_set_space_def file_rep_def geometry_def intro!: exI [of _ "mem s"])
next
  case False
  have "geometry (s\<lparr>space := sp\<rparr>)" using assms by (simp add: geometry_def)
  with tail_gap [of "s\<lparr>space := sp\<rparr>" rs] assms False obtain m where
    "record_init_gap (mem s) sp (sub32 (filesz s) sp) = Some m" "file_rep rs (s\<lparr>space := sp, mem := m\<rparr>)"
    by auto
  with False show ?thesis by (auto simp: store_set_space_def)
qed

lemma setsize_rep:
  assumes "os_sane os" "geometry s" "new = 0 \<or> (pagesize s dvd new \<and> new < 2 ^ 32 \<and> space s \<le> new)"
  shows "store_file_setsize os new s = (-1, s) \<or>
    (\<exists>m. store_file_setsize os new s = (0, s\<lparr>mem := m, filesz := new\<rparr>) \<and> 0 < new \<and>
      geometry (s\<lparr>mem := m, filesz := new\<rparr>) \<and> take (space s) m = take (space s) (mem s))"
  using assms by (auto simp: store_file_setsize_def os_sane_def geometry_def Let_def)

lemma trim_rep:
  assumes "os_sane os" "file_rep rs s" "space s < filesz s"
  shows "\<exists>m f. store_file_trim os s = Some (s\<lparr>mem := m, filesz := f\<rparr>) \<and>
    file_rep rs (s\<lparr>mem := m, filesz := f\<rparr>)"
proof (cases "roundup (add32 (space s) (3 * pagesize s)) (pagesize s) < filesz s")
  case False
  then show ?thesis using assms
    by (auto simp: store_file_trim_def Let_def intro!: exI [of _ "mem s"] exI [of _ "filesz s"])
next
  case True
  let ?new = "roundup (add32 (space s) (pagesize s)) (pagesize s)"
  note g = assms(2) [unfolded file_rep_def, THEN conjunct1]
  note gg = g [unfolded geometry_def]
  have lt: "space s + pagesize s < 2 ^ 32"
    using page_dvd_less [of "pagesize s" "filesz s"] gg assms(3) by linarith
  then have "?new = 0 \<or> (pagesize s dvd ?new \<and> ?new < 2 ^ 32 \<and> space s + pagesize s \<le> ?new)"
    using roundup_page [of "pagesize s" "space s + pagesize s"] gg by (auto simp: add32_id)
  moreover have "0 < pagesize s" using gg page_size_8_dvd by fastforce
  ultimately have new: "?new = 0 \<or> (pagesize s dvd ?new \<and> ?new < 2 ^ 32 \<and> space s < ?new)" by auto
  have lay: "lay rs (take (space s) (mem s))" using assms(2) by (simp add: file_rep_def)
  obtain r m f where ss: "store_file_setsize os ?new s = (r, s\<lparr>mem := m, filesz := f\<rparr>)"
    and gm: "geometry (s\<lparr>mem := m, filesz := f\<rparr>)" "take (space s) m = take (space s) (mem s)" "space s < f"
  proof (cases "fst (store_file_setsize os ?new s) = 0")
    case True
    then show thesis using setsize_rep [OF assms(1) g, of ?new] new that by fastforce
  next
    case False
    then have "store_file_setsize os ?new s = (-1, s)"
      using setsize_rep [OF assms(1) g, of ?new] new by fastforce
    then show thesis using that [where r = "-1" and m = "mem s" and f = "filesz s"] g assms(3) by simp
  qed
  have "space (s\<lparr>mem := m, filesz := f\<rparr>) < filesz (s\<lparr>mem := m, filesz := f\<rparr>)"
    "lay rs (take (space (s\<lparr>mem := m, filesz := f\<rparr>)) (mem (s\<lparr>mem := m, filesz := f\<rparr>)))"
    using gm lay by simp_all
  from tail_gap [OF gm(1) this] obtain m' where
    m': "record_init_gap m (space s) (sub32 f (space s)) = Some m'"
    "file_rep rs (s\<lparr>mem := m, filesz := f, mem := m'\<rparr>)" by auto
  have up: "s\<lparr>mem := m, filesz := f, mem := m'\<rparr> = s\<lparr>mem := m', filesz := f\<rparr>" by simp
  show ?thesis using ss True m'(1) m'(2) [unfolded up]
    by (intro exI [of _ m'] exI [of _ f]) (simp add: store_file_trim_def Let_def)
qed

declare chunk.simps(2) [simp del]

lemma datas_append [simp]: "datas off (xs @ ys) = datas off xs @ datas (off + tsize xs) ys"
  by (induction off xs rule: datas.induct) (auto simp: add.assoc)

lemma datas_split:
  "(a, kv) \<in> set (datas off rs) \<Longrightarrow> \<exists>xs ys. rs = xs @ Data kv # ys \<and> a = off + tsize xs"
proof (induction off rs rule: datas.induct)
  case (2 off kv' rs)
  show ?case
  proof (cases "(a, kv) = (off, kv')")
    case True
    then show ?thesis by (intro exI [of _ "[]"] exI [of _ rs]) simp
  next
    case False
    with 2 obtain xs ys where "rs = xs @ Data kv # ys" "a = off + info_size (length kv') + tsize xs" by auto
    then show ?thesis by (intro exI [of _ "Data kv' # xs"] exI [of _ ys]) simp
  qed
next
  case (3 off n rs)
  then obtain xs ys where "rs = xs @ Data kv # ys" "a = off + n + tsize xs" by auto
  then show ?case by (intro exI [of _ "Gap n # xs"] exI [of _ ys]) simp
qed simp

lemma datas_filter_snd: "map snd (datas off (filter is_data rs)) = map snd (datas off' rs)"
  by (induction off' rs arbitrary: off rule: datas.induct) auto

lemma length_datas_eq: "length (datas off rs) = length (filter is_data rs)"
  by (induction off rs rule: datas.induct) auto

lemma length_datas: "lay rs m \<Longrightarrow> 8 * length (datas off rs) \<le> tsize rs"
proof (induction off rs arbitrary: m rule: datas.induct)
  case (2 off kv rs)
  then obtain c m' where "chunk (Data kv) c" "lay rs m'" by (auto simp: lay_Cons_iff)
  with 2 chunk_bounds [of "Data kv" c] show ?case by fastforce
next
  case (3 off n rs)
  then obtain m' where "lay rs m'" by (auto simp: lay_Cons_iff)
  with 3 show ?case by fastforce
qed simp

lemma file_repE:
  assumes "file_rep rs s"
  obtains M T where "mem s = M @ T" "lay rs M" "length M = space s" "tsize rs = space s"
    "geometry s" "length T = filesz s - space s" "space s \<le> filesz s" "filesz s < 2 ^ 32"
proof -
  have "lay rs (take (space s) (mem s))" "geometry s" using assms by (auto simp: file_rep_def)
  moreover from this have "length (take (space s) (mem s)) = space s" "length (mem s) = filesz s"
    "space s \<le> filesz s" "filesz s < 2 ^ 32"
    by (auto simp: geometry_def)
  ultimately show thesis
    by (intro that [of "take (space s) (mem s)" "drop (space s) (mem s)"])
      (simp_all add: lay_length [symmetric])
qed

lemma file_at_data:
  assumes "file_at s xs A c ys B T" "lay mid c"
    "D = mset (datas 0 xs) + mset (datas (length A) mid) + mset (datas (length A + length c) ys)"
  shows "file_data s D"
proof -
  note f = assms(1) [unfolded file_at_def]
  have "lay (xs @ mid @ ys) (A @ c @ B)" using f assms(2) unfolding lay_append_iff by blast
  moreover have "take (space s) (mem s) = A @ c @ B" "drop (space s) (mem s) = T" using f by auto
  ultimately have "file_rep (xs @ mid @ ys) s" using f by (simp add: file_rep_def)
  then show ?thesis using assms f lay_length [of xs A] lay_length [of mid c]
    by (auto simp: file_data_def intro!: exI [of _ "xs @ mid @ ys"])
qed

lemma file_at_upd:
  "file_at s xs A c ys B T \<Longrightarrow> length c' = length c \<Longrightarrow> file_at (s\<lparr>mem := A @ c' @ B @ T\<rparr>) xs A c' ys B T"
  by (auto simp: file_at_def geometry_def)

lemma file_at_index [simp]:
  "file_at (s\<lparr>index := i\<rparr>) xs A c ys B T = file_at s xs A c ys B T"
  "file_data (s\<lparr>index := i\<rparr>) D = file_data s D"
  "file_at (s\<lparr>idx_max := j\<rparr>) xs A c ys B T = file_at s xs A c ys B T"
  "file_data (s\<lparr>idx_max := j\<rparr>) D = file_data s D"
  by (auto simp: file_at_def file_data_def file_rep_def geometry_def)

lemma file_at_bounds:
  assumes "file_at s xs A c ys B T"
  shows "length A + length c + length B = space s" "space s \<le> filesz s" "filesz s < 2 ^ 32"
    "length T = filesz s - space s" "length A + length c + length B < 2 ^ 32" "8 dvd length A"
proof -
  note f = assms [unfolded file_at_def geometry_def]
  show a: "length A + length c + length B = space s" and b: "space s \<le> filesz s" "filesz s < 2 ^ 32"
    using f by simp_all
  have "length (mem s) = length A + length c + length B + length T" using f by simp
  then show "length T = filesz s - space s" using f a by linarith
  note a b
  then show "length A + length c + length B < 2 ^ 32" by linarith
  show "8 dvd length A" using f lay_length [of xs A] lay_aligned [of xs A] by simp
qed

lemma file_data_atE:
  assumes "file_data s (add_mset (a, kv) D)"
  obtains xs A c ys B T where "file_at s xs A c ys B T" "chunk (Data kv) c" "length A = a"
    "length c = info_size (length kv)" "0 < length kv" "length kv < 65536"
    "D = mset (datas 0 xs) + mset (datas (a + info_size (length kv)) ys)"
proof -
  from assms obtain rs where rs: "file_rep rs s" "mset (datas 0 rs) = add_mset (a, kv) D"
    by (auto simp: file_data_def)
  then have "(a, kv) \<in> set (datas 0 rs)" by (metis set_mset_mset union_single_eq_member)
  then obtain xs ys where sp: "rs = xs @ Data kv # ys" "a = tsize xs" using datas_split by fastforce
  let ?M = "take (space s) (mem s)" and ?T = "drop (space s) (mem s)"
  have f: "lay rs ?M" "length ?M = space s" "geometry s"
    "space s < filesz s \<longrightarrow> chunk (Gap (filesz s - space s)) ?T"
    using rs(1) by (auto simp: file_rep_def geometry_def)
  from f(1) sp obtain A c B where l: "?M = A @ c @ B" "lay xs A" "chunk (Data kv) c" "lay ys B"
    "length A = a" "length c = info_size (length kv)" by (auto elim: lay_splitE)
  have "mem s = ?M @ ?T" by simp
  with l f have "file_at s xs A c ys B ?T" unfolding file_at_def
    by (metis append.assoc)
  moreover have "D = mset (datas 0 xs) + mset (datas (a + info_size (length kv)) ys)"
    using rs(2) sp by simp
  ultimately show thesis using l(3,5,6) by (intro that) auto
qed

lemma info_sz_at:
  "file_at s xs A c ys B T \<Longrightarrow> chunk r c \<Longrightarrow>
   info_sz (mem s) (length A) = Some (case r of Data kv \<Rightarrow> length kv | Gap n \<Rightarrow> 0)"
  by (simp add: file_at_def info_sz_chunk)

lemma is_gap_at:
  "file_at s xs A c ys B T \<Longrightarrow> chunk r c \<Longrightarrow>
   record_is_gap (mem s) (length A) = Some (case r of Data kv \<Rightarrow> False | Gap n \<Rightarrow> True)"
  by (simp add: file_at_def is_gap_chunk)

lemma get_size_at:
  "file_at s xs A c ys B T \<Longrightarrow> chunk r c \<Longrightarrow> record_get_size (mem s) (length A) = Some (rsize r)"
  by (simp add: file_at_def get_size_chunk)

text \<open>The record that follows: either there is none, or it is the first one of \<open>ys\<close>.\<close>

lemma file_at_next:
  assumes "file_at s xs A c (r # ys) B T" "lay mid c"
  obtains c2 B2 where "file_at s (xs @ mid) (A @ c) c2 ys B2 T" "B = c2 @ B2" "chunk r c2"
    "file_at s xs A (c @ c2) ys B2 T"
proof -
  note f = assms(1) [unfolded file_at_def]
  then obtain c2 B2 where b: "B = c2 @ B2" "chunk r c2" "lay ys B2" by (auto simp: lay_Cons_iff)
  moreover have "lay (xs @ mid) (A @ c)" using f assms(2) unfolding lay_append_iff by blast
  ultimately show thesis using f by (intro that [of c2 B2]) (auto simp: file_at_def)
qed

lemma file_at_last:
  assumes "file_at s xs A c ys B T"
  shows "length A + length c = space s \<longleftrightarrow> ys = []"
proof -
  note f = assms [unfolded file_at_def]
  have "B = [] \<longleftrightarrow> ys = []"
  proof (cases ys)
    case (Cons r rs)
    with f obtain c2 B2 where "B = c2 @ B2" "chunk r c2" by (auto simp: lay_Cons_iff)
    then show ?thesis using Cons chunk_bounds [of r c2] chunk_length [of r c2] by auto
  qed (use f in simp)
  moreover have "length A + length c + length B = space s" using f by simp
  ultimately show ?thesis by (metis add_cancel_left_right length_0_conv)
qed

subsection \<open>Gaps\<close>

lemma make_gap_at:
  assumes "file_at s xs A c ys B T" "8 \<le> length c" "8 dvd length c"
  obtains c' where "record_init_gap (mem s) (length A) (length c) = Some (A @ c' @ B @ T)"
    "file_at (s\<lparr>mem := A @ c' @ B @ T\<rparr>) xs A c' ys B T" "chunk (Gap (length c)) c'"
proof -
  have lt: "length c < 2 ^ 32" using file_at_bounds [OF assms(1)] by linarith
  from init_gap_chunk [OF refl refl assms(2,3) lt, of A "B @ T"] obtain c' where
    "record_init_gap (A @ c @ B @ T) (length A) (length c) = Some (A @ c' @ B @ T)" "chunk (Gap (length c)) c'"
    by blast
  moreover from this have "file_at (s\<lparr>mem := A @ c' @ B @ T\<rparr>) xs A c' ys B T"
    using chunk_length by (intro file_at_upd [OF assms(1)]) fastforce
  moreover have "mem s = A @ c @ B @ T" using assms(1) by (simp add: file_at_def)
  ultimately show thesis by (intro that [of c']) simp_all
qed


lemma file_data_rep: "file_rep rs s \<Longrightarrow> file_data s (mset (datas 0 rs))"
  by (auto simp: file_data_def)

lemma lay_single: "lay [r] c \<longleftrightarrow> chunk r c"
  by (auto simp: lay_Cons_iff)

subsection \<open>Freeing a record\<close>

lemma dealloc_last:
  assumes "os_sane os" "file_at s xs A c [] [] T" "chunk (Data kv) c"
  shows "\<exists>s'. store_file_dealloc os (length A) s = Some s' \<and> file_data s' (mset (datas 0 xs)) \<and> same_index s s'"
proof -
  note b = file_at_bounds [OF assms(2)] and l = chunk_length [OF assms(3)]
  have "lay xs (take (length A) (mem s))" "geometry s" using assms(2) by (auto simp: file_at_def)
  moreover have "length A < filesz s" using b chunk_bounds [OF assms(3)] l by simp
  ultimately obtain m where m: "store_set_space (length A) s = Some (s\<lparr>space := length A, mem := m\<rparr>)"
    "file_rep xs (s\<lparr>space := length A, mem := m\<rparr>)" "length A < filesz s"
    using set_space_rep [of s "length A" xs] by auto
  from trim_rep [OF assms(1) m(2)] m(3) obtain m' f where
    t: "store_file_trim os (s\<lparr>space := length A, mem := m\<rparr>) = Some (s\<lparr>space := length A, mem := m', filesz := f\<rparr>)"
    "file_rep xs (s\<lparr>space := length A, mem := m', filesz := f\<rparr>)" by auto
  have "add32 (length A) (length c) = space s" using b by (simp add: add32_id)
  then show ?thesis using m t l info_sz_at [OF assms(2,3)] file_data_rep [OF t(2)]
    by (simp add: store_file_dealloc_def same_index_def)
qed

lemma dealloc_inner:
  assumes "file_at s xs A c (r # ys) B T" "chunk (Data kv) c"
  shows "\<exists>s'. store_file_dealloc os (length A) s = Some s' \<and>
    file_data s' (mset (datas 0 xs) + mset (datas (length A + length c) (r # ys))) \<and> same_index s s'"
proof -
  from assms(2) have mid: "lay [Data kv] c" by (simp add: lay_single)
  from file_at_next [OF assms(1) mid] obtain c2 B2 where n: "file_at s (xs @ [Data kv]) (A @ c) c2 ys B2 T"
    "B = c2 @ B2" "chunk r c2" "file_at s xs A (c @ c2) ys B2 T" .
  note l = chunk_length [OF assms(2)] chunk_length [OF n(3)]
  note cb = chunk_bounds [OF assms(2)] chunk_bounds [OF n(3)]
  note b = file_at_bounds [OF n(4)]
  have ao: "add32 (length A) (info_size (length kv)) = length A + length c"
    "add32 (info_size (length kv)) (length c2) = length (c @ c2)"
    "length A + length c \<noteq> space s"
    using b l file_at_last [OF assms(1)] by (auto simp: add32_id)
  note gap = is_gap_at [OF n(1,3)] and gsz = get_size_at [OF n(1,3)] and isz = info_sz_at [OF assms]
  show ?thesis
  proof (cases r)
    case (Data kv2)
    from make_gap_at [OF assms(1)] cb l obtain c' where
      g: "record_init_gap (mem s) (length A) (length c) = Some (A @ c' @ B @ T)"
      "file_at (s\<lparr>mem := A @ c' @ B @ T\<rparr>) xs A c' (r # ys) B T" "chunk (Gap (length c)) c'" by auto
    have "lay [Gap (length c)] c'" using g(3) by (simp add: lay_single)
    from file_at_data [OF g(2) this refl] show ?thesis
      using Data g(1) ao gap isz l chunk_length [OF g(3)]
      by (simp add: store_file_dealloc_def same_index_def)
  next
    case (Gap n)
    from make_gap_at [OF n(4)] cb l obtain c' where
      g: "record_init_gap (mem s) (length A) (length (c @ c2)) = Some (A @ c' @ B2 @ T)"
      "file_at (s\<lparr>mem := A @ c' @ B2 @ T\<rparr>) xs A c' ys B2 T" "chunk (Gap (length (c @ c2))) c'" by auto
    have "lay [Gap (length (c @ c2))] c'" using g(3) by (simp add: lay_single)
    from file_at_data [OF g(2) this refl] show ?thesis
      using Gap g(1) ao gap gsz isz l chunk_length [OF g(3)]
      by (simp add: store_file_dealloc_def same_index_def add.assoc)
  qed
qed

lemma dealloc_data:
  assumes "os_sane os" "file_data s (add_mset (a, kv) D)"
  shows "\<exists>s'. store_file_dealloc os a s = Some s' \<and> file_data s' D \<and> same_index s s'"
proof -
  from file_data_atE [OF assms(2)] obtain xs A c ys B T where f: "file_at s xs A c ys B T"
    "chunk (Data kv) c" "length A = a" "length c = info_size (length kv)"
    "D = mset (datas 0 xs) + mset (datas (a + info_size (length kv)) ys)" by metis
  show ?thesis
  proof (cases ys)
    case Nil
    with f have "B = []" by (simp add: file_at_def)
    with Nil f dealloc_last [OF assms(1), of s xs A c T kv] show ?thesis by auto
  next
    case (Cons r ys')
    with f dealloc_inner [of s xs A c r ys' B T kv os] show ?thesis by auto
  qed
qed

subsection \<open>Allocating at the end\<close>

lemma alloc_at_space_data:
  assumes "geometry s" "lay rs (take (space s) (mem s))" "space s + info_size sz \<le> filesz s"
    "0 < sz" "sz < 65536"
  shows "\<exists>s' kv. file_alloc_at_space sz s = Some (Some (space s), s') \<and> length kv = sz \<and>
    file_data s' (add_mset (space s, kv) (mset (datas 0 rs))) \<and> same_index s s'"
proof -
  let ?n = "info_size sz"
  define M where "M = take (space s) (mem s)"
  define c where "c = take ?n (drop (space s) (mem s))"
  define R where "R = drop (space s + ?n) (mem s)"
  note g = assms(1) [unfolded geometry_def]
  have l: "length M = space s" "length c = ?n" "length R = filesz s - (space s + ?n)"
    using g assms(3) by (auto simp: M_def c_def R_def)
  have ms: "mem s = M @ c @ R"
    unfolding M_def c_def R_def by (metis append_take_drop_id drop_drop add.commute)
  have a: "add32 (space s) ?n = length M + length c" "sub32 (filesz s) (space s) = filesz s - space s"
    "sub32 (filesz s) (length M + length c) = length R"
    using g l assms(3) by (auto simp: u32_simps)
  have d: "8 dvd length R"
  proof -
    have "8 dvd space s" using lay_aligned [OF assms(2)] lay_length [OF assms(2)] l M_def by simp
    moreover have "8 dvd filesz s" using g page_size_8_dvd dvd_trans by blast
    ultimately show ?thesis using info_size_bounds [OF assms(5)] l by (simp add: dvd_diff_nat)
  qed
  obtain R' where R': "(if length M + length c < filesz s then record_init_gap (mem s) (length M + length c)
      (length R) else Some (mem s)) = Some (M @ c @ R')" "length R' = length R"
    "length M + length c < filesz s \<longrightarrow> chunk (Gap (length R)) R'"
  proof (cases "length M + length c < filesz s")
    case True
    with d l have "8 \<le> length R" by (simp add: dvd_imp_le)
    moreover have "length R < 2 ^ 32" using g l by linarith
    ultimately show thesis using init_gap_chunk [of "M @ c" "length M + length c" R "length R" "[]"] d True
      by (auto simp: ms intro!: that dest: chunk_length)
  qed (auto intro: that simp: ms)
  from init_data_chunk [OF l(1,2) assms(4,5)] obtain c' kv where
    c': "poke (M @ c @ R') (space s) (le_bytes 2 sz) = Some (M @ c' @ R')" "chunk (Data kv) c'" "length kv = sz"
    by blast
  let ?s = "s\<lparr>space := length M + length c, mem := M @ c' @ R'\<rparr>"
  have "file_at ?s rs M c' [] [] R'"
    using assms(2) g R' c' l ms assms(3) chunk_length [OF c'(2)]
    by (auto simp: file_at_def geometry_def M_def [symmetric])
  from file_at_data [OF this, of "[Data kv]"] have "file_data ?s (add_mset (space s, kv) (mset (datas 0 rs)))"
    using c'(2) l by (simp add: lay_single)
  moreover have "file_alloc_at_space sz s = Some (Some (space s), ?s)"
    using assms(3) unfolding file_alloc_at_space_def Let_def a R'(1) by (simp add: c'(1))
  ultimately show ?thesis using c'(3)
    by (intro exI [of _ ?s] exI [of _ kv]) (simp add: same_index_def)
qed

subsection \<open>Repacking\<close>

lemma repack_loop_data:
  assumes "offset < space s" "record_get_size (mem s) offset = Some sz" "record_is_gap (mem s) offset = Some False"
    "(if w \<noteq> offset then memmove (mem s) w offset sz else Some (mem s)) = Some m"
    "length idx < idx_max s" "offset + sz < 2 ^ 32" "w + sz < 2 ^ 32"
  shows "repack_loop os (Suc k) offset w idx s =
    repack_loop os k (offset + sz) (w + sz) (idx @ [Some w]) (s\<lparr>mem := m\<rparr>)"
  using assms by (simp add: store_index_ensure_def add32_id)

lemma repack_loop_rep:
  assumes "mem s = W @ J @ M @ T" "lay rs M" "space s = length (W @ J @ M)" "space s < 2 ^ 32"
    "length rs < k" "length idx + length (filter is_data rs) \<le> idx_max s"
  shows "\<exists>W' J'. repack_loop os k (length (W @ J)) (length W) idx s =
      Some (length (W @ W'), idx @ map (Some \<circ> fst) (datas (length W) (filter is_data rs)),
        s\<lparr>mem := W @ W' @ J' @ T\<rparr>) \<and>
    lay (filter is_data rs) W' \<and> length (W' @ J') = length (J @ M)"
  using assms
proof (induction k arbitrary: W J M rs idx s)
  case (Suc k)
  show ?case
  proof (cases rs)
    case Nil
    with Suc.prems show ?thesis by (auto intro: exI [of _ J])
  next
    case (Cons r rs')
    with Suc.prems(2) obtain c M' where c: "M = c @ M'" "chunk r c" "lay rs' M'" by (auto simp: lay_Cons_iff)
    have ms: "mem s = (W @ J) @ c @ M' @ T" using Suc.prems(1) c by simp
    note l = chunk_length [OF c(2)] and cb = chunk_bounds [OF c(2)]
    have lt: "length (W @ J) < space s" "length (W @ J) + length c < 2 ^ 32" "length W + length c < 2 ^ 32"
      using Suc.prems(3,4) c(1) cb l by auto
    note gap = is_gap_chunk [OF c(2) refl, of "W @ J" "M' @ T", folded ms]
      and gsz = get_size_chunk [OF c(2) refl, of "W @ J" "M' @ T", folded ms]
    show ?thesis
    proof (cases r)
      case (Gap n)
      with Suc.IH [of s W "J @ c" M' rs' idx] Suc.prems Cons c obtain W' J' where
        "repack_loop os k (length (W @ J @ c)) (length W) idx s =
          Some (length (W @ W'), idx @ map (Some \<circ> fst) (datas (length W) (filter is_data rs')),
            s\<lparr>mem := W @ W' @ J' @ T\<rparr>)"
        "lay (filter is_data rs') W'" "length (W' @ J') = length (J @ c @ M')" by auto
      with Gap Cons gap gsz lt l c show ?thesis
        by (rule_tac exI [of _ W'], rule_tac exI [of _ J']) (simp add: add32_id add.assoc)
    next
      case (Data kv)
      define J2 where "J2 = drop (length c) (J @ c)"
      let ?s = "s\<lparr>mem := (W @ c) @ J2 @ M' @ T\<rparr>"
      have J2: "length J2 = length J" by (simp add: J2_def)
      have mv: "(if length W \<noteq> length (W @ J) then memmove (mem s) (length W) (length (W @ J)) (length c)
          else Some (mem s)) = Some (mem ?s)"
        by (simp add: ms memmove_def peek_def poke_def J2_def)
      have cap: "length idx < idx_max s" using Suc.prems(6) Cons Data by simp
      from Suc.IH [of ?s "W @ c" J2 M' rs' "idx @ [Some (length W)]"] Suc.prems Cons c J2 Data
        obtain W' J' where
        ih: "repack_loop os k (length ((W @ c) @ J2)) (length (W @ c)) (idx @ [Some (length W)]) ?s =
          Some (length ((W @ c) @ W'), (idx @ [Some (length W)]) @
            map (Some \<circ> fst) (datas (length (W @ c)) (filter is_data rs')), ?s\<lparr>mem := (W @ c) @ W' @ J' @ T\<rparr>)"
        "lay (filter is_data rs') W'" "length (W' @ J') = length (J2 @ M')" by auto
      have "repack_loop os (Suc k) (length (W @ J)) (length W) idx s =
          repack_loop os k (length ((W @ c) @ J2)) (length (W @ c)) (idx @ [Some (length W)]) ?s"
        using repack_loop_data [OF lt(1) _ _ mv cap lt(2,3)] gap gsz Data l J2
        by (simp add: add.commute add.left_commute)
      moreover have "lay (filter is_data rs) (c @ W')" using Cons Data c ih by (auto simp: lay_Cons_iff)
      ultimately show ?thesis using ih Data Cons l J2 c(1)
        by (rule_tac exI [of _ "c @ W'"], rule_tac exI [of _ J']) simp
    qed
  qed
qed simp

lemma drop_data:
  assumes "length A = a" "chunk (Data kv) c"
  shows "\<exists>R. drop (a + 2) (A @ c @ B) = kv @ R"
proof -
  have "length kv + 2 \<le> length c" using assms(2) info_size_bounds(1) [of "length kv"] by simp
  moreover have "take (length kv) (drop 2 c) = kv" using assms(2) by simp
  then have "drop 2 c = kv @ drop (length kv) (drop 2 c)" by (metis append_take_drop_id)
  ultimately have "drop (a + 2) (A @ c @ B) = kv @ drop (length kv) (drop 2 c) @ B"
    using assms(1) by (simp del: drop_drop)
  then show ?thesis by blast
qed

lemma file_rep_key:
  assumes "file_rep rs s" "(a, kv) \<in> set (datas 0 rs)"
  shows "\<exists>R. drop (a + 2) (mem s) = kv @ R"
proof -
  from assms have "file_data s (add_mset (a, kv) (mset (datas 0 rs) - {#(a, kv)#}))"
    by (auto simp: file_data_def intro!: exI [of _ rs])
  then obtain xs A c ys B T where "file_at s xs A c ys B T" "chunk (Data kv) c" "length A = a"
    by (metis file_data_atE)
  then show ?thesis using drop_data [of A a kv c "B @ T"] by (simp add: file_at_def)
qed

lemma lay_length_le: "lay rs m \<Longrightarrow> length rs \<le> tsize rs"
proof (induction rs arbitrary: m)
  case (Cons r rs)
  then obtain c m' where "chunk r c" "lay rs m'" by (auto simp: lay_Cons_iff)
  with Cons.IH chunk_bounds [of r c] show ?case by fastforce
qed simp

lemma insort_key_map: "insort_key f (g x) (map g xs) = map g (insort_key (f \<circ> g) x xs)"
  by (induction xs) auto

lemma sort_key_map: "sort_key f (map g xs) = map g (sort_key (f \<circ> g) xs)"
  by (induction xs) (simp_all only: list.map sort_key_simps insort_key_map)

lemma those_map_Some: "(\<And>x. x \<in> set xs \<Longrightarrow> f x = Some (g x)) \<Longrightarrow> those (map f xs) = Some (map g xs)"
  by (induction xs) auto

lemma qsort_datas:
  assumes "\<And>a kv. (a, kv) \<in> set ds \<Longrightarrow> has_nul kv \<and> (\<exists>R. drop (a + 2) m = kv @ R)"
  shows "qsort_index m (map (Some \<circ> fst) ds) = Some (map (Some \<circ> fst) (sort_key (cstr \<circ> snd) ds))"
proof (cases "length ds < 2")
  case True
  then have "ds = [] \<or> (\<exists>d. ds = [d])" by (cases ds) auto
  then show ?thesis by (auto simp: qsort_index_def)
next
  case False
  have "info_key m (Some (fst d)) = Some (cstr (snd d))" if "d \<in> set ds" for d
    using assms [of "fst d" "snd d"] that by (auto simp: info_key_def cstr_at_def cstr_append_nul)
  then have "those (map (info_key m) (map (Some \<circ> fst) ds)) = Some (map (cstr \<circ> snd) ds)"
    unfolding map_map by (intro those_map_Some) simp
  moreover have "zip (map (cstr \<circ> snd) ds) (map (Some \<circ> fst) ds) = map (\<lambda>d. (cstr (snd d), Some (fst d))) ds"
    by (simp add: zip_map_map zip_same_conv_map)
  ultimately show ?thesis using False by (simp add: qsort_index_def sort_key_map comp_def)
qed

lemma repack_rep:
  assumes "file_rep rs s" "\<And>a kv. (a, kv) \<in> set (datas 0 rs) \<Longrightarrow> has_nul kv"
    "length (filter is_data rs) \<le> idx_max s"
  obtains m sp where "store_repack os s = Some (s\<lparr>space := sp, mem := m,
      index := map (Some \<circ> fst) (sort_key (cstr \<circ> snd) (datas 0 (filter is_data rs)))\<rparr>)"
    "file_rep (filter is_data rs) (s\<lparr>space := sp, mem := m\<rparr>)" "sp \<le> space s"
proof -
  let ?rs = "filter is_data rs"
  from assms(1) obtain M T where f: "mem s = M @ T" "lay rs M" "length M = space s" "geometry s"
    "space s \<le> filesz s" "filesz s < 2 ^ 32" "tsize rs = space s" by (rule file_repE)
  have "length rs < space s + 1" using f(2,7) lay_length_le by fastforce
  from repack_loop_rep [of s "[]" "[]" M T rs, OF _ f(2) _ _ this, of "[]" os] f assms(3)
  obtain W' J' where w: "repack_loop os (space s + 1) 0 0 [] s =
      Some (length W', map (Some \<circ> fst) (datas 0 ?rs), s\<lparr>mem := W' @ J' @ T\<rparr>)"
    "lay ?rs W'" "length (W' @ J') = length M" by auto
  let ?sp = "length W'" and ?m1 = "W' @ J' @ T"
  let ?s1 = "s\<lparr>space := ?sp, mem := ?m1\<rparr>"
  have sp: "?sp \<le> space s" using w(3) f(3) by simp
  have g1: "geometry ?s1" using f sp w(3) by (auto simp: geometry_def)
  obtain m where m: "(if ?sp < filesz s then record_init_gap ?m1 ?sp (sub32 (filesz s) ?sp) else Some ?m1) = Some m"
    "take ?sp m = W'" "geometry (s\<lparr>mem := m\<rparr>)"
  proof (cases "?sp < filesz s")
    case True
    with tail_gap [OF g1, of ?rs] w(2) obtain m where "record_init_gap ?m1 ?sp (sub32 (filesz s) ?sp) = Some m"
      "take ?sp m = W'" "length m = filesz s" by auto
    with True f(4) show thesis by (intro that [of m]) (auto simp: geometry_def)
  next
    case False
    with g1 f show thesis by (intro that [of ?m1]) (auto simp: geometry_def)
  qed
  from set_space_rep [OF m(3), of ?sp ?rs] m(2) w(2) sp f(5) obtain m' where
    m': "store_set_space ?sp (s\<lparr>mem := m\<rparr>) = Some (s\<lparr>space := ?sp, mem := m'\<rparr>)"
      "file_rep ?rs (s\<lparr>space := ?sp, mem := m'\<rparr>)" by auto
  have "has_nul kv \<and> (\<exists>R. drop (a + 2) m' = kv @ R)" if "(a, kv) \<in> set (datas 0 ?rs)" for a kv
  proof -
    from that have "kv \<in> snd ` set (datas 0 ?rs)" by force
    also have "\<dots> = snd ` set (datas 0 rs)" using datas_filter_snd [of 0 rs 0] by (metis list.set_map)
    finally show ?thesis using assms(2) file_rep_key [OF m'(2) that] by auto
  qed
  note q = qsort_datas [of "datas 0 ?rs" m', OF this]
  have "store_repack os s = Some (s\<lparr>space := ?sp, mem := m',
      index := map (Some \<circ> fst) (sort_key (cstr \<circ> snd) (datas 0 ?rs))\<rparr>)"
    using sp m(1) m'(1) q unfolding store_repack_def w(1)
    by (simp cong: if_cong split del: if_split)
  then show thesis using m'(2) sp by (rule that)
qed

end
