(* ===== verification/Store_Correct.thy ===== *)
theory Store_Correct
  imports Store_File
begin

text \<open>
  The store refines a sorted list of keyvalues, hence a finite map from keys: the abstract
  operations, the representation relation between them and \<^verbatim>\<open>struct store\<close>, the binary search,
  and the operations \<^verbatim>\<open>store_put\<close>, \<^verbatim>\<open>store_del\<close>, \<^verbatim>\<open>store_get\<close> and the iteration.
\<close>

subsection \<open>Definitions\<close>

text \<open>
  What a store holds, seen from outside: the list of its keyvalues in key order.  A keyvalue is
  a NUL-terminated key followed by the value; the keys are distinct.
\<close>

definition kvs_ok :: "bytes list \<Rightarrow> bool" where
  "kvs_ok kvs \<longleftrightarrow> sorted_wrt (<) (map cstr kvs) \<and> (\<forall>kv\<in>set kvs. has_nul kv)"

definition kv_map :: "bytes list \<Rightarrow> bytes \<rightharpoonup> bytes" where
  "kv_map kvs = map_of (map (\<lambda>kv. (cstr kv, kv)) kvs)"

definition kv_pos :: "bytes \<Rightarrow> bytes list \<Rightarrow> nat" where
  "kv_pos k kvs = length (takeWhile (\<lambda>kv. cstr kv < k) kvs)"

definition kv_put :: "bytes \<Rightarrow> bytes list \<Rightarrow> bytes list" where
  "kv_put kv kvs = takeWhile (\<lambda>x. cstr x < cstr kv) kvs @ kv # dropWhile (\<lambda>x. cstr x \<le> cstr kv) kvs"

definition kv_del :: "bytes \<Rightarrow> bytes list \<Rightarrow> bytes list" where
  "kv_del k kvs = filter (\<lambda>kv. cstr kv \<noteq> k) kvs"

definition index_rep :: "store \<Rightarrow> (nat \<times> bytes) list \<Rightarrow> bool" where
  "index_rep s ents \<longleftrightarrow> index s = map (Some \<circ> fst) ents \<and> length ents \<le> idx_max s"

definition store_rep :: "store \<Rightarrow> (nat \<times> bytes) list \<Rightarrow> bool" where
  "store_rep s ents \<longleftrightarrow> file_data s (mset ents) \<and> index_rep s ents \<and> kvs_ok (map snd ents)"

definition store_holds :: "store \<Rightarrow> bytes list \<Rightarrow> bool" where
  "store_holds s kvs \<longleftrightarrow> (\<exists>ents. store_rep s ents \<and> map snd ents = kvs)"

definition alloc_may_fail :: "os \<Rightarrow> store \<Rightarrow> nat \<Rightarrow> bool" where
  "alloc_may_fail os s sz \<longleftrightarrow> (\<exists>n. \<not> os_mmap os n) \<or> 2 ^ 32 \<le> filesz s + info_size sz + pagesize s"

text \<open>
  The outcome of resizing the entry between \<open>L\<close> and \<open>R\<close>: on success the other entries are
  kept, and the index points to an entry with room for \<open>n\<close> bytes.  When no memory can be had
  the entry is gone.
\<close>

definition resized :: "(nat \<times> bytes) list \<Rightarrow> (nat \<times> bytes) list \<Rightarrow> nat \<Rightarrow> nat \<Rightarrow> store \<Rightarrow> bool" where
  "resized L R n a s' \<longleftrightarrow> (\<exists>L' R' kv. file_data s' (mset (L' @ (a, kv) # R')) \<and> index_rep s' (L' @ (a, kv) # R') \<and>
     length kv = n \<and> map snd L' = map snd L \<and> map snd R' = map snd R)"

definition realloc_ok ::
  "os \<Rightarrow> store \<Rightarrow> (nat \<times> bytes) list \<Rightarrow> (nat \<times> bytes) list \<Rightarrow> nat \<Rightarrow> (nat option \<times> store) option \<Rightarrow> bool" where
  "realloc_ok os s L R n res \<longleftrightarrow>
     (\<exists>a s'. res = Some (Some a, s') \<and> resized L R n a s') \<or>
     (\<exists>s' ents'. res = Some (None, s') \<and> store_rep s' ents' \<and> map snd ents' = map snd (L @ R) \<and>
        alloc_may_fail os s n)"

text \<open>The entry \<open>(a, kv0)\<close> of the index in the file.\<close>

definition entry_at ::
  "store \<Rightarrow> (nat \<times> bytes) list \<Rightarrow> nat \<Rightarrow> bytes \<Rightarrow> (nat \<times> bytes) list \<Rightarrow> frec list \<Rightarrow> bytes \<Rightarrow> bytes \<Rightarrow> frec list \<Rightarrow> bytes \<Rightarrow> bytes \<Rightarrow> bool" where
  "entry_at s L a kv0 R xs A c ys B T \<longleftrightarrow> store_rep s (L @ (a, kv0) # R) \<and> file_at s xs A c ys B T \<and>
     chunk (Data kv0) c \<and> length A = a \<and> mset (L @ R) = mset (datas 0 xs) + mset (datas (length A + length c) ys)"

definition put_may_fail :: "os \<Rightarrow> store \<Rightarrow> bytes \<Rightarrow> bool" where
  "put_may_fail os s kv \<longleftrightarrow> alloc_may_fail os s (length kv) \<or> (\<exists>n. \<not> os_realloc os n)"

subsection \<open>The abstract store\<close>

subsection \<open>The representation\<close>

subsection \<open>Positions in a sorted list\<close>

lemma kvs_ok_Cons: "kvs_ok (x # xs) \<longleftrightarrow> has_nul x \<and> (\<forall>y\<in>set xs. cstr x < cstr y) \<and> kvs_ok xs"
  by (auto simp: kvs_ok_def)

lemma kvs_ok_append: "kvs_ok (xs @ ys) \<longleftrightarrow> kvs_ok xs \<and> kvs_ok ys \<and> (\<forall>x\<in>set xs. \<forall>y\<in>set ys. cstr x < cstr y)"
  by (auto simp: kvs_ok_def sorted_wrt_append)

lemma kvs_ok_inj: "kvs_ok xs \<Longrightarrow> inj_on cstr (set xs)"
  by (simp add: kvs_ok_def strict_sorted_iff distinct_map)

lemma kvs_ok_sorted: "kvs_ok xs \<Longrightarrow> sorted (map cstr xs)"
  by (induction xs) (auto simp: kvs_ok_Cons less_imp_le)

lemma kv_pos_le: "kv_pos k kvs \<le> length kvs"
  by (simp add: kv_pos_def length_takeWhile_le)

lemma kv_pos_less: "i < kv_pos k kvs \<Longrightarrow> cstr (kvs ! i) < k"
  unfolding kv_pos_def by (metis nth_mem set_takeWhileD takeWhile_nth)

lemma kv_pos_ge:
  assumes "kvs_ok kvs" "kv_pos k kvs \<le> i" "i < length kvs"
  shows "k \<le> cstr (kvs ! i)"
proof -
  let ?p = "kv_pos k kvs"
  have p: "?p < length kvs" using assms by simp
  have "\<not> cstr (kvs ! ?p) < k" using p nth_length_takeWhile [of "\<lambda>kv. cstr kv < k" kvs] by (simp add: kv_pos_def)
  moreover have "cstr (kvs ! ?p) \<le> cstr (kvs ! i)"
    using kvs_ok_sorted [OF assms(1)] assms(2,3) p by (metis length_map nth_map sorted_nth_mono)
  ultimately show ?thesis by simp
qed

lemma kv_pos_split:
  assumes "kvs_ok kvs"
  obtains (found) xs old ys where "kvs = xs @ old # ys" "cstr old = k" "length xs = kv_pos k kvs"
      "\<forall>x\<in>set xs. cstr x < k" "\<forall>y\<in>set ys. k < cstr y"
  | (absent) xs ys where "kvs = xs @ ys" "length xs = kv_pos k kvs"
      "\<forall>x\<in>set xs. cstr x < k" "\<forall>y\<in>set ys. k < cstr y"
proof -
  let ?p = "kv_pos k kvs"
  define xs ys where "xs = take ?p kvs" and "ys = drop ?p kvs"
  have kvs: "kvs = xs @ ys" "length xs = ?p" using kv_pos_le [of k kvs] by (auto simp: xs_def ys_def)
  have x: "\<forall>x\<in>set xs. cstr x < k" using kv_pos_less [of _ k kvs] kvs
    by (metis in_set_conv_nth nth_append)
  have y: "\<forall>y\<in>set ys. k \<le> cstr y"
  proof
    fix y assume "y \<in> set ys"
    then obtain j where "j < length ys" "y = ys ! j" by (metis in_set_conv_nth)
    then have "?p + j < length kvs" "y = kvs ! (?p + j)" using kvs by (auto simp: nth_append)
    then show "k \<le> cstr y" using kv_pos_ge [OF assms, of k "?p + j"] by simp
  qed
  show thesis
  proof (cases "ys \<noteq> [] \<and> cstr (hd ys) = k")
    case True
    then obtain old ys' where "ys = old # ys'" "cstr old = k" by (cases ys) auto
    moreover from this have "\<forall>y\<in>set ys'. k < cstr y" using assms kvs by (auto simp: kvs_ok_append kvs_ok_Cons)
    ultimately show thesis using kvs x by (intro found) auto
  next
    case False
    have "\<forall>y\<in>set ys. k < cstr y"
    proof (cases ys)
      case (Cons y' ys')
      then have "k < cstr y'" using False y by (simp add: order.strict_iff_order)
      moreover have "\<forall>y\<in>set ys'. cstr y' < cstr y" using assms kvs Cons by (auto simp: kvs_ok_append kvs_ok_Cons)
      ultimately show ?thesis using Cons by (auto intro: less_trans)
    qed simp
    then show thesis using kvs x by (intro absent)
  qed
qed

lemma kv_put_append:
  assumes "\<forall>x\<in>set xs. cstr x < cstr kv" "\<forall>y\<in>set ys. cstr kv < cstr y"
  shows "kv_put kv (xs @ ys) = xs @ kv # ys"
proof -
  have "takeWhile (\<lambda>x. cstr x < cstr kv) ys = []" "dropWhile (\<lambda>x. cstr x \<le> cstr kv) ys = ys"
    using assms(2) by (cases ys; auto)+
  then show ?thesis using assms(1) by (auto simp: kv_put_def takeWhile_append2 dropWhile_append2 less_imp_le)
qed

lemma kv_put_replace:
  assumes "\<forall>x\<in>set xs. cstr x < cstr kv" "\<forall>y\<in>set ys. cstr kv < cstr y" "cstr old = cstr kv"
  shows "kv_put kv (xs @ old # ys) = xs @ kv # ys"
proof -
  have "dropWhile (\<lambda>x. cstr x \<le> cstr kv) ys = ys" using assms(2) by (cases ys) auto
  then show ?thesis using assms(1,3) by (auto simp: kv_put_def takeWhile_append2 dropWhile_append2 less_imp_le)
qed

lemma kv_del_append:
  assumes "\<forall>x\<in>set xs. cstr x < k" "\<forall>y\<in>set ys. k < cstr y"
  shows "kv_del k (xs @ ys) = xs @ ys" "cstr old = k \<Longrightarrow> kv_del k (xs @ old # ys) = xs @ ys"
proof -
  have "filter (\<lambda>kv. cstr kv \<noteq> k) xs = xs" "filter (\<lambda>kv. cstr kv \<noteq> k) ys = ys"
    using assms by (auto intro!: filter_True)
  then show "kv_del k (xs @ ys) = xs @ ys" "cstr old = k \<Longrightarrow> kv_del k (xs @ old # ys) = xs @ ys"
    by (auto simp: kv_del_def)
qed

lemma kvs_ok_put:
  assumes "kvs_ok kvs" "has_nul kv"
  shows "kvs_ok (kv_put kv kvs)"
  using assms(1)
proof (cases rule: kv_pos_split [where k = "cstr kv"])
  case (found xs old ys)
  with assms show ?thesis by (auto simp: kv_put_replace kvs_ok_append kvs_ok_Cons)
next
  case (absent xs ys)
  with assms show ?thesis by (auto simp: kv_put_append kvs_ok_append kvs_ok_Cons)
qed

lemma kvs_ok_del: "kvs_ok kvs \<Longrightarrow> kvs_ok (kv_del k kvs)"
  by (auto simp: kvs_ok_def kv_del_def sorted_wrt_map sorted_wrt_filter)

lemma kv_map_append: "kv_map (xs @ ys) = kv_map ys ++ kv_map xs"
  by (simp add: kv_map_def)

lemma kv_map_Cons: "kv_map (x # xs) = (kv_map xs)(cstr x \<mapsto> x)"
  by (simp add: kv_map_def)

lemma kv_map_dom: "dom (kv_map kvs) = cstr ` set kvs"
  by (simp add: kv_map_def dom_map_of_conv_image_fst image_image)

lemma kv_map_put:
  assumes "kvs_ok kvs"
  shows "kv_map (kv_put kv kvs) = (kv_map kvs)(cstr kv \<mapsto> kv)"
  using assms
proof (cases rule: kv_pos_split [where k = "cstr kv"])
  case (found xs old ys)
  then have "cstr kv \<notin> dom (kv_map xs)" by (auto simp: kv_map_dom)
  then show ?thesis using found by (simp add: kv_put_replace kv_map_append kv_map_Cons map_add_upd_left)
next
  case (absent xs ys)
  then have "cstr kv \<notin> dom (kv_map xs)" by (auto simp: kv_map_dom)
  then show ?thesis using absent by (simp add: kv_put_append kv_map_append kv_map_Cons map_add_upd_left)
qed

lemma kv_map_del: "kv_map (kv_del k kvs) = (kv_map kvs)(k := None)"
  by (induction kvs) (auto simp: kv_map_def kv_del_def)

subsection \<open>Reading keys through the index\<close>

lemma file_data_key:
  assumes "file_data s D" "(a, kv) \<in># D"
  shows "\<exists>R. drop (a + 2) (mem s) = kv @ R"
  using assms file_rep_key by (fastforce simp: file_data_def)

lemma index_at_rep: "index_rep s ents \<Longrightarrow> i < length ents \<Longrightarrow> index_at s i = Some (fst (ents ! i))"
  by (simp add: index_rep_def index_at_def)

lemma key_cmp_rep:
  assumes "store_rep s ents" "i < length ents"
  obtains r where "key_cmp s key i = Some r"
    "r = 0 \<longleftrightarrow> cstr key = cstr (map snd ents ! i)" "r < 0 \<longleftrightarrow> cstr key < cstr (map snd ents ! i)"
    "0 < r \<longleftrightarrow> cstr (map snd ents ! i) < cstr key"
proof -
  obtain a kv where e: "ents ! i = (a, kv)" by (cases "ents ! i")
  then have "(a, kv) \<in># mset ents" using assms(2) by (metis nth_mem set_mset_mset)
  then obtain R where R: "drop (a + 2) (mem s) = kv @ R" "has_nul kv"
    using assms(1) file_data_key [of s "mset ents" a kv] by (force simp: store_rep_def kvs_ok_def)
  then obtain r where r: "strcmp key (kv @ R) = Some r" using strcmp_total [of "kv @ R" key] by auto
  have n: "has_nul (kv @ R)" "cstr (kv @ R) = cstr kv" using R by (auto simp: cstr_append_nul)
  show thesis
  proof (rule that [of r])
    show "key_cmp s key i = Some r"
      using assms e R r index_at_rep [of s ents i] by (simp add: key_cmp_def store_rep_def)
  qed (use n r e assms(2) strcmp_eq_0 [of "kv @ R" key r] strcmp_less_0 [of "kv @ R" key r]
      strcmp_greater_0 [of "kv @ R" key r] in simp_all)
qed

subsection \<open>Binary search\<close>

lemma find_loop_rep:
  assumes "store_rep s ents" "a \<le> p" "p \<le> b" "b \<le> length ents" "p = kv_pos (cstr key) (map snd ents)"
  shows "\<exists>m b'. find_loop s key a b = Some (m, b') \<and> b' \<le> length ents \<and> m \<le> p \<and> p \<le> m + 1 \<and> (p = m \<or> m < b')"
  using assms
proof (induction s key a b rule: find_loop.induct)
  case (1 s key a b)
  let ?m = "(a + b) div 2"
  let ?K = "\<lambda>i. cstr (map snd ents ! i)"
  have ok: "kvs_ok (map snd ents)" using "1.prems"(1) by (simp add: store_rep_def)
  show ?case
  proof (cases "a < ?m")
    case True
    then have m: "?m < length ents" "?m < b" using "1.prems" by auto
    from key_cmp_rep [OF "1.prems"(1) m(1), where key = key] obtain r where r: "key_cmp s key ?m = Some r"
      "r = 0 \<longleftrightarrow> cstr key = ?K ?m" "r < 0 \<longleftrightarrow> cstr key < ?K ?m" "0 < r \<longleftrightarrow> ?K ?m < cstr key" by metis
    have lt: "?m < p \<Longrightarrow> ?K ?m < cstr key" using kv_pos_less "1.prems"(5) by blast
    have ge: "p \<le> ?m \<Longrightarrow> cstr key \<le> ?K ?m" using kv_pos_ge [OF ok] m "1.prems"(5) by simp
    consider "r = 0" | "r < 0" | "0 < r" by linarith
    then show ?thesis
    proof cases
      assume "r = 0"
      with r lt have "p \<le> ?m" by fastforce
      moreover have "?m \<le> p"
      proof (rule ccontr)
        assume "\<not> ?m \<le> p"
        then have "?K p < ?K ?m" using ok m by (auto simp: kvs_ok_def sorted_wrt_iff_nth_less)
        moreover have "cstr key \<le> ?K p" using kv_pos_ge [OF ok, of "cstr key" p] "1.prems"(5) \<open>\<not> ?m \<le> p\<close> m by simp
        ultimately show False using r \<open>r = 0\<close> by simp
      qed
      ultimately show ?thesis using True r \<open>r = 0\<close> m "1.prems"(4)
        by (subst find_loop.simps) (simp add: Let_def)
    next
      assume neg: "r < 0"
      with r lt have "p \<le> ?m" by fastforce
      with "1.IH"(1) [OF refl True r(1)] neg r m "1.prems" True show ?thesis
        by (subst find_loop.simps) (simp add: Let_def)
    next
      assume pos: "0 < r"
      with r ge have "?m < p" by fastforce
      with "1.IH"(2) [OF refl True r(1)] pos r m "1.prems" True show ?thesis
        by (subst find_loop.simps) (simp add: Let_def)
    qed
  next
    case False
    then have "b \<le> a + 1" "?m = a" using "1.prems"(2,3) by auto
    then show ?thesis using False "1.prems"
      by (subst find_loop.simps) (auto simp: Let_def)
  qed
qed

lemma store_find_rep:
  assumes "store_rep s ents"
  shows "store_find s key = Some (kv_pos (cstr key) (map snd ents))"
proof -
  let ?p = "kv_pos (cstr key) (map snd ents)"
  have ok: "kvs_ok (map snd ents)" "length (index s) = length ents"
    using assms by (auto simp: store_rep_def index_rep_def)
  obtain m b where f: "find_loop s key 0 (length (index s)) = Some (m, b)" "b \<le> length ents" "m \<le> ?p" "?p \<le> m + 1"
    "?p = m \<or> m < b" using find_loop_rep [OF assms, of 0 ?p "length ents" key] kv_pos_le [of "cstr key" "map snd ents"] ok by auto
  show ?thesis
  proof (cases "m < b")
    case True
    then have m: "m < length ents" using f by simp
    from key_cmp_rep [OF assms m, where key = key] obtain r where r: "key_cmp s key m = Some r"
      "0 < r \<longleftrightarrow> cstr (map snd ents ! m) < cstr key" by metis
    have "0 < r \<longleftrightarrow> m < ?p" using r(2) kv_pos_less [of m "cstr key" "map snd ents"]
      kv_pos_ge [OF ok(1), of "cstr key" m] m by fastforce
    then show ?thesis using f r True by (auto simp: store_find_def)
  next
    case False
    then show ?thesis using f by (simp add: store_find_def)
  qed
qed

lemma store_eq_rep:
  assumes "store_rep s ents" "i \<le> length ents"
  shows "store_eq s i key = Some (i < length ents \<and> cstr (map snd ents ! i) = cstr key)"
proof (cases "i < length ents")
  case True
  from key_cmp_rep [OF assms(1) True, where key = key] obtain r where
    "key_cmp s key i = Some r" "r = 0 \<longleftrightarrow> cstr key = cstr (map snd ents ! i)" by metis
  then show ?thesis using True assms(1) by (auto simp: store_eq_def store_rep_def index_rep_def)
qed (use assms in \<open>simp add: store_eq_def store_rep_def index_rep_def\<close>)

subsection \<open>Allocation\<close>

lemma roundup_page_pos:
  assumes "page_size_ok p" "0 < n" "n + p \<le> 2 ^ 32"
  shows "0 < roundup n p"
proof -
  from assms(1) obtain k where k: "p = 2 ^ k" "k < 32" by (metis page_size_okE)
  then have "roundup n p = p * ((n + (p - 1)) div p)" using roundup_eq assms(3) by simp
  moreover have "0 < p" using k by simp
  then have "p \<le> n + (p - 1)" using assms(2) by linarith
  ultimately show ?thesis using \<open>0 < p\<close> by (simp add: div_greater_zero_iff)
qed

lemma repack_store:
  assumes "store_rep s ents"
  obtains s' ents' where "store_repack os s = Some s'" "store_rep s' ents'" "map snd ents' = map snd ents"
    "filesz s' = filesz s" "pagesize s' = pagesize s" "idx_max s' = idx_max s"
proof -
  note r = assms [unfolded store_rep_def index_rep_def]
  from r obtain rs where rs: "file_rep rs s" "mset (datas 0 rs) = mset ents" by (auto simp: file_data_def)
  have nul: "has_nul kv" if "(a, kv) \<in> set (datas 0 rs)" for a kv
    using that r mset_eq_setD [OF rs(2)] by (force simp: kvs_ok_def)
  have "length (filter is_data rs) \<le> idx_max s"
    using mset_eq_length [OF rs(2)] r length_datas_eq [of 0 rs] by simp
  then obtain m sp where
    k: "store_repack os s = Some (s\<lparr>space := sp, mem := m,
      index := map (Some \<circ> fst) (sort_key (cstr \<circ> snd) (datas 0 (filter is_data rs)))\<rparr>)"
    "file_rep (filter is_data rs) (s\<lparr>space := sp, mem := m\<rparr>)" "sp \<le> space s"
    using repack_rep [OF rs(1), where os = os] nul by metis
  let ?ds = "datas 0 (filter is_data rs)" let ?ents = "sort_key (cstr \<circ> snd) ?ds"
  let ?s = "s\<lparr>space := sp, mem := m, index := map (Some \<circ> fst) ?ents\<rparr>"
  have kv: "mset (map snd ?ds) = mset (map snd ents)"
    using rs(2) datas_filter_snd [of 0 rs 0] by (metis mset_map)
  then have "sort_key cstr (map snd ?ds) = map snd ents"
    using r kvs_ok_inj [of "map snd ents"] kvs_ok_sorted [of "map snd ents"] mset_eq_setD [OF kv]
    by (intro sort_key_inj_key_eq) auto
  then have snd: "map snd ?ents = map snd ents" by (simp add: sort_key_map)
  have "length ?ents = length ents" using arg_cong [OF snd, of length] by simp
  then have "store_rep ?s ?ents" using snd r file_data_rep [OF k(2)]
    by (simp add: store_rep_def index_rep_def)
  then show thesis using k(1) snd by (intro that [of ?s ?ents]) simp_all
qed

lemma alloc_room:
  assumes "file_data s D" "info_size sz \<le> filesz s - space s" "0 < sz" "sz < 65536"
  obtains a kv s' where "file_alloc_at_space sz s = Some (Some a, s')" "length kv = sz"
    "file_data s' (add_mset (a, kv) D)" "same_index s s'"
proof -
  from assms(1) obtain rs where rs: "file_rep rs s" "mset (datas 0 rs) = D" by (auto simp: file_data_def)
  then have g: "geometry s" "lay rs (take (space s) (mem s))" by (auto simp: file_rep_def)
  then have "space s + info_size sz \<le> filesz s" using assms(2) info_size_bounds [OF assms(4)] by (simp add: geometry_def)
  from alloc_at_space_data [OF g this assms(3,4)] rs(2) that show thesis by blast
qed

lemma alloc_grow:
  assumes "os_sane os" "file_data s D" "0 < sz" "sz < 65536"
  obtains (fail) "file_alloc_grow os sz s = Some (None, s)" "alloc_may_fail os s sz"
  | (ok) a kv s' where "file_alloc_grow os sz s = Some (Some a, s')" "length kv = sz"
    "file_data s' (add_mset (a, kv) D)" "same_index s s'"
proof -
  let ?n = "info_size sz" let ?new = "roundup (add32 (space s) ?n) (pagesize s)"
  from assms(2) obtain rs where rs: "file_rep rs s" "mset (datas 0 rs) = D" by (auto simp: file_data_def)
  then have g: "geometry s" "lay rs (take (space s) (mem s))" by (auto simp: file_rep_def)
  note gg = g(1) [unfolded geometry_def]
  have sub: "sub32 (filesz s) (space s) = filesz s - space s" using gg by (simp add: sub32_id)
  have um: "sub32 UINT32_MAX ?n = UINT32_MAX - ?n"
    using info_size_bounds [OF assms(4)] by (intro sub32_id) (auto simp: UINT32_MAX_def)
  show thesis
  proof (cases "filesz s - space s < ?n")
    case False
    then show thesis using alloc_room [OF assms(2) _ assms(3,4)] sub ok
      by (auto simp: file_alloc_grow_def Let_def)
  next
    case small: True
    show thesis
    proof (cases "UINT32_MAX - ?n \<le> filesz s")
      case True
      then have "alloc_may_fail os s sz" using gg page_size_8_dvd [of "pagesize s"]
        by (auto simp: alloc_may_fail_def UINT32_MAX_def)
      then show thesis using small True sub um fail by (simp add: file_alloc_grow_def Let_def)
    next
      case False
      then have "filesz s + ?n < 2 ^ 32" using info_size_bounds [OF assms(4)] by (simp add: UINT32_MAX_def)
      then have lt: "space s + ?n < 2 ^ 32" using gg by linarith
      then have a: "add32 (space s) ?n = space s + ?n" by (rule add32_id)
      have new: "?new = 0 \<or> (space s + ?n \<le> ?new \<and> pagesize s dvd ?new \<and> ?new < 2 ^ 32)"
        using roundup_page [of "pagesize s" "space s + ?n"] gg lt unfolding a by blast
      have unf: "file_alloc_grow os sz s = (let (r, s1) = store_file_setsize os ?new s in
          if r = -1 then Some (None, s1) else file_alloc_at_space sz s1)"
        using small False sub um by (simp add: file_alloc_grow_def Let_def)
      consider "store_file_setsize os ?new s = (-1, s)" |
        m where "store_file_setsize os ?new s = (0, s\<lparr>mem := m, filesz := ?new\<rparr>)" "0 < ?new"
          "geometry (s\<lparr>mem := m, filesz := ?new\<rparr>)" "take (space s) m = take (space s) (mem s)"
        using setsize_rep [OF assms(1) g(1), of ?new] new by auto
      then show thesis
      proof cases
        case 1
        then have "?new = 0 \<or> (\<exists>n. \<not> os_mmap os n)"
          using assms(1) by (auto simp: store_file_setsize_def os_sane_def Let_def split: if_splits)
        moreover have "?new \<noteq> 0" if "filesz s + ?n + pagesize s < 2 ^ 32"
          using roundup_page_pos [of "pagesize s" "space s + ?n"] that gg info_size_bounds(4) [OF assms(4)]
          unfolding a by linarith
        ultimately have "alloc_may_fail os s sz" unfolding alloc_may_fail_def by (meson not_le)
        then show thesis using 1 unf fail by simp
      next
        case 2
        let ?s = "s\<lparr>mem := m, filesz := ?new\<rparr>"
        have "lay rs (take (space ?s) (mem ?s))" "space ?s + ?n \<le> filesz ?s" using 2 g new by auto
        from alloc_at_space_data [OF 2(3) this assms(3,4)] rs(2) obtain s' kv where
          "file_alloc_at_space sz ?s = Some (Some (space s), s')" "length kv = sz"
          "file_data s' (add_mset (space s, kv) D)" "same_index ?s s'" by auto
        then show thesis using 2(1) unf ok by (simp add: same_index_def)
      qed
    qed
  qed
qed

lemma alloc_store:
  assumes "os_sane os" "store_rep s ents" "0 < sz" "sz < 65536"
  obtains (fail) s' ents' where "store_file_alloc os sz s = Some (None, s')" "store_rep s' ents'"
      "map snd ents' = map snd ents" "alloc_may_fail os s sz"
  | (ok) a kv s' ents' where "store_file_alloc os sz s = Some (Some a, s')" "length kv = sz"
      "file_data s' (add_mset (a, kv) (mset ents'))" "index_rep s' ents'"
      "map snd ents' = map snd ents" "idx_max s' = idx_max s"
proof -
  obtain s1 ents1 where s1: "(if sub32 (filesz s) (space s) < info_size sz then store_repack os s else Some s) = Some s1"
    "store_rep s1 ents1" "map snd ents1 = map snd ents" "filesz s1 = filesz s" "pagesize s1 = pagesize s"
    "idx_max s1 = idx_max s"
  proof (cases "sub32 (filesz s) (space s) < info_size sz")
    case True
    from assms(2) show thesis
    proof (rule repack_store [where os = os])
      fix s1 ents1
      assume "store_repack os s = Some s1" "store_rep s1 ents1" "map snd ents1 = map snd ents"
        "filesz s1 = filesz s" "pagesize s1 = pagesize s" "idx_max s1 = idx_max s"
      then show thesis using True by (intro that [of s1 ents1]) simp_all
    qed
  qed (use assms(2) in \<open>auto intro: that\<close>)
  have un: "store_file_alloc os sz s = file_alloc_grow os sz s1" unfolding store_file_alloc_def s1(1) by simp
  have "file_data s1 (mset ents1)" "index_rep s1 ents1" using s1(2) by (auto simp: store_rep_def)
  from assms(1) this(1) assms(3,4) show thesis
  proof (cases rule: alloc_grow)
    case fail
    then show ?thesis using s1 un that(1) [of s1 ents1] by (simp add: alloc_may_fail_def)
  next
    case (ok a kv s')
    then show ?thesis using s1 un that(2) [of a s' kv ents1] \<open>index_rep s1 ents1\<close>
      by (simp add: same_index_def index_rep_def)
  qed
qed

subsection \<open>Resizing in place\<close>

lemma data_at:
  assumes "file_at s xs A c ys B T" "length c = info_size n" "0 < n" "n < 65536"
  obtains m kv where "poke (mem s) (length A) (le_bytes 2 n) = Some m" "length kv = n"
    "file_data (s\<lparr>mem := m\<rparr>) (add_mset (length A, kv) (mset (datas 0 xs) + mset (datas (length A + length c) ys)))"
    "length m = length (mem s)"
proof -
  from init_data_chunk [OF refl assms(2-4)] obtain c' kv where
    p: "poke (A @ c @ B @ T) (length A) (le_bytes 2 n) = Some (A @ c' @ B @ T)" "chunk (Data kv) c'" "length kv = n"
    by blast
  have l: "length c' = length c" using chunk_length [OF p(2)] p(3) assms(2) by simp
  from file_at_data [OF file_at_upd [OF assms(1) l], of "[Data kv]"] p l show thesis
    using assms(1) by (intro that [of "A @ c' @ B @ T" kv]) (auto simp: lay_single file_at_def)
qed

lemma split_at:
  assumes "file_at s xs A c ys B T" "length c = n + g"
  obtains c1 c2 where "c = c1 @ c2" "length c1 = n" "length c2 = g" "mem s = A @ c1 @ c2 @ B @ T"
  using assms by (intro that [of "take n c" "drop n c"]) (auto simp: file_at_def)

lemma data_gap_at:
  assumes "file_at s xs A c ys B T" "chunk (Data kv) c1" "chunk (Gap g) c2" "length c = info_size (length kv) + g"
  shows "file_data (s\<lparr>mem := A @ (c1 @ c2) @ B @ T\<rparr>)
    (add_mset (length A, kv) (mset (datas 0 xs) + mset (datas (length A + length c) ys)))"
proof -
  have l: "length (c1 @ c2) = length c" using chunk_length [OF assms(2)] chunk_length [OF assms(3)] assms(4) by simp
  have "lay [Data kv, Gap g] (c1 @ c2)" using assms(2,3) by (auto simp: lay_Cons_iff)
  from file_at_data [OF file_at_upd [OF assms(1) l] this refl] l show ?thesis by simp
qed

text \<open>Shrinking writes the new size first, growing into a larger gap writes the rest of the gap first.\<close>

lemma data_then_gap:
  assumes "file_at s xs A c ys B T" "length c = info_size n + g" "8 \<le> g" "8 dvd g" "0 < n" "n < 65536"
  obtains c' m2 kv where "poke (mem s) (length A) (le_bytes 2 n) = Some (A @ c' @ B @ T)" "length c' = length c"
    "record_init_gap (A @ c' @ B @ T) (length A + info_size n) g = Some m2" "length kv = n"
    "file_data (s\<lparr>mem := m2\<rparr>) (add_mset (length A, kv) (mset (datas 0 xs) + mset (datas (length A + length c) ys)))"
proof -
  from split_at [OF assms(1,2)] obtain c1 c2 where c: "length c1 = info_size n" "length c2 = g"
    "mem s = A @ c1 @ c2 @ B @ T" "c = c1 @ c2" by metis
  from init_data_chunk [OF refl c(1) assms(5,6)] obtain c1' kv where
    d: "poke (A @ c1 @ c2 @ B @ T) (length A) (le_bytes 2 n) = Some (A @ c1' @ c2 @ B @ T)"
    "chunk (Data kv) c1'" "length kv = n" by blast
  have l: "length c1' = info_size n" "g < 2 ^ 32"
    using chunk_length [OF d(2)] d(3) file_at_bounds [OF assms(1)] assms(2) by simp_all
  from init_gap_chunk [of "A @ c1'" "length A + info_size n" c2 g "B @ T"] c(2) assms(3,4) l obtain c2' where
    g: "record_init_gap (A @ c1' @ c2 @ B @ T) (length A + info_size n) g = Some (A @ c1' @ c2' @ B @ T)"
    "chunk (Gap g) c2'" by auto
  from data_gap_at [OF assms(1) d(2) g(2)] assms(2) d(3) show thesis
    using d g c l by (intro that [of "c1' @ c2" "A @ c1' @ c2' @ B @ T" kv]) auto
qed

lemma gap_then_data:
  assumes "file_at s xs A c ys B T" "length c = info_size n + g" "8 \<le> g" "8 dvd g" "0 < n" "n < 65536"
  obtains m1 m2 kv where "record_init_gap (mem s) (length A + info_size n) g = Some m1"
    "poke m1 (length A) (le_bytes 2 n) = Some m2" "length kv = n"
    "file_data (s\<lparr>mem := m2\<rparr>) (add_mset (length A, kv) (mset (datas 0 xs) + mset (datas (length A + length c) ys)))"
proof -
  from split_at [OF assms(1,2)] obtain c1 c2 where c: "length c1 = info_size n" "length c2 = g"
    "mem s = A @ c1 @ c2 @ B @ T" "c = c1 @ c2" by metis
  have "g < 2 ^ 32" using file_at_bounds [OF assms(1)] assms(2) by simp
  with init_gap_chunk [of "A @ c1" "length A + info_size n" c2 g "B @ T"] c assms(3,4) obtain c2' where
    g: "record_init_gap (A @ c1 @ c2 @ B @ T) (length A + info_size n) g = Some (A @ c1 @ c2' @ B @ T)"
    "chunk (Gap g) c2'" by auto
  from init_data_chunk [OF refl c(1) assms(5,6)] obtain c1' kv where
    d: "poke (A @ c1 @ c2' @ B @ T) (length A) (le_bytes 2 n) = Some (A @ c1' @ c2' @ B @ T)"
    "chunk (Data kv) c1'" "length kv = n" by blast
  from data_gap_at [OF assms(1) d(2) g(2)] assms(2) d(3) show thesis
    using d g c by (intro that) auto
qed

subsection \<open>Moving a record\<close>

lemma resizedI:
  assumes "file_data s' (add_mset (a, kv) (mset (L @ R)))" "same_index s s'"
    "index_rep s (L @ (a, kv0) # R)" "length kv = n"
  shows "resized L R n a s'"
  using assms unfolding resized_def
  by (intro exI [of _ L] exI [of _ R] exI [of _ kv]) (auto simp: index_rep_def same_index_def)

lemma move_room:
  assumes "store_rep s (L @ (a, kv0) # R)" "file_data (s\<lparr>mem := m\<rparr>) (mset (L @ R))"
    "info_size n < filesz s - space s" "0 < n" "n < 65536"
  shows "\<exists>b s'. store_file_alloc os n (s\<lparr>mem := m\<rparr>) = Some (Some b, s') \<and>
    resized L R n b (s'\<lparr>index := (index s')[length L := Some b]\<rparr>)"
proof -
  let ?s = "s\<lparr>mem := m\<rparr>"
  have "info_size n \<le> filesz ?s - space ?s" using assms(3) by simp
  from alloc_room [OF assms(2) this assms(4,5)] obtain b kv s' where
    a: "file_alloc_at_space n ?s = Some (Some b, s')" "length kv = n"
    "file_data s' (add_mset (b, kv) (mset (L @ R)))" "same_index ?s s'" by metis
  have "geometry ?s" using assms(2) by (auto simp: file_data_def file_rep_def)
  then have "sub32 (filesz s) (space s) = filesz s - space s" by (simp add: geometry_def sub32_id)
  then have "store_file_alloc os n ?s = Some (Some b, s')"
    using a(1) assms(3) by (simp add: store_file_alloc_def file_alloc_grow_def Let_def)
  moreover have "resized L R n b (s'\<lparr>index := (index s')[length L := Some b]\<rparr>)"
    unfolding resized_def using a assms(1)
    by (intro exI [of _ L] exI [of _ R] exI [of _ kv]) (auto simp: index_rep_def same_index_def store_rep_def list_update_append)
  ultimately show ?thesis by blast
qed

lemma index_insert_at:
  assumes "index_rep s (L @ R)" "length (L @ R) < idx_max s"
  shows "store_index_insert os (length L) s =
    Some (int (length L), s\<lparr>index := map (Some \<circ> fst) L @ None # map (Some \<circ> fst) R\<rparr>)"
  using assms by (simp add: store_index_insert_def store_index_ensure_def index_rep_def)

lemma map_eq_splitE:
  assumes "map f xs = map f (L @ R)"
  obtains L' R' where "xs = L' @ R'" "map f L' = map f L" "map f R' = map f R" "length L' = length L"
proof -
  from assms obtain L' R' where "xs = L' @ R'" "map f L' = map f L" "map f R' = map f R"
    by (auto simp: map_eq_append_conv)
  then show thesis by (intro that [of L' R']) (auto dest: map_eq_imp_length_eq)
qed

lemma info_move_ok:
  assumes "os_sane os" "store_rep s (L @ (a, kv0) # R)" "0 < n" "n < 65536"
    "record_init_gap (mem s) a (case after_size of Some g \<Rightarrow> add32 old_alloc g | None \<Rightarrow> old_alloc) = Some m"
    "file_data (s\<lparr>mem := m\<rparr>) (mset (L @ R))"
  shows "realloc_ok os s L R n (info_move os (length L) a n (info_size n) old_alloc after_size s)"
proof -
  let ?s = "s\<lparr>mem := m\<rparr>"
  have g: "geometry ?s" using assms(6) by (auto simp: file_data_def file_rep_def)
  have sub: "sub32 (filesz s) (space s) = filesz s - space s" using g by (simp add: geometry_def sub32_id)
  show ?thesis
  proof (cases "info_size n < filesz s - space s")
    case True
    with move_room [OF assms(2,6) True assms(3,4), of os] assms(5) sub show ?thesis
      by (auto simp: info_move_def realloc_ok_def)
  next
    case False
    let ?s2 = "?s\<lparr>index := map (Some \<circ> fst) (L @ R)\<rparr>"
    have rep: "index_rep s (L @ (a, kv0) # R)" "kvs_ok (map snd (L @ (a, kv0) # R))" using assms(2) by (auto simp: store_rep_def)
    have del: "store_index_delete (length L) ?s = Some ?s2" using rep by (simp add: store_index_delete_def index_rep_def)
    have unf: "info_move os (length L) a n (info_size n) old_alloc after_size s = do {
        (info, s3) \<leftarrow> store_file_alloc os n ?s2;
        case info of None \<Rightarrow> Some (None, s3)
        | Some b \<Rightarrow> do { (r, s4) \<leftarrow> store_index_insert os (length L) s3;
            if length L < length (index s4) then Some (Some b, s4\<lparr>index := (index s4)[length L := Some b]\<rparr>) else None }}"
      using assms(5) False sub del by (simp add: info_move_def)
    have "store_rep ?s2 (L @ R)" using rep assms(6)
      by (auto simp: store_rep_def index_rep_def kvs_ok_append kvs_ok_Cons)
    from assms(1) this assms(3,4) show ?thesis
    proof (cases rule: alloc_store)
      case (fail s' ents')
      then show ?thesis unfolding unf by (auto simp: realloc_ok_def alloc_may_fail_def)
    next
      case (ok b kv s' ents')
      from ok(5) obtain L' R' where e: "ents' = L' @ R'" "map snd L' = map snd L" "map snd R' = map snd R" "length L' = length L"
        by (rule map_eq_splitE)
      have "length R' = length R" using e(3) by (metis length_map)
      then have "length (L' @ R') < idx_max s'" using ok(6) e(4) rep(1) by (simp add: index_rep_def)
      note ins = index_insert_at [OF ok(4) [unfolded e(1)] this, of os, unfolded e(4)]
      have "resized L R n b (s'\<lparr>index := (map (Some \<circ> fst) L' @ None # map (Some \<circ> fst) R')[length L := Some b]\<rparr>)"
        unfolding resized_def using ok e \<open>length (L' @ R') < idx_max s'\<close>
        by (intro exI [of _ L'] exI [of _ R'] exI [of _ kv]) (auto simp: index_rep_def list_update_append)
      then show ?thesis unfolding unf using ok(1) ins e(4) by (auto simp: realloc_ok_def)
    qed
  qed
qed

subsection \<open>Resizing\<close>

lemma entry_atE:
  assumes "store_rep s (L @ (a, kv0) # R)"
  obtains xs A c ys B T where "entry_at s L a kv0 R xs A c ys B T"
proof -
  from assms have "file_data s (add_mset (a, kv0) (mset (L @ R)))" by (simp add: store_rep_def)
  then obtain xs A c ys B T where "file_at s xs A c ys B T" "chunk (Data kv0) c" "length A = a"
    "length c = info_size (length kv0)" "mset (L @ R) = mset (datas 0 xs) + mset (datas (a + info_size (length kv0)) ys)"
    by (metis file_data_atE)
  then show thesis using assms by (intro that [of xs A c ys B T]) (simp add: entry_at_def)
qed

lemma entry_at_facts:
  assumes "entry_at s L a kv0 R xs A c ys B T"
  shows "index_at s (length L) = Some (length A)" "info_sz (mem s) (length A) = Some (length kv0)"
    "length c = info_size (length kv0)" "length A < filesz s" "length A mod INFO_ALIGN = 0"
    "length A + length c < 2 ^ 32" "index_rep s (L @ (length A, kv0) # R)" "8 \<le> length c" "8 dvd length c"
proof -
  note e = assms [unfolded entry_at_def]
  show "index_rep s (L @ (length A, kv0) # R)" using e by (simp add: store_rep_def)
  from index_at_rep [OF this, of "length L"] show "index_at s (length L) = Some (length A)" by simp
  show "info_sz (mem s) (length A) = Some (length kv0)" using e info_sz_at [of s xs A c ys B T "Data kv0"] by simp
  show l: "length c = info_size (length kv0)" using e by simp
  show 8: "8 \<le> length c" "8 dvd length c" using e chunk_bounds [of "Data kv0" c] l by auto
  have f: "file_at s xs A c ys B T" using e by simp
  show "length A < filesz s" "length A + length c < 2 ^ 32" "length A mod INFO_ALIGN = 0"
    using file_at_bounds [OF f] 8 by (simp_all add: INFO_ALIGN_def mod_eq_0_iff_dvd)
qed

lemma realloc_same:
  assumes "entry_at s L a kv0 R xs A c ys B T" "info_size n = length c" "0 < n" "n < 65536"
  shows "realloc_ok os s L R n (store_info_realloc os (length L) n s)"
proof -
  note e = assms(1) [unfolded entry_at_def] and f = entry_at_facts [OF assms(1)]
  from e assms(2-4) obtain m kv where m: "poke (mem s) (length A) (le_bytes 2 n) = Some m" "length kv = n"
    "file_data (s\<lparr>mem := m\<rparr>) (add_mset (length A, kv) (mset (L @ R)))"
    by (metis data_at)
  have "resized L R n (length A) (s\<lparr>mem := m\<rparr>)"
    by (rule resizedI [OF m(3) _ f(7) m(2)]) (simp add: same_index_def)
  then show ?thesis using f m assms(2) by (simp add: store_info_realloc_def realloc_ok_def)
qed

lemma realloc_shrink_last:
  assumes "os_sane os" "entry_at s L a kv0 R xs A c [] [] T" "info_size n < length c" "0 < n" "n < 65536"
  shows "\<exists>s'. info_shrink os (length L) (length A) n (info_size n) (length c) None s = Some (Some (length A), s') \<and>
    resized L R n (length A) s'"
proof -
  note e = assms(2) [unfolded entry_at_def] and f = entry_at_facts [OF assms(2)]
  have fa: "file_at s xs A c [] [] T" using e by simp
  obtain c1 c2 where c: "c = c1 @ c2" "length c1 = info_size n" "mem s = A @ c1 @ c2 @ T"
    using split_at [OF fa, of "info_size n" "length c - info_size n"] assms(3) by auto
  from init_data_chunk [OF refl c(2) assms(4,5)] obtain c1' kv where
    d: "poke (A @ c1 @ c2 @ T) (length A) (le_bytes 2 n) = Some (A @ c1' @ c2 @ T)" "chunk (Data kv) c1'" "length kv = n"
    by blast
  let ?s = "s\<lparr>mem := A @ c1' @ c2 @ T\<rparr>" let ?sp = "length A + info_size n"
  have l: "length c1' = info_size n" using chunk_length [OF d(2)] d(3) by simp
  have g: "geometry ?s" using fa l c by (auto simp: file_at_def geometry_def)
  have lay: "lay (xs @ [Data kv]) (take ?sp (mem ?s))"
    using fa d(2) l by (auto simp: file_at_def lay_append_iff lay_single)
  have sp: "?sp < filesz s" "add32 (length A) (info_size n) = ?sp"
    using file_at_bounds [OF fa] assms(3) by (auto simp: add32_id)
  from set_space_rep [OF g, of ?sp "xs @ [Data kv]"] lay sp obtain m where
    m: "store_set_space ?sp ?s = Some (s\<lparr>space := ?sp, mem := m\<rparr>)"
    "file_rep (xs @ [Data kv]) (s\<lparr>space := ?sp, mem := m\<rparr>)" by auto
  from trim_rep [OF assms(1) m(2)] sp(1) obtain m' fz where
    t: "store_file_trim os (s\<lparr>space := ?sp, mem := m\<rparr>) = Some (s\<lparr>space := ?sp, mem := m', filesz := fz\<rparr>)"
    "file_rep (xs @ [Data kv]) (s\<lparr>space := ?sp, mem := m', filesz := fz\<rparr>)" by auto
  let ?s' = "s\<lparr>space := ?sp, mem := m', filesz := fz\<rparr>"
  have "tsize xs = length A" using fa lay_length by (auto simp: file_at_def)
  then have "file_data ?s' (add_mset (length A, kv) (mset (L @ R)))" using file_data_rep [OF t(2)] e by simp
  then have "resized L R n (length A) ?s'"
    by (rule resizedI [OF _ _ f(7) d(3)]) (simp add: same_index_def)
  moreover have "info_shrink os (length L) (length A) n (info_size n) (length c) None s = Some (Some (length A), ?s')"
    using d(1) c(3) m(1) t(1) sp(2) f(1) by (simp add: info_shrink_def index_at_def split: if_splits)
  ultimately show ?thesis by blast
qed

lemma alloc_gap_size:
  assumes "n < 65536" "k < 65536" "info_size n < info_size k"
  shows "sub32 (info_size k) (info_size n) = info_size k - info_size n" "8 \<le> info_size k - info_size n"
    "8 dvd info_size k - info_size n"
proof -
  note b = info_size_bounds [OF assms(1)] info_size_bounds [OF assms(2)]
  show d: "8 dvd info_size k - info_size n" using b by (simp add: dvd_diff_nat)
  then show "8 \<le> info_size k - info_size n" using assms(3) by (intro dvd_imp_le) simp_all
  show "sub32 (info_size k) (info_size n) = info_size k - info_size n"
    using assms(3) b by (intro sub32_id) simp_all
qed

lemma realloc_shrink_inner:
  assumes "entry_at s L a kv0 R xs A c (r # ys) B T" "info_size n < length c" "0 < n" "n < 65536"
  shows "\<exists>s'. info_shrink os (length L) (length A) n (info_size n) (length c) (Some (length A + length c)) s =
      Some (Some (length A), s') \<and> resized L R n (length A) s'"
proof -
  note e = assms(1) [unfolded entry_at_def] and f = entry_at_facts [OF assms(1)]
  have fa: "file_at s xs A c (r # ys) B T" and k: "length kv0 < 65536" using e by auto
  let ?g = "length c - info_size n"
  have gs: "sub32 (length c) (info_size n) = ?g" "8 \<le> ?g" "8 dvd ?g"
    using alloc_gap_size [OF assms(4) k] assms(2) f(3) by simp_all
  have "length c = info_size n + ?g" using assms(2) by simp
  from data_then_gap [OF fa this gs(2,3) assms(3,4)] e obtain c' m2 kv where
    d: "poke (mem s) (length A) (le_bytes 2 n) = Some (A @ c' @ B @ T)" "length c' = length c"
    "record_init_gap (A @ c' @ B @ T) (length A + info_size n) ?g = Some m2" "length kv = n"
    "file_data (s\<lparr>mem := m2\<rparr>) (add_mset (length A, kv) (mset (L @ R)))" by metis
  from file_at_next [OF fa, of "[Data kv0]"] e obtain c2 B2 where n: "B = c2 @ B2" "chunk r c2"
    by (metis lay_single)
  then obtain gap sz where "record_is_gap (A @ c' @ B @ T) (length A + length c) = Some gap"
    "record_get_size (A @ c' @ B @ T) (length A + length c) = Some sz"
    using is_gap_chunk [OF n(2), of "A @ c'" _ "B2 @ T"] get_size_chunk [OF n(2), of "A @ c'" _ "B2 @ T"] d(2) by simp
  moreover have "add32 (length A) (info_size n) = length A + info_size n" using f(6) assms(2) by (simp add: add32_id)
  ultimately have "info_shrink os (length L) (length A) n (info_size n) (length c) (Some (length A + length c)) s =
      Some (Some (length A), s\<lparr>mem := m2\<rparr>)" using d gs(1) by (simp add: info_shrink_def)
  moreover have "resized L R n (length A) (s\<lparr>mem := m2\<rparr>)"
    by (rule resizedI [OF d(5) _ f(7) d(4)]) (simp add: same_index_def)
  ultimately show ?thesis by blast
qed

lemma realloc_shrink:
  assumes "os_sane os" "entry_at s L a kv0 R xs A c ys B T" "info_size n < length c" "0 < n" "n < 65536"
  shows "realloc_ok os s L R n (store_info_realloc os (length L) n s)"
proof -
  note e = assms(2) [unfolded entry_at_def] and f = entry_at_facts [OF assms(2)]
  have fa: "file_at s xs A c ys B T" using e by simp
  note last = file_at_last [OF fa] and a = add32_id [OF f(6)]
  show ?thesis
  proof (cases ys)
    case Nil
    then have "B = []" using fa by (simp add: file_at_def)
    with Nil realloc_shrink_last [OF assms(1), of s L a kv0 R xs A c T n] assms obtain s' where
      "info_shrink os (length L) (length A) n (info_size n) (length c) None s = Some (Some (length A), s')"
      "resized L R n (length A) s'" by auto
    then show ?thesis using f a last assms(3) Nil by (simp add: store_info_realloc_def realloc_ok_def)
  next
    case (Cons r ys')
    with realloc_shrink_inner [of s L a kv0 R xs A c r ys' B T n os] assms obtain s' where
      "info_shrink os (length L) (length A) n (info_size n) (length c) (Some (length A + length c)) s = Some (Some (length A), s')"
      "resized L R n (length A) s'" by auto
    then show ?thesis using f a last assms(3) Cons by (simp add: store_info_realloc_def realloc_ok_def)
  qed
qed

lemma move_entry:
  assumes "os_sane os" "entry_at s L a kv0 R xs A c ys B T" "0 < n" "n < 65536"
  shows "realloc_ok os s L R n (info_move os (length L) (length A) n (info_size n) (length c) None s)"
proof -
  note e = assms(2) [unfolded entry_at_def] and f = entry_at_facts [OF assms(2)]
  have fa: "file_at s xs A c ys B T" and rep: "store_rep s (L @ (length A, kv0) # R)" using e by auto
  from make_gap_at [OF fa f(8,9)] obtain c' where g: "record_init_gap (mem s) (length A) (length c) = Some (A @ c' @ B @ T)"
    "file_at (s\<lparr>mem := A @ c' @ B @ T\<rparr>) xs A c' ys B T" "chunk (Gap (length c)) c'" .
  have "lay [Gap (length c)] c'" using g(3) by (simp add: lay_single)
  from file_at_data [OF g(2) this refl] have "file_data (s\<lparr>mem := A @ c' @ B @ T\<rparr>) (mset (L @ R))"
    using e chunk_length [OF g(3)] by simp
  with info_move_ok [OF assms(1) rep assms(3,4), where after_size = None and old_alloc = "length c"] g(1) show ?thesis by simp
qed

lemma grow_into_gap:
  assumes "os_sane os" "entry_at s L a kv0 R xs A c (Gap g # ys) B T" "length c < info_size n" "0 < n" "n < 65536"
  shows "realloc_ok os s L R n (store_info_realloc os (length L) n s)"
proof -
  note e = assms(2) [unfolded entry_at_def] and f = entry_at_facts [OF assms(2)]
  let ?grow = "info_size n - length c"
  have fa: "file_at s xs A c (Gap g # ys) B T" and rep: "store_rep s (L @ (length A, kv0) # R)"
    and k: "length kv0 < 65536" and mid: "lay [Data kv0] c" using e by (auto simp: lay_single)
  from file_at_next [OF fa mid] obtain c2 B2 where n: "file_at s (xs @ [Data kv0]) (A @ c) c2 ys B2 T"
    "B = c2 @ B2" "chunk (Gap g) c2" "file_at s xs A (c @ c2) ys B2 T" .
  have c2: "length c2 = g" using chunk_length [OF n(3)] by simp
  have D: "mset (datas 0 xs) + mset (datas (length A + length (c @ c2)) ys) = mset (L @ R)" using e c2 by (simp add: add.assoc)
  have gb: "8 \<le> g" "8 dvd g" "g < 2 ^ 32" "length c + g < 2 ^ 32"
    using chunk_bounds [OF n(3)] file_at_bounds [OF n(4)] c2 by simp_all
  note gr = alloc_gap_size [OF k assms(5), folded f(3), OF assms(3)]
  have unf: "store_info_realloc os (length L) n s =
      (if g = ?grow then do { m \<leftarrow> poke (mem s) (length A) (le_bytes 2 n); Some (Some (length A), s\<lparr>mem := m\<rparr>) }
       else if ?grow < g then do {
         m \<leftarrow> record_init_gap (mem s) (length A + info_size n) (sub32 g ?grow);
         m' \<leftarrow> poke m (length A) (le_bytes 2 n);
         Some (Some (length A), s\<lparr>mem := m'\<rparr>) }
       else info_move os (length L) (length A) n (info_size n) (length c) (Some g) s)"
    using f add32_id [OF f(6)] file_at_last [OF fa] assms(3) gr(1)
      is_gap_at [OF n(1,3)] get_size_at [OF n(1,3)] by (simp add: store_info_realloc_def Let_def)
  consider "g = ?grow" | "?grow < g" | "g < ?grow" by linarith
  then show ?thesis
  proof cases
    case 1
    then have "length (c @ c2) = info_size n" using assms(3) c2 by simp
    from data_at [OF n(4) this assms(4,5)] obtain m kv where m: "poke (mem s) (length A) (le_bytes 2 n) = Some m"
      "length kv = n" "file_data (s\<lparr>mem := m\<rparr>) (add_mset (length A, kv) (mset (L @ R)))" unfolding D by metis
    have "resized L R n (length A) (s\<lparr>mem := m\<rparr>)"
      by (rule resizedI [OF m(3) _ f(7) m(2)]) (simp add: same_index_def)
    then show ?thesis unfolding unf using 1 m(1) by (simp add: realloc_ok_def)
  next
    case 2
    then have l: "length (c @ c2) = info_size n + (g - ?grow)" "sub32 g ?grow = g - ?grow"
      using assms(3) c2 gb by (auto simp: sub32_id)
    have d8: "8 dvd g - ?grow" using gb(2) gr(3) by (rule dvd_diff_nat)
    then have "8 \<le> g - ?grow" using 2 by (intro dvd_imp_le) simp_all
    from gap_then_data [OF n(4) l(1) this d8 assms(4,5)] obtain m1 m2 kv where
      m: "record_init_gap (mem s) (length A + info_size n) (g - ?grow) = Some m1" "poke m1 (length A) (le_bytes 2 n) = Some m2"
      "length kv = n" "file_data (s\<lparr>mem := m2\<rparr>) (add_mset (length A, kv) (mset (L @ R)))" unfolding D by metis
    have "resized L R n (length A) (s\<lparr>mem := m2\<rparr>)"
      by (rule resizedI [OF m(4) _ f(7) m(3)]) (simp add: same_index_def)
    then show ?thesis unfolding unf l(2) using 2 m(1,2) by (simp add: realloc_ok_def)
  next
    case 3
    have "8 \<le> length (c @ c2)" "8 dvd length (c @ c2)" using f(8,9) c2 gb by simp_all
    from make_gap_at [OF n(4) this] obtain c' where
      g: "record_init_gap (mem s) (length A) (length (c @ c2)) = Some (A @ c' @ B2 @ T)"
      "file_at (s\<lparr>mem := A @ c' @ B2 @ T\<rparr>) xs A c' ys B2 T" "chunk (Gap (length (c @ c2))) c'" .
    have "lay [Gap (length (c @ c2))] c'" using g(3) by (simp add: lay_single)
    from file_at_data [OF g(2) this refl] have "file_data (s\<lparr>mem := A @ c' @ B2 @ T\<rparr>) (mset (L @ R))"
      using D chunk_length [OF g(3)] by simp
    with info_move_ok [OF assms(1) rep assms(4,5), where after_size = "Some g" and old_alloc = "length c"] g(1) 3 show ?thesis
      unfolding unf using c2 add32_id [OF gb(4)] by simp
  qed
qed

lemma store_info_realloc_ok:
  assumes "os_sane os" "store_rep s (L @ (a, kv0) # R)" "0 < n" "n < 65536"
  shows "realloc_ok os s L R n (store_info_realloc os (length L) n s)"
proof -
  from assms(2) obtain xs A c ys B T where ent: "entry_at s L a kv0 R xs A c ys B T" by (rule entry_atE)
  note e = ent [unfolded entry_at_def] and f = entry_at_facts [OF ent]
  have fa: "file_at s xs A c ys B T" and k: "length kv0 < 65536" using e by auto
  consider "info_size n = length c" | "info_size n < length c" | "length c < info_size n" by linarith
  then show ?thesis
  proof cases
    case 3
    note gr = alloc_gap_size [OF k assms(4), folded f(3), OF 3]
    have "(\<exists>g ys'. ys = Gap g # ys') \<or>
      store_info_realloc os (length L) n s = info_move os (length L) (length A) n (info_size n) (length c) None s"
    proof (cases ys)
      case Nil
      then show ?thesis using f add32_id [OF f(6)] file_at_last [OF fa] 3 by (simp add: store_info_realloc_def Let_def)
    next
      case (Cons r ys')
      from e have "lay [Data kv0] c" by (simp add: lay_single)
      from file_at_next [OF fa [unfolded Cons] this] obtain c2 B2 where
        "file_at s (xs @ [Data kv0]) (A @ c) c2 ys' B2 T" "chunk r c2" .
      from is_gap_at [OF this] show ?thesis using f add32_id [OF f(6)] file_at_last [OF fa] 3 Cons
        by (cases r) (simp_all add: store_info_realloc_def Let_def)
    qed
    then show ?thesis using grow_into_gap [OF assms(1) _ 3 assms(3,4)] ent move_entry [OF assms(1) ent assms(3,4)] by auto
  qed (use realloc_same [OF ent _ assms(3,4)] realloc_shrink [OF assms(1) ent _ assms(3,4)] in auto)
qed

subsection \<open>Writing\<close>

lemma fill_entry:
  assumes "file_data s (add_mset (a, kv0) D)" "length kv = length kv0"
  obtains m where "poke (mem s) (a + 2) kv = Some m" "file_data (s\<lparr>mem := m\<rparr>) (add_mset (a, kv) D)"
proof -
  from assms(1) obtain xs A c ys B T where f: "file_at s xs A c ys B T" "chunk (Data kv0) c" "length A = a"
    "length c = info_size (length kv0)" "D = mset (datas 0 xs) + mset (datas (a + info_size (length kv0)) ys)"
    by (metis file_data_atE)
  have "length A + 2 = a + 2" using f(3) by simp
  from fill_data_chunk [OF this f(2) assms(2), of "B @ T"] obtain c' where
    c: "poke (mem s) (a + 2) kv = Some (A @ c' @ B @ T)" "chunk (Data kv) c'" using f(1) by (auto simp: file_at_def)
  have l: "length c' = length c" using chunk_length [OF c(2)] assms(2) f(4) by simp
  from file_at_data [OF file_at_upd [OF f(1) l], of "[Data kv]"] c show thesis
    using f l assms(2) by (intro that) (auto simp: lay_single)
qed

lemma index_upto:
  assumes "store_rep s (L @ R)"
  shows "length (L @ R) < 2 ^ 29" "length (index s) = length (L @ R)"
proof -
  from assms obtain rs where rs: "file_rep rs s" "mset (datas 0 rs) = mset (L @ R)"
    by (auto simp: store_rep_def file_data_def)
  from rs(1) obtain M where "lay rs M" "tsize rs = space s" "space s \<le> filesz s" "filesz s < 2 ^ 32"
    by (metis file_repE)
  then have "8 * length (datas 0 rs) < 2 ^ 32" using length_datas [of rs M 0] by linarith
  then show "length (L @ R) < 2 ^ 29" using mset_eq_length [OF rs(2)] by simp
  show "length (index s) = length (L @ R)" using assms by (simp add: store_rep_def index_rep_def)
qed

lemma index_capacity:
  assumes "n < 2 ^ 29"
  shows "n < roundup (add32 n 1) STORE_INCREMENT"
proof -
  have "roundup (n + 1) (2 ^ 6) = 2 ^ 6 * ((n + 1 + (2 ^ 6 - 1)) div 2 ^ 6)"
    using assms by (intro roundup_eq) simp_all
  then have "roundup (n + 1) 64 = 64 * ((n + 1 + 63) div 64)" by simp
  moreover have "n < 64 * ((n + 1 + 63) div 64)" by presburger
  moreover have "add32 n 1 = n + 1" using assms by (intro add32_id) simp
  ultimately show ?thesis by (simp only: STORE_INCREMENT_def)
qed

lemma insert_entry:
  assumes "index_rep s (L @ R)" "length (L @ R) < 2 ^ 29"
  obtains (fail) "store_index_insert os (length L) s = Some (-1, s)" "\<exists>n. \<not> os_realloc os n"
  | (ok) j where "store_index_insert os (length L) s =
      Some (int (length L), s\<lparr>idx_max := j, index := map (Some \<circ> fst) L @ None # map (Some \<circ> fst) R\<rparr>)"
      "length (L @ R) < j"
proof (cases "length (L @ R) < idx_max s")
  case True
  then show thesis using index_insert_at [OF assms(1) True, of os] ok [of "idx_max s"] by simp
next
  case False
  let ?n = "length (L @ R)" let ?j = "roundup (add32 ?n 1) STORE_INCREMENT"
  have j: "?n < ?j" using assms(2) by (rule index_capacity)
  show thesis
  proof (cases "os_realloc os (?j * 8)")
    case True
    then have "store_index_insert os (length L) s =
      Some (int (length L), s\<lparr>idx_max := ?j, index := map (Some \<circ> fst) L @ None # map (Some \<circ> fst) R\<rparr>)"
      using False assms(1) by (simp add: store_index_insert_def store_index_ensure_def index_rep_def Let_def)
    then show thesis using j by (rule ok)
  next
    case False2: False
    then show thesis using False assms(1) fail
      by (auto simp: store_index_insert_def store_index_ensure_def index_rep_def Let_def)
  qed
qed

lemma put_new_ok:
  assumes "os_sane os" "store_rep s (L @ R)" "0 < length kv" "length kv < 65536" "kvs_ok (map snd L @ kv # map snd R)"
  shows "(\<exists>s'. put_new os kv (length L) s = Some (1, s') \<and> store_holds s' (map snd L @ kv # map snd R)) \<or>
    (\<exists>s'. put_new os kv (length L) s = Some (-1, s') \<and> store_holds s' (map snd (L @ R)) \<and> put_may_fail os s kv)"
  using assms(1-4)
proof (cases rule: alloc_store)
  case (fail s' ents')
  then show ?thesis by (auto simp: put_new_def store_holds_def put_may_fail_def)
next
  case (ok a kv0 s' ents')
  from ok(5) obtain L' R' where e: "ents' = L' @ R'" "map snd L' = map snd L" "map snd R' = map snd R" "length L' = length L"
    by (rule map_eq_splitE)
  have len: "length (L' @ R') < 2 ^ 29"
    using index_upto(1) [OF assms(2)] e by (metis length_append length_map)
  have kvs: "kvs_ok (map snd (L' @ R'))" using assms(2) e by (simp add: store_rep_def)
  from ok(4) [unfolded e(1)] len show ?thesis
  proof (cases rule: insert_entry [where os = os])
    case fail
    from dealloc_data [OF assms(1) ok(3)] obtain s3 where "store_file_dealloc os a s' = Some s3"
      "file_data s3 (mset ents')" "same_index s' s3" by blast
    moreover from this have "store_rep s3 ents'" using ok(4) kvs e(1)
      by (simp add: store_rep_def index_rep_def same_index_def)
    ultimately show ?thesis using ok(1,5) fail e(4)
      by (auto simp: put_new_def store_holds_def put_may_fail_def)
  next
    case ins: (ok j)
    let ?s = "s'\<lparr>idx_max := j, index := map (Some \<circ> fst) L' @ None # map (Some \<circ> fst) R'\<rparr>"
    from fill_entry [OF ok(3), of kv] ok(2) obtain m where
      m: "poke (mem s') (a + 2) kv = Some m" "file_data (s'\<lparr>mem := m\<rparr>) (add_mset (a, kv) (mset ents'))" by auto
    let ?s' = "?s\<lparr>index := (index ?s)[length L := Some a], mem := m\<rparr>"
    have "file_data ?s' (add_mset (a, kv) (mset ents'))"
      using m(2) by (simp add: file_data_def file_rep_def geometry_def)
    moreover have idx: "(index ?s)[length L := Some a] = map (Some \<circ> fst) (L' @ (a, kv) # R')"
      by (simp add: list_update_append flip: e(4))
    moreover have "kvs_ok (map snd (L' @ (a, kv) # R'))" using assms(5) e(2,3) by simp
    ultimately have "store_rep ?s' (L' @ (a, kv) # R')"
      using e(1) ins(2) unfolding store_rep_def index_rep_def idx by simp
    then have "store_holds ?s' (map snd L @ kv # map snd R)"
      unfolding store_holds_def using e by (intro exI [of _ "L' @ (a, kv) # R'"]) simp
    then show ?thesis using ok(1) ins(1) m(1) e(4) by (simp add: put_new_def)
  qed
qed

lemma put_old_ok:
  assumes "os_sane os" "store_rep s (L @ (a, kv0) # R)" "0 < length kv" "length kv < 65536"
    "kvs_ok (map snd L @ kv # map snd R)"
  shows "(\<exists>s'. put_old os kv (length L) s = Some (1, s') \<and> store_holds s' (map snd L @ kv # map snd R)) \<or>
    (\<exists>s'. put_old os kv (length L) s = Some (-1, s') \<and> store_holds s' (map snd (L @ R)) \<and> put_may_fail os s kv)"
proof -
  consider b s1 where "store_info_realloc os (length L) (length kv) s = Some (Some b, s1)" "resized L R (length kv) b s1"
    | s1 ents' where "store_info_realloc os (length L) (length kv) s = Some (None, s1)" "store_rep s1 ents'"
      "map snd ents' = map snd (L @ R)" "alloc_may_fail os s (length kv)"
    using store_info_realloc_ok [OF assms(1-4)] by (auto simp: realloc_ok_def)
  then show ?thesis
  proof cases
    case 1
    from 1(2) obtain L' R' kv1 where r: "file_data s1 (mset (L' @ (b, kv1) # R'))" "index_rep s1 (L' @ (b, kv1) # R')"
      "length kv1 = length kv" "map snd L' = map snd L" "map snd R' = map snd R" by (auto simp: resized_def)
    from fill_entry [of s1 b kv1 "mset (L' @ R')" kv] r obtain m where
      m: "poke (mem s1) (b + 2) kv = Some m" "file_data (s1\<lparr>mem := m\<rparr>) (mset (L' @ (b, kv) # R'))" by auto
    then have "store_rep (s1\<lparr>mem := m\<rparr>) (L' @ (b, kv) # R')"
      using r assms(5) by (simp add: store_rep_def index_rep_def)
    then have "store_holds (s1\<lparr>mem := m\<rparr>) (map snd L @ kv # map snd R)"
      unfolding store_holds_def using r by (intro exI [of _ "L' @ (b, kv) # R'"]) simp
    then show ?thesis using 1(1) m(1) by (simp add: put_old_def)
  next
    case 2
    then show ?thesis by (auto simp: put_old_def store_holds_def put_may_fail_def)
  qed
qed

lemma read_entry:
  assumes "file_data s D" "(a, kv) \<in># D"
  shows "info_sz (mem s) a = Some (length kv)" "peek (mem s) (a + 2) (length kv) = Some kv"
proof -
  from assms obtain xs A c ys B T where f: "file_at s xs A c ys B T" "chunk (Data kv) c" "length A = a"
    by (metis file_data_atE multi_member_split)
  then show "info_sz (mem s) a = Some (length kv)" using info_sz_at by fastforce
  have "length kv + 2 \<le> length c" using f(2) info_size_bounds(1) [of "length kv"] by simp
  moreover obtain X where "drop (a + 2) (mem s) = kv @ X" using file_data_key [OF assms] by auto
  moreover have "length (mem s) \<ge> length A + length c" using f(1) by (simp add: file_at_def)
  ultimately show "peek (mem s) (a + 2) (length kv) = Some kv" using f(3) by (simp add: peek_def)
qed

end
