(* ===== verification/Store_Ops.thy ===== *)
theory Store_Ops
  imports Store_Correct
begin

text \<open>
  The operations of \<^verbatim>\<open>store.h\<close> on a store that holds a sorted list of keyvalues: lookup,
  iteration, writing, deleting and opening.  The interface they offer is the locale
  \<open>kv_store\<close>, interpreted on them.
\<close>

subsection \<open>Definitions\<close>

text \<open>A lookup and the bytes it finds.\<close>

definition store_get_kv :: "store \<Rightarrow> bytes \<Rightarrow> bytes option option" where
  "store_get_kv s key = do {
     p \<leftarrow> store_get s key;
     case p of None \<Rightarrow> Some None | Some a \<Rightarrow> map_option Some (info_keyvalue s a)
   }"

text \<open>
  The loop \<^verbatim>\<open>for (info = store_get_first(s, &ix); info; info = store_get_next(s, &ix))\<close>: the
  keyvalues it visits.  The fuel bounds the rounds.
\<close>

fun store_walk :: "nat \<Rightarrow> store \<Rightarrow> nat option \<times> nat \<Rightarrow> bytes list option" where
  "store_walk 0 s p = None"
| "store_walk (Suc k) s (None, ix) = Some []"
| "store_walk (Suc k) s (Some a, ix) = do {
     kv \<leftarrow> info_keyvalue s a;
     kvs \<leftarrow> store_walk k s (store_get_next s ix);
     Some (kv # kvs)
   }"

definition store_all :: "store \<Rightarrow> bytes list option" where
  "store_all s = store_walk (length (index s) + 1) s (store_get_first s)"

text \<open>Sequences of writes and deletes, and what they make of the abstract contents.\<close>

datatype kv_op = Put bytes | Del bytes

fun kv_apply :: "kv_op \<Rightarrow> bytes list \<Rightarrow> bytes list" where
  "kv_apply (Put kv) kvs = kv_put kv kvs"
| "kv_apply (Del k) kvs = kv_del (cstr k) kvs"

fun kv_op_ok :: "kv_op \<Rightarrow> bool" where
  "kv_op_ok (Put kv) = (has_nul kv \<and> length kv < 65536)"
| "kv_op_ok (Del k) = True"

fun run_ops ::
  "(bytes \<Rightarrow> 's \<Rightarrow> (int \<times> 's) option) \<Rightarrow> (bytes \<Rightarrow> 's \<Rightarrow> (int \<times> 's) option) \<Rightarrow>
   kv_op list \<Rightarrow> 's \<Rightarrow> (int list \<times> 's) option" where
  "run_ops put del [] s = Some ([], s)"
| "run_ops put del (op # ops) s = do {
     (r, s1) \<leftarrow> (case op of Put kv \<Rightarrow> put kv s | Del k \<Rightarrow> del k s);
     (rs, s2) \<leftarrow> run_ops put del ops s1;
     Some (r # rs, s2)
   }"

text \<open>An empty store on 64-byte pages.\<close>

definition sample_store :: store where
  "sample_store = \<lparr>mem = [0, 0, 0, 0, 56, 0, 0, 0] @ replicate 56 0, filesz = 64, pagesize = 64,
     space = 0, index = [], idx_max = 0\<rparr>"

subsection \<open>Operations on the representation\<close>

lemma store_holds_ok: "store_holds s kvs \<Longrightarrow> kvs_ok kvs"
  by (auto simp: store_holds_def store_rep_def)

lemma read_index:
  assumes "store_rep s ents" "i < length ents"
  shows "index_at s i = Some (fst (ents ! i))" "info_sz (mem s) (fst (ents ! i)) = Some (length (snd (ents ! i)))"
    "peek (mem s) (fst (ents ! i) + 2) (length (snd (ents ! i))) = Some (snd (ents ! i))"
    "info_keyvalue s (fst (ents ! i)) = Some (snd (ents ! i))"
proof -
  have d: "file_data s (mset ents)" "index_rep s ents" using assms(1) by (auto simp: store_rep_def)
  have "(fst (ents ! i), snd (ents ! i)) \<in># mset ents" using assms(2) by simp
  note r = read_entry [OF d(1) this]
  show "index_at s i = Some (fst (ents ! i))" using index_at_rep [OF d(2) assms(2)] .
  show "info_sz (mem s) (fst (ents ! i)) = Some (length (snd (ents ! i)))"
    "peek (mem s) (fst (ents ! i) + 2) (length (snd (ents ! i))) = Some (snd (ents ! i))" by (fact r)+
  then show "info_keyvalue s (fst (ents ! i)) = Some (snd (ents ! i))" by (simp add: info_keyvalue_def)
qed

text \<open>Where \<^verbatim>\<open>store_find\<close> leads, in terms of the entries.\<close>

lemma find_splitE:
  assumes "store_rep s ents"
  obtains (found) L a old R where "ents = L @ (a, old) # R" "cstr old = cstr key"
      "\<forall>x\<in>set (map snd L). cstr x < cstr key" "\<forall>y\<in>set (map snd R). cstr key < cstr y"
      "store_find s key = Some (length L)" "store_eq s (length L) key = Some True"
  | (absent) L R where "ents = L @ R"
      "\<forall>x\<in>set (map snd L). cstr x < cstr key" "\<forall>y\<in>set (map snd R). cstr key < cstr y"
      "store_find s key = Some (length L)" "store_eq s (length L) key = Some False"
proof -
  have ok: "kvs_ok (map snd ents)" using assms by (simp add: store_rep_def)
  note f = store_find_rep [OF assms, of key]
  from ok show thesis
  proof (cases rule: kv_pos_split [where k = "cstr key"])
    case (found xs old ys)
    from found(1) obtain L e R where e: "ents = L @ e # R" "map snd L = xs" "snd e = old" "map snd R = ys"
      by (auto simp: map_eq_append_conv map_eq_Cons_conv)
    have "length L = length xs" using e(2) by auto
    moreover have "map snd ents ! length L = old" using e(1,3) by (simp add: nth_append)
    ultimately show thesis using that(1) [of L "fst e" old R] e found f store_eq_rep [OF assms, of "length L" key] by auto
  next
    case (absent xs ys)
    from absent(1) obtain L R where e: "ents = L @ R" "map snd L = xs" "map snd R = ys"
      by (auto simp: map_eq_append_conv)
    have l: "length L = length xs" using e(2) by auto
    have "\<not> (length L < length ents \<and> cstr (map snd ents ! length L) = cstr key)"
    proof
      assume h: "length L < length ents \<and> cstr (map snd ents ! length L) = cstr key"
      then have "map snd ents ! length L = ys ! 0" "0 < length ys" using e l absent(1) by (auto simp: nth_append)
      then have "map snd ents ! length L \<in> set ys" by simp
      with absent(4) h show False by auto
    qed
    then show thesis using that(2) [of L R] e absent f l store_eq_rep [OF assms, of "length L" key] by auto
  qed
qed

lemma store_put_holds:
  assumes "os_sane os" "store_holds s kvs" "has_nul kv" "length kv < 65536"
  shows "\<exists>r s'. store_put os kv s = Some (r, s') \<and>
    (r = 0 \<and> s' = s \<and> kv \<in> set kvs \<or>
     r = 1 \<and> kv \<notin> set kvs \<and> store_holds s' (kv_put kv kvs) \<or>
     r = -1 \<and> kv \<notin> set kvs \<and> store_holds s' (kv_del (cstr kv) kvs) \<and> put_may_fail os s kv)"
proof -
  from assms(2) obtain ents where rep: "store_rep s ents" and kvs: "map snd ents = kvs" by (auto simp: store_holds_def)
  have ok: "kvs_ok kvs" using rep kvs by (simp add: store_rep_def)
  have len: "0 < length kv" using assms(3) by (cases kv) auto
  from rep show ?thesis
  proof (cases rule: find_splitE [where key = kv])
    case (found L a old R)
    have k: "kvs = map snd L @ old # map snd R" using found(1) kvs by simp
    have put: "kv_put kv kvs = map snd L @ kv # map snd R" "kv_del (cstr kv) kvs = map snd (L @ R)"
      using kv_put_replace [OF found(3,4,2)] kv_del_append(2) [OF found(3,4,2)] k by simp_all
    note rd = read_index [OF rep, of "length L"]
    have same: "store_put os kv s = (if old = kv then Some (0, s) else put_old os kv (length L) s)"
      using rd found by (auto simp: store_put_def)
    show ?thesis
    proof (cases "old = kv")
      case True
      then show ?thesis using same k by simp
    next
      case False
      have "kv \<notin> set kvs" using False found(3,4) k by fastforce
      moreover have "kvs_ok (map snd L @ kv # map snd R)" using kvs_ok_put [OF ok assms(3)] put by simp
      ultimately show ?thesis using put_old_ok [OF assms(1) rep [unfolded found(1)] len assms(4)] put False same by auto
    qed
  next
    case (absent L R)
    have k: "kvs = map snd L @ map snd R" using absent(1) kvs by simp
    have put: "kv_put kv kvs = map snd L @ kv # map snd R" "kv_del (cstr kv) kvs = map snd (L @ R)"
      using kv_put_append [OF absent(2,3)] kv_del_append(1) [OF absent(2,3)] k by simp_all
    have "kv \<notin> set kvs" using absent(2,3) k by fastforce
    moreover have "kvs_ok (map snd L @ kv # map snd R)" using kvs_ok_put [OF ok assms(3)] put by simp
    moreover have "store_put os kv s = put_new os kv (length L) s" using absent by (simp add: store_put_def)
    ultimately show ?thesis using put_new_ok [OF assms(1) rep [unfolded absent(1)] len assms(4)] put by auto
  qed
qed

lemma store_del_holds:
  assumes "os_sane os" "store_holds s kvs"
  shows "\<exists>r s'. store_del os (Some key) s = Some (r, s') \<and> store_holds s' (kv_del (cstr key) kvs) \<and>
    r = (if cstr key \<in> dom (kv_map kvs) then 1 else 0) \<and> (r = 0 \<longrightarrow> s' = s)"
proof -
  from assms(2) obtain ents where rep: "store_rep s ents" and kvs: "map snd ents = kvs" by (auto simp: store_holds_def)
  from rep show ?thesis
  proof (cases rule: find_splitE [where key = key])
    case (found L a old R)
    have del: "kv_del (cstr key) kvs = map snd (L @ R)" and dm: "cstr key \<in> dom (kv_map kvs)"
      using kv_del_append(2) [OF found(3,4,2)] found(1,2) kvs by (auto simp: kv_map_dom)
    have d: "file_data s (add_mset (a, old) (mset (L @ R)))" "index_rep s (L @ (a, old) # R)"
      "kvs_ok (map snd (L @ R))"
      using rep found(1) by (auto simp: store_rep_def kvs_ok_append kvs_ok_Cons)
    from dealloc_data [OF assms(1) d(1)] obtain s1 where s1: "store_file_dealloc os a s = Some s1"
      "file_data s1 (mset (L @ R))" "same_index s s1" by blast
    let ?s = "s1\<lparr>index := map (Some \<circ> fst) (L @ R)\<rparr>"
    have "index_at s (length L) = Some a" using index_at_rep [OF d(2), of "length L"] by simp
    then have "store_del os (Some key) s = Some (1, ?s)"
      using found s1 d(2) by (simp add: store_del_def store_info_free_def store_index_delete_def
          index_rep_def same_index_def list_update_append)
    moreover have "store_rep ?s (L @ R)" using s1 d by (simp add: store_rep_def index_rep_def same_index_def)
    ultimately show ?thesis using del dm by (auto simp: store_holds_def)
  next
    case (absent L R)
    have "kv_del (cstr key) kvs = kvs" "cstr key \<notin> dom (kv_map kvs)"
      using kv_del_append(1) [OF absent(2,3)] absent(1-3) kvs by (auto simp: kv_map_dom)
    then show ?thesis using absent assms(2) by (auto simp: store_del_def)
  qed
qed

lemma store_get_holds:
  assumes "store_holds s kvs"
  shows "store_get_kv s key = Some (kv_map kvs (cstr key))"
proof -
  from assms obtain ents where rep: "store_rep s ents" and kvs: "map snd ents = kvs" by (auto simp: store_holds_def)
  from rep show ?thesis
  proof (cases rule: find_splitE [where key = key])
    case (found L a old R)
    have k: "kvs = map snd L @ old # map snd R" using found(1) kvs by simp
    have "cstr key \<notin> dom (kv_map (map snd L))" using found(3) by (auto simp: kv_map_dom)
    then have "kv_map kvs (cstr key) = Some old"
      using k found(2) by (simp add: kv_map_append kv_map_Cons map_add_dom_app_simps)
    then show ?thesis using found read_index [OF rep, of "length L"]
      by (simp add: store_get_kv_def store_get_def)
  next
    case (absent L R)
    then have "cstr key \<notin> dom (kv_map kvs)" using kvs by (auto simp: kv_map_dom)
    then have "kv_map kvs (cstr key) = None" by blast
    then show ?thesis using absent by (simp add: store_get_kv_def store_get_def)
  qed
qed

lemma store_walk_rep:
  assumes "store_rep s ents" "i \<le> length ents" "length ents - i < k"
  shows "store_walk k s (store_get_next s i) = Some (map snd (drop i ents))"
  using assms(2,3)
proof (induction k arbitrary: i)
  case (Suc k)
  have l: "index s = map (Some \<circ> fst) ents" using assms(1) by (simp add: store_rep_def index_rep_def)
  show ?case
  proof (cases "i < length ents")
    case True
    then have "drop i ents = ents ! i # drop (Suc i) ents" by (simp add: Cons_nth_drop_Suc)
    moreover have "store_walk k s (store_get_next s (Suc i)) = Some (map snd (drop (Suc i) ents))"
      using Suc.prems True by (intro Suc.IH) simp_all
    ultimately show ?thesis using True l read_index(4) [OF assms(1) True] by (simp add: store_get_next_def)
  next
    case False
    then show ?thesis using Suc.prems l by (simp add: store_get_next_def)
  qed
qed simp

lemma store_all_holds: "store_holds s kvs \<Longrightarrow> store_all s = Some kvs"
  using store_walk_rep [of s _ 0] by (auto simp: store_holds_def store_all_def store_get_first_def store_rep_def index_rep_def)

subsection \<open>Opening a file\<close>

lemma roundup_page_id:
  assumes "page_size_ok p" "p dvd n" "n < 2 ^ 32"
  shows "roundup n p = n"
proof -
  from assms(1) obtain k where k: "p = 2 ^ k" "k < 32" by (metis page_size_okE)
  then have r: "roundup n p = p * ((n + (p - 1)) div p)" using roundup_eq [of n k] page_dvd_less [OF assms] by simp
  have p: "0 < p" using k by simp
  from assms(2) obtain q where "n = p * q" by auto
  moreover have "(p * q + (p - 1)) div p = q + (p - 1) div p" using p by (intro div_mult_self4) simp
  moreover have "(p - 1) div p = 0" using p by simp
  ultimately show ?thesis using r by simp
qed

lemma open_scan_rep:
  assumes "img = A @ M" "lay rs M" "length img = fsz" "fsz < 2 ^ 32" "length rs < k"
  shows "open_scan k img fsz (length A) n = Some (fsz, n + length (filter is_data rs))"
  using assms
proof (induction k arbitrary: A M rs n)
  case (Suc k)
  show ?case
  proof (cases rs)
    case Nil
    with Suc.prems show ?thesis by simp
  next
    case (Cons r rs')
    with Suc.prems(2) obtain c M' where c: "M = c @ M'" "chunk r c" "lay rs' M'" by (auto simp: lay_Cons_iff)
    note l = chunk_length [OF c(2)] and cb = chunk_bounds [OF c(2)]
    have m: "img = A @ c @ M'" using Suc.prems(1) c(1) by simp
    have lt: "length A < fsz" "length A + rsize r \<le> fsz" using Suc.prems(3) m l cb by auto
    have "sub32 fsz (rsize r) = fsz - rsize r" using lt Suc.prems(4) by (intro sub32_id) auto
    moreover have "add32 (length A) (rsize r) = length (A @ c)" using lt l Suc.prems(4) by (simp add: add32_id)
    moreover have "open_scan k img fsz (length (A @ c)) n' = Some (fsz, n' + length (filter is_data rs'))" for n'
      using Suc.prems Cons c m by (intro Suc.IH [where M = M']) auto
    ultimately show ?thesis
      using Cons lt is_gap_chunk [OF c(2) refl, of A M', folded m] get_size_chunk [OF c(2) refl, of A M', folded m]
      by (cases r) auto
  qed
qed simp

lemma open_dedup_distinct:
  assumes "store_rep s ents" "0 < i" "length ents - i < k"
  shows "open_dedup k i s = Some s"
  using assms(2,3)
proof (induction k arbitrary: i)
  case (Suc k)
  have l: "length (index s) = length ents" using assms(1) by (simp add: store_rep_def index_rep_def)
  show ?case
  proof (cases "i < length ents")
    case True
    have d: "file_data s (mset ents)" using assms(1) by (simp add: store_rep_def)
    have ok: "kvs_ok (map snd ents)" using assms(1) by (simp add: store_rep_def)
    let ?p = "ents ! (i - 1)" and ?e = "ents ! i"
    have i: "i - 1 < length ents" using True by simp
    have "(fst ?p, snd ?p) \<in># mset ents" using i by (simp del: One_nat_def)
    from file_data_key [OF d this] obtain X where X: "drop (fst ?p + 2) (mem s) = snd ?p @ X" by blast
    have n: "has_nul (snd ?p)" using ok i by (simp add: kvs_ok_def del: One_nat_def)
    have "cstr (snd ?p) < cstr (snd ?e)"
      using ok True i Suc.prems(1) by (auto simp: kvs_ok_def sorted_wrt_iff_nth_less)
    moreover from key_cmp_rep [OF assms(1) True, where key = "cstr (snd ?p)"] obtain r where
      "key_cmp s (cstr (snd ?p)) i = Some r" "r = 0 \<longleftrightarrow> cstr (cstr (snd ?p)) = cstr (snd ?e)" using True by (metis nth_map)
    ultimately have "strcmp (cstr (snd ?p)) (drop (fst ?e + 2) (mem s)) = Some r" "r \<noteq> 0"
      using read_index(1) [OF assms(1) True] by (auto simp: key_cmp_def cstr_id)
    moreover have "cstr_at (mem s) (fst ?p + 2) = Some (cstr (snd ?p))"
      using X n by (simp add: cstr_at_def cstr_append_nul)
    ultimately show ?thesis using Suc True l read_index(1) [OF assms(1) True] read_index(1) [OF assms(1) i]
      by simp
  qed (use l in simp)
qed simp

lemma open_index_Some:
  assumes "open_scan (fsz + 1) m fsz 0 0 = Some (offset, n)"
    "(if n \<noteq> 0 then store_index_ensure os (n - 1)
        \<lparr>mem = m, filesz = fsz, pagesize = pg, space = offset, index = [], idx_max = 0\<rparr>
      else (0, \<lparr>mem = m, filesz = fsz, pagesize = pg, space = offset, index = [], idx_max = 0\<rparr>)) = (0, s1)"
    "store_repack os s1 = Some s2" "open_dedup (length (index s2) + 1) 1 s2 = Some s3"
  shows "open_index os pg fsz m = Some (Some s3)"
  unfolding open_index_def assms(1) using assms(2-4) by (simp split del: if_split del: open_dedup.simps)

text \<open>
  Opening a file that is a sequence of records with distinct keys gives the store of these
  records, whatever gaps the file has.
\<close>

lemma store_file_open_rep:
  assumes "page_size_ok pg" "img = file @ replicate (fsz - length file) 0" "length img = fsz" "lay rs img"
    "fsz = max pg (roundup (length file) pg)" "pg dvd fsz" "fsz < 2 ^ 32" "length file < UINT32_MAX"
    "\<forall>n. os_realloc os n \<and> os_mmap os n \<and> os_ftruncate os n = 0"
    "kvs_ok (sort_key cstr (map snd (datas 0 rs)))"
  obtains s where "store_file_open os pg file = Some (Some s)"
    "store_holds s (sort_key cstr (map snd (datas 0 rs)))"
proof -
  let ?n = "length (filter is_data rs)"
  let ?s0 = "\<lparr>mem = img, filesz = fsz, pagesize = pg, space = fsz, index = [], idx_max = 0\<rparr>"
  have pos: "0 < fsz" using page_size_8_dvd [OF assms(1)] assms(5) by linarith
  have nrs: "length rs < fsz + 1" using lay_length_le [OF assms(4)] lay_length [OF assms(4)] assms(3) by simp
  have scan: "open_scan (fsz + 1) img fsz 0 0 = Some (fsz, ?n)"
    using open_scan_rep [of img "[]" img rs fsz "fsz + 1" 0] assms(3,4,7) nrs by simp
  have "?n \<le> length rs" by simp
  have "8 * ?n \<le> tsize rs" using length_datas [OF assms(4), of 0] length_datas_eq [of 0 rs] by simp
  then have n: "?n < 2 ^ 29" using lay_length [OF assms(4)] assms(3,7) by simp
  obtain j where ens: "(if ?n \<noteq> 0 then store_index_ensure os (?n - 1) ?s0 else (0, ?s0)) = (0, ?s0\<lparr>idx_max := j\<rparr>)" "?n \<le> j"
  proof (cases "?n = 0")
    case False
    have "?n - 1 < 2 ^ 29" using n by simp
    from index_capacity [OF this] have "?n \<le> roundup (add32 (?n - 1) 1) STORE_INCREMENT" using False by linarith
    then show thesis using False assms(9)
      by (intro that [of "roundup (add32 (?n - 1) 1) STORE_INCREMENT"]) (simp_all add: store_index_ensure_def Let_def)
  qed (auto intro: that [of 0])
  let ?s1 = "?s0\<lparr>idx_max := j\<rparr>"
  have "file_rep rs ?s1" using assms(1,3,4,6,7) pos by (simp add: file_rep_def geometry_def)
  moreover have "\<And>a kv. (a, kv) \<in> set (datas 0 rs) \<Longrightarrow> has_nul kv" using assms(10) by (force simp: kvs_ok_def)
  moreover have "?n \<le> idx_max ?s1" using ens(2) by simp
  ultimately obtain m sp where r: "store_repack os ?s1 = Some (?s1\<lparr>space := sp, mem := m,
      index := map (Some \<circ> fst) (sort_key (cstr \<circ> snd) (datas 0 (filter is_data rs)))\<rparr>)"
    "file_rep (filter is_data rs) (?s1\<lparr>space := sp, mem := m\<rparr>)" "sp \<le> space ?s1"
    by (rule repack_rep)
  let ?ents = "sort_key (cstr \<circ> snd) (datas 0 (filter is_data rs))"
  let ?s2 = "?s1\<lparr>space := sp, mem := m, index := map (Some \<circ> fst) ?ents\<rparr>"
  have snd: "map snd ?ents = sort_key cstr (map snd (datas 0 rs))"
    using datas_filter_snd [of 0 rs 0] by (metis sort_key_map)
  have "length ?ents = ?n" using length_datas_eq [of 0 "filter is_data rs"] by simp
  then have rep: "store_rep ?s2 ?ents" using file_data_rep [OF r(2)] snd assms(10) ens(2)
    by (simp add: store_rep_def index_rep_def file_data_def file_rep_def geometry_def)
  have "open_dedup (length (index ?s2) + 1) 1 ?s2 = Some ?s2"
    using rep by (rule open_dedup_distinct) simp_all
  then have "store_file_open os pg file = Some (Some ?s2)"
    using assms(2,3,8,9) open_index_Some [OF scan ens(1) r(1)]
    unfolding store_file_open_def Let_def assms(5) [symmetric] by simp
  moreover have "store_holds ?s2 (sort_key cstr (map snd (datas 0 rs)))"
    unfolding store_holds_def using rep snd by blast
  ultimately show thesis by (rule that)
qed

lemma sort_key_kvs: "mset xs = mset kvs \<Longrightarrow> kvs_ok kvs \<Longrightarrow> sort_key cstr xs = kvs"
  using kvs_ok_inj [of kvs] kvs_ok_sorted [of kvs] mset_eq_setD [of xs kvs]
  by (intro sort_key_inj_key_eq) auto

text \<open>The image of a store is a sequence of records, the last of which is the final gap.\<close>

lemma store_image:
  assumes "store_holds s kvs"
  obtains rs where "lay rs (mem s)" "mset (map snd (datas 0 rs)) = mset kvs" "geometry s"
proof -
  from assms obtain ents rs where e: "map snd ents = kvs" "file_rep rs s" "mset (datas 0 rs) = mset ents"
    by (auto simp: store_holds_def store_rep_def file_data_def)
  then have kv: "mset (map snd (datas 0 rs)) = mset kvs" by (metis mset_map)
  note f = e(2) [unfolded file_rep_def]
  show thesis
  proof (cases "space s < filesz s")
    case True
    let ?g = "Gap (filesz s - space s)"
    have "lay (rs @ [?g]) (take (space s) (mem s) @ drop (space s) (mem s))"
      using f True unfolding lay_append_iff by (metis lay_single)
    then show thesis using kv f by (intro that [of "rs @ [?g]"]) auto
  next
    case False
    then have "take (space s) (mem s) = mem s" using f by (simp add: geometry_def)
    then show thesis using kv f by (intro that [of rs]) auto
  qed
qed

lemma store_file_open_image:
  assumes "store_holds s kvs" "\<forall>n. os_realloc os n \<and> os_mmap os n \<and> os_ftruncate os n = 0"
  shows "\<exists>s'. store_file_open os (pagesize s) (mem s) = Some (Some s') \<and> store_holds s' kvs"
proof -
  from assms(1) obtain rs where rs: "lay rs (mem s)" "mset (map snd (datas 0 rs)) = mset kvs" "geometry s"
    by (rule store_image)
  note g = rs(3) [unfolded geometry_def]
  have srt: "sort_key cstr (map snd (datas 0 rs)) = kvs" using rs(2) store_holds_ok [OF assms(1)] by (rule sort_key_kvs)
  have ru: "roundup (length (mem s)) (pagesize s) = filesz s" using g roundup_page_id by metis
  have "pagesize s \<le> filesz s" using g by (simp add: dvd_imp_le)
  then have mx: "filesz s = max (pagesize s) (roundup (length (mem s)) (pagesize s))" using ru by simp
  have "filesz s + pagesize s \<le> 2 ^ 32" using page_dvd_less g by blast
  then have lt: "length (mem s) < UINT32_MAX" using page_size_8_dvd [of "pagesize s"] g by (simp add: UINT32_MAX_def)
  have img: "mem s = mem s @ replicate (filesz s - length (mem s)) 0" using g by simp
  have len: "length (mem s) = filesz s" "page_size_ok (pagesize s)" "pagesize s dvd filesz s" "filesz s < 2 ^ 32"
    using g by auto
  have "kvs_ok (sort_key cstr (map snd (datas 0 rs)))" using srt store_holds_ok [OF assms(1)] by simp
  from store_file_open_rep [OF len(2) img len(1) rs(1) mx len(3,4) lt assms(2) this] srt show ?thesis by metis
qed

lemma le_bytes_0: "le_bytes k 0 = replicate k 0"
  by (induction k) auto

lemma of_le_zeros: "of_le (replicate k 0) = 0"
  by (induction k) auto

lemma zero_chunk: "chunk (Gap 8) (replicate 8 0)"
  by (simp add: chunk.simps(2) le_bytes_0 of_le_zeros roundup_8 add32_def)

lemma lay_zeros: "lay (replicate n (Gap 8)) (replicate (8 * n) 0)"
proof (induction n)
  case (Suc n)
  have "replicate (8 * Suc n) (0 :: byte) = replicate 8 0 @ replicate (8 * n) 0"
    by (metis mult_Suc_right replicate_add)
  with Suc.IH zero_chunk show ?case by (metis lay_Cons_iff replicate_Suc)
qed simp

lemma datas_gaps: "datas off (replicate n (Gap g)) = []"
  by (induction n arbitrary: off) auto

lemma store_file_open_empty:
  assumes "page_size_ok pg" "\<forall>n. os_realloc os n \<and> os_mmap os n \<and> os_ftruncate os n = 0"
  shows "\<exists>s. store_file_open os pg [] = Some (Some s) \<and> store_holds s []"
proof -
  from assms(1) obtain k where k: "pg = 2 ^ k" "k < 32" by (metis page_size_okE)
  have lt: "pg < 2 ^ 32" unfolding k(1) using k(2) by (intro power_strict_increasing) auto
  have 8: "pg = 8 * (pg div 8)" using page_size_8_dvd [OF assms(1)] by simp
  have "roundup 0 pg = 0" using roundup_page_id [OF assms(1), of 0] by simp
  then have mx: "pg = max pg (roundup (length ([] :: bytes)) pg)" by simp
  have lay: "lay (replicate (pg div 8) (Gap 8)) (replicate pg 0)" using lay_zeros [of "pg div 8"] 8 by simp
  have ok: "kvs_ok (sort_key cstr (map snd (datas 0 (replicate (pg div 8) (Gap 8)))))"
    by (simp add: datas_gaps kvs_ok_def)
  show ?thesis
    by (rule store_file_open_rep [OF assms(1) _ _ lay mx _ lt _ assms(2) ok])
      (auto simp: datas_gaps UINT32_MAX_def)
qed

lemma kv_put_present:
  assumes "kvs_ok kvs" "kv \<in> set kvs"
  shows "kv_put kv kvs = kvs"
  using assms(1)
proof (cases rule: kv_pos_split [where k = "cstr kv"])
  case (found xs old ys)
  then have "old = kv" using assms(2) by auto
  then show ?thesis using kv_put_replace [OF found(4,5,2)] found(1) by simp
next
  case (absent xs ys)
  then show ?thesis using assms(2) by auto
qed

subsection \<open>The interface of a store\<close>

text \<open>
  What \<^verbatim>\<open>infod.c\<close> relies on.  A put that fails may lose the key, and changes nothing else.
\<close>

locale kv_store =
  fixes sane :: "'e \<Rightarrow> bool"
    and holds :: "'s \<Rightarrow> bytes list \<Rightarrow> bool"
    and put :: "'e \<Rightarrow> bytes \<Rightarrow> 's \<Rightarrow> (int \<times> 's) option"
    and del :: "'e \<Rightarrow> bytes \<Rightarrow> 's \<Rightarrow> (int \<times> 's) option"
    and get :: "'s \<Rightarrow> bytes \<Rightarrow> bytes option option"
    and all :: "'s \<Rightarrow> bytes list option"
  assumes holds_kvs: "holds s kvs \<Longrightarrow> kvs_ok kvs"
    and put_law: "sane e \<Longrightarrow> holds s kvs \<Longrightarrow> has_nul kv \<Longrightarrow> length kv < 65536 \<Longrightarrow>
      \<exists>r s'. put e kv s = Some (r, s') \<and>
        (r = 0 \<and> s' = s \<and> kv \<in> set kvs \<or> r = 1 \<and> holds s' (kv_put kv kvs) \<or>
         r = -1 \<and> holds s' (kv_del (cstr kv) kvs))"
    and del_law: "sane e \<Longrightarrow> holds s kvs \<Longrightarrow> \<exists>r s'. del e k s = Some (r, s') \<and>
        holds s' (kv_del (cstr k) kvs) \<and> r = (if cstr k \<in> dom (kv_map kvs) then 1 else 0)"
    and get_law: "holds s kvs \<Longrightarrow> get s k = Some (kv_map kvs (cstr k))"
    and all_law: "holds s kvs \<Longrightarrow> all s = Some kvs"
begin

lemma holds_unique: "holds s kvs \<Longrightarrow> holds s kvs' \<Longrightarrow> kvs = kvs'"
  using all_law [of s kvs] all_law [of s kvs'] by simp

lemma put_result:
  assumes "sane e" "holds s kvs" "has_nul kv" "length kv < 65536" "put e kv s = Some (r, s')"
  shows "r \<noteq> -1 \<Longrightarrow> holds s' (kv_put kv kvs)" "r = -1 \<Longrightarrow> holds s' (kv_del (cstr kv) kvs)"
  using put_law [OF assms(1-4)] assms(2,5) kv_put_present [OF holds_kvs [OF assms(2)], of kv] by auto

lemma get_after_put:
  assumes "sane e" "holds s kvs" "has_nul kv" "length kv < 65536" "put e kv s = Some (r, s')" "r \<noteq> -1"
  shows "get s' k = (if cstr k = cstr kv then Some (Some kv) else get s k)"
  using get_law [OF put_result(1) [OF assms], of k] get_law [OF assms(2), of k]
    kv_map_put [OF holds_kvs [OF assms(2)], of kv] by simp

lemma op_step:
  assumes "sane e" "holds s kvs" "kv_op_ok op"
  obtains r s1 kvs1 where "(case op of Put kv \<Rightarrow> put e kv s | Del k \<Rightarrow> del e k s) = Some (r, s1)" "holds s1 kvs1"
    "r \<noteq> -1 \<longrightarrow> kvs1 = kv_apply op kvs"
proof (cases op)
  case (Put kv)
  with assms(3) have v: "has_nul kv" "length kv < 65536" by simp_all
  from put_law [OF assms(1,2) v] obtain r s1 where p: "put e kv s = Some (r, s1)" by blast
  note res = put_result [OF assms(1,2) v p]
  show thesis
  proof (cases "r = -1")
    case True
    then show thesis using p res(2) Put by (intro that [of r s1 "kv_del (cstr kv) kvs"]) simp_all
  next
    case False
    then show thesis using p res(1) Put by (intro that [of r s1 "kv_put kv kvs"]) simp_all
  qed
next
  case (Del k)
  from del_law [OF assms(1,2), of k] obtain r s1 where "del e k s = Some (r, s1)" "holds s1 (kv_del (cstr k) kvs)" by blast
  then show thesis using Del by (intro that [of r s1 "kv_del (cstr k) kvs"]) simp_all
qed

lemma run_ops_total:
  assumes "sane e" "holds s kvs" "\<forall>op\<in>set ops. kv_op_ok op"
  shows "\<exists>rs s' kvs'. run_ops (put e) (del e) ops s = Some (rs, s') \<and> holds s' kvs' \<and>
    (-1 \<notin> set rs \<longrightarrow> kvs' = fold kv_apply ops kvs)"
  using assms(2,3)
proof (induction ops arbitrary: s kvs)
  case (Cons op ops)
  have "kv_op_ok op" using Cons.prems(2) by simp
  with assms(1) Cons.prems(1) obtain r s1 kvs1 where
    st: "(case op of Put kv \<Rightarrow> put e kv s | Del k \<Rightarrow> del e k s) = Some (r, s1)" "holds s1 kvs1"
    "r \<noteq> -1 \<longrightarrow> kvs1 = kv_apply op kvs" by (rule op_step)
  from Cons.IH [OF st(2)] Cons.prems(2) obtain rs s' kvs' where
    ih: "run_ops (put e) (del e) ops s1 = Some (rs, s')" "holds s' kvs'" "-1 \<notin> set rs \<longrightarrow> kvs' = fold kv_apply ops kvs1"
    by auto
  have "run_ops (put e) (del e) (op # ops) s = Some (r # rs, s')" using st(1) ih(1) by simp
  moreover have "-1 \<notin> set (r # rs) \<longrightarrow> kvs' = fold kv_apply (op # ops) kvs" using st(3) ih(3) by auto
  ultimately show ?case using ih(2) by blast
qed simp

end

interpretation store_if: kv_store os_sane store_holds store_put "\<lambda>os k. store_del os (Some k)" store_get_kv store_all
proof unfold_locales
  show "\<exists>r s'. store_put e kv s = Some (r, s') \<and>
      (r = 0 \<and> s' = s \<and> kv \<in> set kvs \<or> r = 1 \<and> store_holds s' (kv_put kv kvs) \<or>
       r = -1 \<and> store_holds s' (kv_del (cstr kv) kvs))"
    if "os_sane e" "store_holds s kvs" "has_nul kv" "length kv < 65536" for e s kvs kv
    using store_put_holds [OF that] by blast
  show "\<exists>r s'. store_del e (Some k) s = Some (r, s') \<and> store_holds s' (kv_del (cstr k) kvs) \<and>
      r = (if cstr k \<in> dom (kv_map kvs) then 1 else 0)"
    if "os_sane e" "store_holds s kvs" for e s kvs k
    using store_del_holds [OF that, of k] by blast
qed (simp_all add: store_holds_ok store_get_holds store_all_holds)

subsection \<open>Correctness of the store\<close>

lemma good_os_sane: "os_sane good_os"
  by (simp add: os_sane_def good_os_def)

lemma sample_chunk: "chunk (Gap 64) ([0, 0, 0, 0, 56, 0, 0, 0] @ replicate 56 0)"
  by code_simp

lemma sample_holds: "store_holds sample_store []"
proof -
  have "(64 :: nat) = 2 ^ 6" by simp
  then have "page_size_ok 64" unfolding page_size_ok_def by (intro image_eqI [of _ _ 6]) auto
  then have "file_rep [] sample_store" using sample_chunk
    by (simp add: file_rep_def geometry_def sample_store_def)
  then have "file_data sample_store {#}" by (auto simp: file_data_def intro: exI [of _ "[]"])
  then show ?thesis by (auto simp: store_holds_def store_rep_def index_rep_def kvs_ok_def sample_store_def)
qed

text \<open>
  C1. \<^verbatim>\<open>store_put\<close> refines insertion into a sorted list of keyvalues: on every store that holds
  \<open>kvs\<close> it returns without a fault; 0 and an unchanged store if the very keyvalue was there, 1
  and a store with the keyvalue inserted or replaced, or -1.  When it returns -1, memory was
  short, and the store holds everything but the key.
\<close>

theorem store_put_refines:
  assumes "os_sane os" "store_holds s kvs" "has_nul kv" "length kv < 65536"
  shows "\<exists>r s'. store_put os kv s = Some (r, s') \<and>
    (r = 0 \<and> s' = s \<and> kv \<in> set kvs \<or>
     r = 1 \<and> kv \<notin> set kvs \<and> store_holds s' (kv_put kv kvs) \<or>
     r = -1 \<and> kv \<notin> set kvs \<and> store_holds s' (kv_del (cstr kv) kvs) \<and> put_may_fail os s kv)"
  using store_put_holds [OF assms] .

theorem store_put_refines_witness:
  "\<exists>r s'. store_put good_os [107, 0, 118] sample_store = Some (r, s') \<and>
    (r = 0 \<and> s' = sample_store \<or> r = 1 \<and> store_holds s' (kv_put [107, 0, 118] []) \<or>
     r = -1 \<and> store_holds s' [])"
proof -
  have "has_nul [107, 0, 118]" "length [107, 0, 118 :: byte] < 65536" by simp_all
  from store_put_refines [OF good_os_sane sample_holds this] show ?thesis by (auto simp: kv_del_def)
qed

text \<open>
  C13. When the allocator and \<^verbatim>\<open>mmap\<close> work and the file stays below 4 GiB, \<^verbatim>\<open>store_put\<close> succeeds,
  and a following lookup of any key sees exactly that change.
\<close>

theorem store_put_then_get:
  assumes "os_sane os" "\<forall>n. os_realloc os n \<and> os_mmap os n" "store_holds s kvs" "has_nul kv"
    "length kv < 65536" "filesz s + info_size (length kv) + pagesize s < 2 ^ 32"
  shows "\<exists>r s'. store_put os kv s = Some (r, s') \<and> r \<in> {0, 1} \<and>
    (\<forall>k. store_get_kv s' k = (if cstr k = cstr kv then Some (Some kv) else store_get_kv s k))"
proof -
  have nf: "\<not> put_may_fail os s kv" using assms(2,6) by (auto simp: put_may_fail_def alloc_may_fail_def)
  from store_put_holds [OF assms(1,3,4,5)] nf obtain r s' where
    p: "store_put os kv s = Some (r, s')" "r \<in> {0, 1}" by auto
  then show ?thesis using store_if.get_after_put [OF assms(1,3,4,5) p(1)] by auto
qed

theorem store_put_then_get_witness:
  "\<exists>r s'. store_put good_os [107, 0, 118] sample_store = Some (r, s') \<and> r \<in> {0, 1} \<and>
    store_get_kv s' [107] = Some (Some [107, 0, 118]) \<and> store_get_kv s' [108] = store_get_kv sample_store [108]"
proof -
  have "\<forall>n. os_realloc good_os n \<and> os_mmap good_os n" "has_nul [107, 0, 118 :: byte]" "length [107, 0, 118 :: byte] < 65536"
    by (simp_all add: good_os_def)
  moreover have "filesz sample_store + info_size (length [107, 0, 118 :: byte]) + pagesize sample_store < 2 ^ 32"
    by (simp add: sample_store_def info_size_eq)
  ultimately obtain r s' where "store_put good_os [107, 0, 118] sample_store = Some (r, s')" "r \<in> {0, 1}"
    "\<forall>k. store_get_kv s' k = (if cstr k = cstr [107, 0, 118] then Some (Some [107, 0, 118]) else store_get_kv sample_store k)"
    using store_put_then_get [OF good_os_sane _ sample_holds] by metis
  then show ?thesis by (intro exI [of _ r] exI [of _ s']) simp
qed

text \<open>
  C14. \<^verbatim>\<open>store_del\<close> never faults; it returns 1 and removes the key if it is there, and returns 0
  leaving the store as it is otherwise.
\<close>

theorem store_del_refines:
  assumes "os_sane os" "store_holds s kvs"
  shows "\<exists>r s'. store_del os (Some key) s = Some (r, s') \<and> store_holds s' (kv_del (cstr key) kvs) \<and>
    r = (if cstr key \<in> dom (kv_map kvs) then 1 else 0) \<and> (r = 0 \<longrightarrow> s' = s)"
  using store_del_holds [OF assms] .

theorem store_del_refines_witness:
  "\<exists>s'. store_del good_os (Some [107]) sample_store = Some (0, s') \<and> store_holds s' []"
  using store_del_refines [OF good_os_sane sample_holds, of "[107]"] by (simp add: kv_del_def kv_map_def)

text \<open>
  C28. \<^verbatim>\<open>store_get\<close> finds exactly the keyvalue of the key, or \<^verbatim>\<open>NULL\<close> when the key is not in the
  store; the info it points to reads back the bytes that were put.
\<close>

theorem store_get_refines:
  assumes "store_holds s kvs"
  shows "store_get_kv s key = Some (kv_map kvs (cstr key))"
  using store_get_holds [OF assms] .

theorem store_get_refines_witness: "store_get_kv sample_store [107] = Some None"
  using store_get_refines [OF sample_holds, of "[107]"] by (simp add: kv_map_def)

text \<open>
  C29. The iteration \<^verbatim>\<open>store_get_first\<close>/\<^verbatim>\<open>store_get_next\<close> ends and visits every keyvalue of the
  store once, in increasing order of the keys.
\<close>

theorem store_iteration:
  assumes "store_holds s kvs"
  shows "store_all s = Some kvs \<and> sorted_wrt (<) (map cstr kvs)"
  using store_all_holds [OF assms] store_holds_ok [OF assms] by (simp add: kvs_ok_def)

theorem store_iteration_witness: "store_all sample_store = Some []"
  using store_iteration [OF sample_holds] by simp

text \<open>
  C27. The binary search \<^verbatim>\<open>store_find\<close> returns the position a linear scan for the first key that is
  not smaller would return.
\<close>

theorem store_find_is_lower_bound:
  assumes "store_holds s kvs"
  shows "store_find s key = Some (length (takeWhile (\<lambda>kv. cstr kv < cstr key) kvs))"
proof -
  from assms obtain ents where "store_rep s ents" "map snd ents = kvs" by (auto simp: store_holds_def)
  then show ?thesis using store_find_rep [of s ents key] by (simp add: kv_pos_def)
qed

theorem store_find_is_lower_bound_witness: "store_find sample_store [107] = Some 0"
  using store_find_is_lower_bound [OF sample_holds, of "[107]"] by simp

text \<open>
  C12. Persistence: opening the file of a store with \<^verbatim>\<open>store_file_open\<close> gives a store with the
  same contents.
\<close>

theorem store_reopen:
  assumes "store_holds s kvs" "\<forall>n. os_realloc os n \<and> os_mmap os n \<and> os_ftruncate os n = 0"
  shows "\<exists>s'. store_file_open os (pagesize s) (mem s) = Some (Some s') \<and> store_holds s' kvs"
  using store_file_open_image [OF assms] .

theorem store_reopen_witness:
  "\<exists>s'. store_file_open good_os 64 (mem sample_store) = Some (Some s') \<and> store_holds s' []"
proof -
  have "\<forall>n. os_realloc good_os n \<and> os_mmap good_os n \<and> os_ftruncate good_os n = 0" by (simp add: good_os_def)
  from store_reopen [OF sample_holds this] show ?thesis by (simp add: sample_store_def)
qed

text \<open>C32. Opening a new, empty file gives an empty store.\<close>

theorem store_open_new:
  assumes "page_size_ok pg" "\<forall>n. os_realloc os n \<and> os_mmap os n \<and> os_ftruncate os n = 0"
  shows "\<exists>s. store_file_open os pg [] = Some (Some s) \<and> store_holds s []"
  using store_file_open_empty [OF assms] .

theorem store_open_new_witness: "\<exists>s. store_file_open good_os 4096 [] = Some (Some s) \<and> store_holds s []"
proof -
  have "(4096 :: nat) = 2 ^ 12" by simp
  then have "page_size_ok 4096" unfolding page_size_ok_def by (intro image_eqI [of _ _ 12]) auto
  moreover have "\<forall>n. os_realloc good_os n \<and> os_mmap good_os n \<and> os_ftruncate good_os n = 0" by (simp add: good_os_def)
  ultimately show ?thesis by (rule store_open_new)
qed

text \<open>
  C7. Any sequence of puts and deletes runs without a fault on a store, and unless some put
  reported failure the store then holds what the same sequence makes of the abstract list.
\<close>

theorem store_sequences:
  assumes "os_sane os" "store_holds s kvs" "\<forall>op\<in>set ops. kv_op_ok op"
  shows "\<exists>rs s' kvs'. run_ops (store_put os) (\<lambda>k. store_del os (Some k)) ops s = Some (rs, s') \<and>
    store_holds s' kvs' \<and> (-1 \<notin> set rs \<longrightarrow> kvs' = fold kv_apply ops kvs)"
  using store_if.run_ops_total [OF assms] .

theorem store_sequences_witness:
  "\<exists>rs s' kvs'. run_ops (store_put good_os) (\<lambda>k. store_del good_os (Some k))
      [Put [107, 0, 118], Del [107], Put [97, 0]] sample_store = Some (rs, s') \<and> store_holds s' kvs' \<and>
    (-1 \<notin> set rs \<longrightarrow> kvs' = [[97, 0]])"
proof -
  have "\<forall>op\<in>set [Put [107, 0, 118], Del [107], Put [97, 0]]. kv_op_ok op" by simp
  from store_sequences [OF good_os_sane sample_holds this] show ?thesis
    by (simp add: kv_put_def kv_del_def)
qed

text \<open>
  C33. A failed \<^verbatim>\<open>store_put\<close> loses the key: after -1 a lookup of the key finds nothing, also when
  the key had a value before.  A comment in \<^verbatim>\<open>store_info_realloc\<close> says it takes care not to lose
  any data.
\<close>

theorem store_put_failure_loses_key:
  assumes "os_sane os" "store_holds s kvs" "has_nul kv" "length kv < 65536" "store_put os kv s = Some (-1, s')"
  shows "store_get_kv s' (cstr kv) = Some None"
proof -
  have "store_holds s' (kv_del (cstr kv) kvs)" using store_if.put_result(2) [OF assms] by simp
  from store_get_holds [OF this, of "cstr kv"] show ?thesis by (simp add: kv_map_del cstr_id)
qed

theorem store_put_failure_loses_key_witness:
  "map_option (\<lambda>(r, s'). store_get_kv s' (cstr [107, 0, 1]))
    (store_put (good_os\<lparr>os_realloc := (\<lambda>_. False)\<rparr>) [107, 0, 1] sample_store) = Some (Some None)"
proof -
  let ?os = "good_os\<lparr>os_realloc := (\<lambda>_. False)\<rparr>"
  have "map_option fst (store_put ?os [107, 0, 1] sample_store) = Some (-1)" by code_simp
  then obtain s' where p: "store_put ?os [107, 0, 1] sample_store = Some (-1, s')" by auto
  moreover have "os_sane ?os" by (simp add: os_sane_def good_os_def)
  ultimately show ?thesis
    using store_put_failure_loses_key [of ?os sample_store "[]" "[107, 0, 1]" s'] sample_holds by simp
qed



end
