(* ===== verification/Pattern_Match.thy ===== *)
theory Pattern_Match
  imports Infod_Prelude
begin

text \<open>
  The subscription pattern matcher, \<^verbatim>\<open>src/daemon/match.c\<close>.

  A \<^verbatim>\<open>const char *\<close> is the list of bytes from the pointer on; advancing it is \<open>tl\<close> and the
  terminating NUL is implicit.  The subject is either a string or the special pointer
  \<^verbatim>\<open>CHECK\<close> of a validity check.  The array \<^verbatim>\<open>parens[MAX_PAREN]\<close> with its current pointer is
  a stack, the innermost open parenthesis first.

  The second half gives the patterns an abstract syntax with a denotation (the pattern
  language of the \<^verbatim>\<open>PROTOCOL\<close> file) and shows that the matcher implements it.
\<close>

subsection \<open>The matcher\<close>

definition MAX_PAREN :: nat where
  "MAX_PAREN = 4"

abbreviation c_star :: byte where "c_star \<equiv> 0x2A"
abbreviation c_lpar :: byte where "c_lpar \<equiv> 0x28"
abbreviation c_rpar :: byte where "c_rpar \<equiv> 0x29"
abbreviation c_bar :: byte where "c_bar \<equiv> 0x7C"
abbreviation c_quest :: byte where "c_quest \<equiv> 0x3F"
abbreviation c_bslash :: byte where "c_bslash \<equiv> 0x5C"

text \<open>The byte a pointer points to: NUL at the end of the string.\<close>

definition at0 :: "bytes \<Rightarrow> byte" where
  "at0 s = (case s of [] \<Rightarrow> 0 | b # _ \<Rightarrow> b)"

datatype subject = CHECK | Str bytes

record paren =
  start :: subject
  failed :: bool
  success :: "subject option"

text \<open>The loop of \<^verbatim>\<open>utf8eq\<close> over the continuation bytes of its first argument.\<close>

fun utf8eq_rest :: "bytes \<Rightarrow> bytes \<Rightarrow> bool" where
  "utf8eq_rest [] b = True"
| "utf8eq_rest (x # a) b =
     (if x AND 0xC0 = 0x80 then (if x \<noteq> at0 b then False else utf8eq_rest a (tl b)) else True)"

definition utf8eq :: "bytes \<Rightarrow> bytes \<Rightarrow> bool" where
  "utf8eq a b =
     (if at0 a \<noteq> at0 b then False
      else if at0 a AND 0xC0 \<noteq> 0xC0 then True
      else utf8eq_rest (tl a) (tl b))"

text \<open>
  \<^verbatim>\<open>utf8inc\<close>: steps over the lead byte and its continuation bytes.  The callers test that the
  pointer is not at the terminator.
\<close>

definition utf8inc :: "bytes \<Rightarrow> bytes" where
  "utf8inc s =
     (if at0 s AND 0xC0 = 0xC0 then dropWhile (\<lambda>b. b AND 0xC0 = 0x80) (tl s) else tl s)"

lemma length_utf8inc_less: "at0 s \<noteq> 0 \<Longrightarrow> length (utf8inc s) < length s"
  using length_dropWhile_le [of "\<lambda>b. b AND 0xC0 = 0x80" "tl s"]
  by (cases s) (auto simp: utf8inc_def at0_def le_imp_less_Suc)

text \<open>The search loop of \<^verbatim>\<open>*c\<close>: \<^verbatim>\<open>while (*string && !utf8eq(string, pattern)) utf8inc(&string)\<close>.\<close>

function star_skip :: "bytes \<Rightarrow> bytes \<Rightarrow> bytes" where
  "star_skip pattern s =
     (if at0 s \<noteq> 0 \<and> \<not> utf8eq s pattern then star_skip pattern (utf8inc s) else s)"
  by pat_completeness auto
termination
  by (relation "measure (\<lambda>(p, s). length s)") (auto simp: length_utf8inc_less)

declare star_skip.simps [simp del]

text \<open>The tests after the loop of \<^verbatim>\<open>do_match\<close>.\<close>

definition match_end :: "subject \<Rightarrow> paren list \<Rightarrow> int" where
  "match_end string ps =
     (if ps \<noteq> [] then -1
      else case string of CHECK \<Rightarrow> 1 | Str s \<Rightarrow> (if at0 s = 0 then 1 else 0))"

text \<open>\<^verbatim>\<open>if (!paren->failed && !paren->success) paren->success = string\<close>\<close>

definition note_success :: "subject \<Rightarrow> paren \<Rightarrow> paren" where
  "note_success string q =
     (if \<not> failed q \<and> success q = None then q\<lparr>success := Some string\<rparr> else q)"

text \<open>A single character element: \<^verbatim>\<open>any\<close> is a \<^verbatim>\<open>?\<close>, otherwise the byte \<open>p\<close> has to match.\<close>

definition char_matches :: "bool \<Rightarrow> byte \<Rightarrow> bytes \<Rightarrow> bool" where
  "char_matches any p s = (if any then at0 s \<noteq> 0 else at0 s = p)"

definition char_advance :: "bool \<Rightarrow> bytes \<Rightarrow> bytes" where
  "char_advance any s = (if any then utf8inc s else tl s)"

fun do_match :: "bytes \<Rightarrow> subject \<Rightarrow> paren list \<Rightarrow> int" where
  "do_match [] string ps = match_end string ps"
| "do_match (p # pattern) string ps =
     (if p = 0 then match_end string ps
      else if p = c_star then
        (let n = at0 pattern in
         if n = c_star \<or> n = c_lpar then -1
         else if n = 0 \<or> n = c_bar \<or> n = c_rpar then
           do_match pattern (case string of CHECK \<Rightarrow> CHECK | Str s \<Rightarrow> Str []) ps
         else if n = c_quest then do_match pattern string ps
         else if n = c_bslash \<and> at0 (tl pattern) = 0 then -1
         else do_match pattern
                (case string of CHECK \<Rightarrow> CHECK | Str s \<Rightarrow> Str (star_skip pattern s)) ps)
      else if p = c_lpar then
        (if length ps \<ge> MAX_PAREN then -1
         else do_match pattern string (\<lparr>start = string, failed = False, success = None\<rparr> # ps))
      else if p = c_bar then
        (case ps of [] \<Rightarrow> -1
         | q # up \<Rightarrow>
             do_match pattern (if string \<noteq> CHECK then start q else string)
               ((note_success string q)\<lparr>failed := False\<rparr> # up))
      else if p = c_rpar then
        (case ps of [] \<Rightarrow> -1
         | q # up \<Rightarrow>
             (case up of
                [] \<Rightarrow>
                  (if string \<noteq> CHECK
                   then (case success (note_success string q) of
                           None \<Rightarrow> 0
                         | Some s \<Rightarrow> do_match pattern s [])
                   else do_match pattern string [])
              | q' # up' \<Rightarrow>
                  (case success (note_success string q) of
                     Some s \<Rightarrow> do_match pattern (if string \<noteq> CHECK then s else string) up
                   | None \<Rightarrow> do_match pattern string (q'\<lparr>failed := True\<rparr> # up'))))
      else if p = c_bslash \<and> at0 pattern = 0 then -1
      else
        (let any = (p = c_quest);
             p' = (if p = c_bslash then at0 pattern else p);
             pattern' = (if p = c_bslash then tl pattern else pattern) in
         case string of
           CHECK \<Rightarrow> do_match pattern' string ps
         | Str s \<Rightarrow>
             if char_matches any p' s then do_match pattern' (Str (char_advance any s)) ps
             else (case ps of
                     q # up \<Rightarrow> do_match pattern' string (q\<lparr>failed := True\<rparr> # up)
                   | [] \<Rightarrow> 0)))"

definition match :: "bytes \<Rightarrow> bytes \<Rightarrow> int" where
  "match pattern string = do_match pattern (Str string) []"

definition match_isvalid :: "bytes \<Rightarrow> bool" where
  "match_isvalid pattern \<longleftrightarrow> do_match pattern CHECK [] = 1"

subsection \<open>The pattern language\<close>

text \<open>
  UTF-8: a continuation byte, and a character (a byte that is no continuation byte, with the
  continuation bytes that follow it).
\<close>


definition cont :: "byte \<Rightarrow> bool" where
  "cont b \<longleftrightarrow> b AND 0xC0 = 0x80"

definition meta :: "byte \<Rightarrow> bool" where
  "meta b \<longleftrightarrow> b \<in> {c_star, c_lpar, c_bar, c_rpar, c_quest, c_bslash}"

definition uchar :: "bytes \<Rightarrow> bool" where
  "uchar cs \<longleftrightarrow> cs \<noteq> [] \<and> hd cs \<noteq> 0 \<and> \<not> cont (hd cs) \<and> list_all cont (tl cs)"

text \<open>
  The elements of a pattern: a literal character, an escaped character \<^verbatim>\<open>\c\<close>, \<^verbatim>\<open>?\<close>, a \<^verbatim>\<open>*\<close>
  before a literal character, the pair \<^verbatim>\<open>*?\<close>, a \<^verbatim>\<open>*\<close> at the end of a branch, and a group
  \<^verbatim>\<open>(x|y|...)\<close>.
\<close>

datatype elem =
    Lit bytes
  | Esc bytes
  | Any
  | StarTo bytes
  | StarAny
  | StarEnd
  | Grp "elem list list"

text \<open>The concrete syntax of a pattern.\<close>

fun show_elem :: "elem \<Rightarrow> bytes" and show_seq :: "elem list \<Rightarrow> bytes"
  and show_alts :: "elem list list \<Rightarrow> bytes" where
  "show_elem (Lit cs) = cs"
| "show_elem (Esc cs) = c_bslash # cs"
| "show_elem Any = [c_quest]"
| "show_elem (StarTo cs) = c_star # cs"
| "show_elem StarAny = [c_star, c_quest]"
| "show_elem StarEnd = [c_star]"
| "show_elem (Grp bs) = c_lpar # show_alts bs @ [c_rpar]"
| "show_seq [] = []"
| "show_seq (e # es) = show_elem e @ show_seq es"
| "show_alts [] = []"
| "show_alts (b # bs) = show_seq b @ (if bs = [] then [] else c_bar # show_alts bs)"

fun wf_elem :: "elem \<Rightarrow> bool" and wf_seq :: "elem list \<Rightarrow> bool"
  and wf_alts :: "elem list list \<Rightarrow> bool" where
  "wf_elem (Lit cs) = (uchar cs \<and> \<not> meta (hd cs))"
| "wf_elem (Esc cs) = uchar cs"
| "wf_elem Any = True"
| "wf_elem (StarTo cs) = (uchar cs \<and> \<not> meta (hd cs))"
| "wf_elem StarAny = True"
| "wf_elem StarEnd = True"
| "wf_elem (Grp bs) = (bs \<noteq> [] \<and> wf_alts bs)"
| "wf_seq [] = True"
| "wf_seq (e # es) = (wf_elem e \<and> wf_seq es \<and> (e = StarEnd \<longrightarrow> es = []))"
| "wf_alts [] = True"
| "wf_alts (b # bs) = (wf_seq b \<and> wf_alts bs)"

fun depth_elem :: "elem \<Rightarrow> nat" and depth_seq :: "elem list \<Rightarrow> nat"
  and depth_alts :: "elem list list \<Rightarrow> nat" where
  "depth_elem (Grp bs) = Suc (depth_alts bs)"
| "depth_elem _ = 0"
| "depth_seq [] = 0"
| "depth_seq (e # es) = max (depth_elem e) (depth_seq es)"
| "depth_alts [] = 0"
| "depth_alts (b # bs) = max (depth_seq b) (depth_alts bs)"

text \<open>
  The denotation of a pattern, after the section \<^emph>\<open>Patterns\<close> of the \<^verbatim>\<open>PROTOCOL\<close> file: an
  element maps the rest of the subject to what it leaves of it; a group takes its first
  matching branch and never goes back.
\<close>

fun eat :: "bytes \<Rightarrow> bytes \<Rightarrow> bytes option" where
  "eat [] s = Some s"
| "eat (c # cs) s = (if at0 s = c then eat cs (tl s) else None)"

fun den_elem :: "elem \<Rightarrow> bytes \<Rightarrow> bytes option" and den_seq :: "elem list \<Rightarrow> bytes \<Rightarrow> bytes option"
  and den_alts :: "elem list list \<Rightarrow> bytes \<Rightarrow> bytes option" where
  "den_elem (Lit cs) s = eat cs s"
| "den_elem (Esc cs) s = eat cs s"
| "den_elem Any s = (if at0 s = 0 then None else Some (utf8inc s))"
| "den_elem (StarTo cs) s = eat cs (star_skip cs s)"
| "den_elem StarAny s = (if at0 s = 0 then None else Some (utf8inc s))"
| "den_elem StarEnd s = Some []"
| "den_elem (Grp bs) s = den_alts bs s"
| "den_seq [] s = Some s"
| "den_seq (e # es) s = (case den_elem e s of None \<Rightarrow> None | Some t \<Rightarrow> den_seq es t)"
| "den_alts [] s = None"
| "den_alts (b # bs) s = (case den_seq b s of None \<Rightarrow> den_alts bs s | Some t \<Rightarrow> Some t)"

text \<open>A pattern accepts a string that it matches up to the terminator.\<close>

definition accepts :: "elem list \<Rightarrow> bytes \<Rightarrow> bool" where
  "accepts es s = (case den_seq es s of None \<Rightarrow> False | Some t \<Rightarrow> at0 t = 0)"

subsection \<open>Relations of the proofs\<close>

text \<open>A byte that the matcher takes literally.\<close>

definition plain :: "byte \<Rightarrow> bool" where
  "plain b \<longleftrightarrow> b \<noteq> 0 \<and> \<not> meta b"

text \<open>
  What a mismatch does: it ends the match outside every group, and marks the innermost group
  inside one.  \<open>sim\<close> relates the denotation of a piece of pattern to the matcher's result.
\<close>

definition fails :: "bytes \<Rightarrow> paren list \<Rightarrow> int \<Rightarrow> bool" where
  "fails rest ps v =
     (case ps of [] \<Rightarrow> v = 0
      | q # up \<Rightarrow> \<exists>s'. v = do_match rest (Str s') (q\<lparr>failed := True\<rparr> # up))"

definition sim :: "bytes option \<Rightarrow> bytes \<Rightarrow> paren list \<Rightarrow> int \<Rightarrow> bool" where
  "sim d rest ps v =
     (case d of Some t \<Rightarrow> v = do_match rest (Str t) ps | None \<Rightarrow> fails rest ps v)"

text \<open>
  A group that has been matched up to its closing parenthesis: \<open>want\<close> is the string position
  the group leaves, if one of its branches matched.
\<close>

definition closed :: "bytes \<Rightarrow> paren list \<Rightarrow> bytes option \<Rightarrow> subject option \<Rightarrow> int \<Rightarrow> bool" where
  "closed rest up d0 found v \<longleftrightarrow>
     (\<exists>s g. v = do_match (c_rpar # rest) (Str s) (g # up) \<and>
        success (note_success (Str s) g) =
          (case found of Some t \<Rightarrow> Some t | None \<Rightarrow> map_option Str d0))"

text \<open>The frames of a validity check, and of a match against a string.\<close>

definition check_frame :: "paren \<Rightarrow> bool" where
  "check_frame q \<longleftrightarrow> \<not> failed q \<and> success q \<in> {None, Some CHECK}"

definition str_frame :: "paren \<Rightarrow> bool" where
  "str_frame q \<longleftrightarrow> start q \<noteq> CHECK \<and> success q \<noteq> Some CHECK"

text \<open>The verdict of the validity check against the result of a match.\<close>

definition agree :: "int \<Rightarrow> int \<Rightarrow> bool" where
  "agree v r \<longleftrightarrow> (v = 1 \<and> r \<in> {0, 1}) \<or> (v = -1 \<and> r \<in> {-1, 0})"

subsection \<open>Validity\<close>

lemma at0_simps [simp]: "at0 [] = 0" "at0 (b # bs) = b"
  by (auto simp: at0_def)

lemma agree_simps [simp]: "agree (-1) (-1)" "agree 1 1" "agree (-1) 0" "agree 1 0"
  by (auto simp: agree_def)

lemma agree_zero: "agree v r \<Longrightarrow> agree v 0"
  by (auto simp: agree_def)

lemma note_success_check: "check_frame q \<Longrightarrow> check_frame (note_success CHECK q) \<and> success (note_success CHECK q) = Some CHECK"
  by (auto simp: check_frame_def note_success_def)

lemma note_success_str: "str_frame q \<Longrightarrow> str_frame (note_success (Str s) q)"
  by (auto simp: str_frame_def note_success_def)

lemma frame_failed [simp]:
  "str_frame (q\<lparr>failed := b\<rparr>) = str_frame q" "check_frame q \<Longrightarrow> check_frame (q\<lparr>failed := False\<rparr>)"
  by (auto simp: check_frame_def str_frame_def)

lemma not_CHECK: "x \<noteq> CHECK \<longleftrightarrow> (\<exists>s. x = Str s)"
  by (cases x) auto

lemma frame_new [simp]:
  "str_frame \<lparr>start = Str s, failed = False, success = None\<rparr>"
  "check_frame \<lparr>start = CHECK, failed = False, success = None\<rparr>"
  by (auto simp: check_frame_def str_frame_def)

text \<open>The three cases of a step that look at the stack, with the rest of the pattern settled.\<close>

lemma agree_bar:
  assumes IH: "\<And>ps cs s. length ps = length cs \<Longrightarrow> list_all check_frame cs \<Longrightarrow>
      list_all str_frame ps \<Longrightarrow> agree (do_match pattern CHECK cs) (do_match pattern (Str s) ps)"
    and len: "length ps = length cs" and cs: "list_all check_frame cs" and ps: "list_all str_frame ps"
  shows "agree (do_match (c_bar # pattern) CHECK cs) (do_match (c_bar # pattern) (Str s) ps)"
proof (cases ps)
  case Nil
  with len show ?thesis by (simp add: agree_def)
next
  case (Cons q up)
  with len obtain c cup where c: "cs = c # cup" by (cases cs) auto
  from ps Cons obtain s' where "start q = Str s'" by (auto simp: str_frame_def not_CHECK)
  with Cons c IH [of "_ # up" "_ # cup"] len cs ps show ?thesis
    by (simp add: note_success_check note_success_str)
qed

lemma agree_rpar:
  assumes IH: "\<And>ps cs s. length ps = length cs \<Longrightarrow> list_all check_frame cs \<Longrightarrow>
      list_all str_frame ps \<Longrightarrow> agree (do_match pattern CHECK cs) (do_match pattern (Str s) ps)"
    and len: "length ps = length cs" and cs: "list_all check_frame cs" and ps: "list_all str_frame ps"
  shows "agree (do_match (c_rpar # pattern) CHECK cs) (do_match (c_rpar # pattern) (Str s) ps)"
proof (cases ps)
  case Nil
  with len show ?thesis by (simp add: agree_def)
next
  case (Cons q up)
  with len obtain c cup where c: "cs = c # cup" by (cases cs) auto
  have "success (note_success CHECK c) = Some CHECK" using cs c by (simp add: note_success_check)
  moreover have "success (note_success (Str s) q) \<noteq> Some CHECK"
    using ps Cons note_success_str [of q s] by (simp add: str_frame_def)
  ultimately show ?thesis
    using Cons c len cs ps IH [of up cup] IH [of "_ # tl up" cup]
    by (cases up; cases cup) (auto simp: not_CHECK intro: agree_zero split: option.splits)
qed

lemma agree_chr:
  assumes IH: "\<And>rest ps cs s. rest \<in> {pattern, tl pattern} \<Longrightarrow> length ps = length cs \<Longrightarrow>
      list_all check_frame cs \<Longrightarrow> list_all str_frame ps \<Longrightarrow>
      agree (do_match rest CHECK cs) (do_match rest (Str s) ps)"
    and p: "p \<notin> {0, c_star, c_lpar, c_bar, c_rpar}"
    and len: "length ps = length cs" and cs: "list_all check_frame cs" and ps: "list_all str_frame ps"
  shows "agree (do_match (p # pattern) CHECK cs) (do_match (p # pattern) (Str s) ps)"
  using p IH [OF _ len cs ps] len cs ps IH [of _ "_ # tl ps" cs]
  by (cases ps) (auto simp: Let_def intro: agree_zero)

lemma do_match_agree:
  "length ps = length cs \<Longrightarrow> list_all check_frame cs \<Longrightarrow> list_all str_frame ps \<Longrightarrow>
   agree (do_match pat CHECK cs) (do_match pat (Str s) ps)"
proof (induction "length pat" arbitrary: pat s ps cs rule: less_induct)
  case less
  note len = less.prems(1) and cs = less.prems(2) and ps = less.prems(3)
  show ?case
  proof (cases pat)
    case Nil
    with len show ?thesis by (cases cs) (auto simp: match_end_def agree_def)
  next
    case (Cons p pattern)
    have IH: "agree (do_match rest CHECK cs') (do_match rest (Str s') ps')"
      if "rest \<in> {pattern, tl pattern}" "length ps' = length cs'" "list_all check_frame cs'"
        "list_all str_frame ps'" for rest cs' ps' s'
      using less.hyps [of rest] that Cons by auto
    note IH1 = IH [of pattern, simplified]
    consider "p = 0" | (star) "p = c_star" | "p = c_lpar" | (bar) "p = c_bar" | (rpar) "p = c_rpar"
      | (chr) "p \<notin> {0, c_star, c_lpar, c_bar, c_rpar}" by blast
    then show ?thesis
    proof cases
      case star
      with Cons IH1 [OF len cs ps] show ?thesis by (simp add: Let_def agree_def)
    next
      case bar
      then show ?thesis unfolding Cons using agree_bar [OF IH1 len cs ps] by simp
    next
      case rpar
      then show ?thesis unfolding Cons using agree_rpar [OF IH1 len cs ps] by simp
    next
      case chr
      then show ?thesis unfolding Cons by (intro agree_chr [OF IH _ len cs ps]) auto
    qed (use Cons len IH1 [of "_ # ps" "_ # cs"] cs ps in \<open>cases cs; auto simp: match_end_def agree_def\<close>)+
  qed
qed

subsection \<open>One step of the matcher on a string\<close>

lemma cont_not_meta: "cont b \<Longrightarrow> b \<noteq> 0 \<and> \<not> meta b"
  by (auto simp: cont_def meta_def)

lemma sim_simps [simp]:
  "sim (Some t) rest ps v \<longleftrightarrow> v = do_match rest (Str t) ps"
  "sim None rest ps v \<longleftrightarrow> fails rest ps v"
  by (auto simp: sim_def)

lemma do_match_plain: "plain c \<Longrightarrow> do_match (c # rest) (Str s) ps =
    (if at0 s = c then do_match rest (Str (tl s)) ps
     else (case ps of q # up \<Rightarrow> do_match rest (Str s) (q\<lparr>failed := True\<rparr> # up) | [] \<Rightarrow> 0))"
  by (auto simp: plain_def meta_def char_matches_def char_advance_def)

lemma do_match_esc: "c \<noteq> 0 \<Longrightarrow> do_match (c_bslash # c # rest) (Str s) ps =
    (if at0 s = c then do_match rest (Str (tl s)) ps
     else (case ps of q # up \<Rightarrow> do_match rest (Str s) (q\<lparr>failed := True\<rparr> # up) | [] \<Rightarrow> 0))"
  by (auto simp: char_matches_def char_advance_def)

lemma do_match_any: "do_match (c_quest # rest) (Str s) ps =
    (if at0 s \<noteq> 0 then do_match rest (Str (utf8inc s)) ps
     else (case ps of q # up \<Rightarrow> do_match rest (Str s) (q\<lparr>failed := True\<rparr> # up) | [] \<Rightarrow> 0))"
  by (auto simp: char_matches_def char_advance_def)

lemma do_match_star_end: "at0 rest \<in> {0, c_bar, c_rpar} \<Longrightarrow>
    do_match (c_star # rest) (Str s) ps = do_match rest (Str []) ps"
  by auto

lemma do_match_star_any: "do_match (c_star # c_quest # rest) (Str s) ps = do_match (c_quest # rest) (Str s) ps"
  by auto

lemma do_match_star_to: "plain c \<Longrightarrow>
    do_match (c_star # c # rest) (Str s) ps = do_match (c # rest) (Str (star_skip (c # rest) s)) ps"
  by (auto simp: plain_def meta_def Let_def)

lemma do_match_lpar: "length ps < MAX_PAREN \<Longrightarrow> do_match (c_lpar # rest) (Str s) ps =
    do_match rest (Str s) (\<lparr>start = Str s, failed = False, success = None\<rparr> # ps)"
  by auto

lemma do_match_bar: "do_match (c_bar # rest) (Str s) (q # up) =
    do_match rest (start q) ((note_success (Str s) q)\<lparr>failed := False\<rparr> # up)"
  by auto

lemma do_match_rpar: "do_match (c_rpar # rest) (Str s) (q # up) =
    (case success (note_success (Str s) q) of
       Some t \<Rightarrow> do_match rest t up
     | None \<Rightarrow> (case up of [] \<Rightarrow> 0 | q' # up' \<Rightarrow> do_match rest (Str s) (q'\<lparr>failed := True\<rparr> # up')))"
  by (auto split: list.split option.split)

declare do_match.simps(2) [simp del]

lemma fails_plain: "list_all plain cs \<Longrightarrow> fails (cs @ rest) ps v \<Longrightarrow> fails rest ps v"
proof (induction cs arbitrary: v)
  case (Cons c cs)
  show ?case
  proof (cases ps)
    case Nil
    with Cons show ?thesis by (simp add: fails_def)
  next
    case ps: (Cons q up)
    with Cons.prems obtain s' where v: "v = do_match (c # cs @ rest) (Str s') (q\<lparr>failed := True\<rparr> # up)"
      by (auto simp: fails_def)
    with Cons.prems have "fails (cs @ rest) ps v"
      by (auto simp: do_match_plain fails_def ps)
    with Cons show ?thesis by simp
  qed
qed simp

lemma sim_eat: "list_all plain cs \<Longrightarrow> sim (eat cs s) rest ps (do_match (cs @ rest) (Str s) ps)"
proof (induction cs arbitrary: s)
  case (Cons c cs)
  show ?case
  proof (cases "at0 s = c")
    case True
    with Cons show ?thesis by (simp add: do_match_plain)
  next
    case False
    with Cons.prems have "fails (cs @ rest) ps (do_match ((c # cs) @ rest) (Str s) ps)"
      by (cases ps) (auto simp: do_match_plain fails_def)
    with Cons.prems have "fails rest ps (do_match ((c # cs) @ rest) (Str s) ps)"
      using fails_plain [of cs] by auto
    with False show ?thesis by (simp add: sim_def)
  qed
qed (simp add: sim_def)

lemma sim_esc:
  assumes "uchar cs"
  shows "sim (eat cs s) rest ps (do_match (c_bslash # cs @ rest) (Str s) ps)"
proof -
  from assms obtain c r where cs: "cs = c # r" and c: "c \<noteq> 0" and r: "list_all plain r"
    by (cases cs) (auto simp: uchar_def plain_def list_all_iff dest: cont_not_meta)
  show ?thesis
  proof (cases "at0 s = c")
    case True
    with cs c r sim_eat [OF r] show ?thesis by (simp add: do_match_esc)
  next
    case False
    with c cs have "fails (r @ rest) ps (do_match (c_bslash # cs @ rest) (Str s) ps)"
      by (cases ps) (auto simp: do_match_esc fails_def)
    then have "fails rest ps (do_match (c_bslash # cs @ rest) (Str s) ps)"
      by (rule fails_plain [OF r])
    with False cs show ?thesis by (simp add: sim_def)
  qed
qed

lemma utf8eq_rest_append:
  "\<not> cont (at0 rest) \<Longrightarrow> utf8eq_rest a (r @ rest) = utf8eq_rest a r"
proof (induction a arbitrary: r)
  case (Cons x a)
  then show ?case by (cases r) (auto simp: cont_def)
qed simp

lemma utf8eq_append:
  "cs \<noteq> [] \<Longrightarrow> \<not> cont (at0 rest) \<Longrightarrow> utf8eq s (cs @ rest) = utf8eq s cs"
  by (cases cs) (auto simp: utf8eq_def utf8eq_rest_append)

lemma star_skip_append:
  assumes "cs \<noteq> []" "\<not> cont (at0 rest)"
  shows "star_skip (cs @ rest) s = star_skip cs s"
proof (induction s rule: measure_induct_rule [of length])
  case (less s)
  then show ?case
    using length_utf8inc_less [of s]
    by (simp add: star_skip.simps [of "cs @ rest" s] star_skip.simps [of cs s] utf8eq_append [OF assms])
qed

lemma uchar_plain: "uchar cs \<Longrightarrow> \<not> meta (hd cs) \<Longrightarrow> list_all plain cs"
  by (cases cs) (auto simp: uchar_def plain_def list_all_iff dest: cont_not_meta)

lemma show_seq_not_cont: "wf_seq es \<Longrightarrow> \<not> cont (at0 rest) \<Longrightarrow> \<not> cont (at0 (show_seq es @ rest))"
proof (cases es)
  case (Cons e es')
  assume "wf_seq es"
  then have "\<not> cont (at0 (show_elem e @ r))" for r
    using Cons by (cases e) (auto simp: uchar_def cont_def neq_Nil_conv)
  with Cons show ?thesis by simp
qed simp

lemma closedI:
  "v = do_match (c_rpar # rest) (Str s) (g # up) \<Longrightarrow>
   success (note_success (Str s) g) = (case found of Some t \<Rightarrow> Some t | None \<Rightarrow> map_option Str d0) \<Longrightarrow>
   closed rest up d0 found v"
  by (auto simp: closed_def)

lemma closed_cong:
  "closed rest up d x v \<Longrightarrow>
   (case x of Some t \<Rightarrow> Some t | None \<Rightarrow> map_option Str d) =
   (case y of Some t \<Rightarrow> Some t | None \<Rightarrow> map_option Str d') \<Longrightarrow> closed rest up d' y v"
  by (simp add: closed_def)

lemma sim_closed: "closed rest ps d None v \<Longrightarrow> sim d rest ps v"
  by (auto simp: closed_def do_match_rpar sim_def fails_def split: option.splits list.splits)

lemma sim_seq_step:
  assumes e: "sim d r ps v"
    and es: "\<And>t ps'. length ps' = length ps \<Longrightarrow> sim (f t) rest ps' (do_match r (Str t) ps')"
  shows "sim (case d of None \<Rightarrow> None | Some t \<Rightarrow> f t) rest ps v"
proof (cases "d = None \<and> ps \<noteq> []")
  case True
  then obtain q up where ps: "ps = q # up" by (cases ps) auto
  let ?ps = "q\<lparr>failed := True\<rparr> # up"
  from True e ps obtain t where t: "v = do_match r (Str t) ?ps"
    by (auto simp: sim_def fails_def)
  from es [of ?ps t] ps have "sim (f t) rest ?ps v" by (simp add: t)
  then have "fails rest ps v"
    using ps by (auto simp: sim_def fails_def split: option.splits)
  with True show ?thesis by (simp add: sim_def)
next
  case False
  with e es [of ps "the d"] show ?thesis
    by (cases d) (auto simp: fails_def)
qed

lemma alts_last:
  assumes "sim d (c_rpar # rest) (g # up) v" "\<not> failed g"
  shows "closed rest up d (success g) v"
proof (cases d)
  case None
  with assms obtain t where "v = do_match (c_rpar # rest) (Str t) (g\<lparr>failed := True\<rparr> # up)"
    by (auto simp: sim_def fails_def)
  then show ?thesis
    by (rule closedI) (simp add: None note_success_def split: option.splits)
next
  case (Some t)
  with assms have "v = do_match (c_rpar # rest) (Str t) (g # up)" by (simp add: sim_def)
  then show ?thesis
    by (rule closedI) (auto simp: Some assms note_success_def split: option.splits)
qed

lemma alts_more:
  assumes b: "sim d (c_bar # r) (g # up) v" and g: "\<not> failed g" "start g = Str s"
    and bs: "\<And>g2. start g2 = Str s \<Longrightarrow> \<not> failed g2 \<Longrightarrow>
      closed rest up D (success g2) (do_match r (Str s) (g2 # up))"
  shows "closed rest up (case d of None \<Rightarrow> D | Some t \<Rightarrow> Some t) (success g) v"
proof (cases d)
  case None
  with b g obtain t where
    "v = do_match r (Str s) ((note_success (Str t) (g\<lparr>failed := True\<rparr>))\<lparr>failed := False\<rparr> # up)"
    by (auto simp: sim_def fails_def do_match_bar)
  then show ?thesis
    using None g bs [of "(note_success (Str t) (g\<lparr>failed := True\<rparr>))\<lparr>failed := False\<rparr>"]
    by (simp add: note_success_def)
next
  case (Some t)
  let ?g2 = "(note_success (Str t) g)\<lparr>failed := False\<rparr>"
  from Some b g have "v = do_match r (Str s) (?g2 # up)" by (simp add: sim_def do_match_bar)
  with g bs [of ?g2] have "closed rest up D (success ?g2) v" by (simp add: note_success_def)
  then show ?thesis
    by (rule closed_cong) (auto simp: Some g note_success_def split: option.splits)
qed

lemma den_sim:
  "wf_elem e \<Longrightarrow> depth_elem e + length ps \<le> MAX_PAREN \<Longrightarrow> \<not> cont (at0 rest) \<Longrightarrow>
   (e = StarEnd \<Longrightarrow> at0 rest \<in> {0, c_bar, c_rpar}) \<Longrightarrow>
   sim (den_elem e s) rest ps (do_match (show_elem e @ rest) (Str s) ps)"
  "wf_seq es \<Longrightarrow> depth_seq es + length ps \<le> MAX_PAREN \<Longrightarrow> at0 rest \<in> {0, c_bar, c_rpar} \<Longrightarrow>
   sim (den_seq es s) rest ps (do_match (show_seq es @ rest) (Str s) ps)"
  "wf_alts bs \<Longrightarrow> bs \<noteq> [] \<Longrightarrow> depth_alts bs + Suc (length up) \<le> MAX_PAREN \<Longrightarrow>
   start g = Str s \<Longrightarrow> \<not> failed g \<Longrightarrow>
   closed rest up (den_alts bs s) (success g)
     (do_match (show_alts bs @ c_rpar # rest) (Str s) (g # up))"
proof (induction e and es and bs arbitrary: ps rest s and ps rest s and g up rest s
    rule: show_elem_show_seq_show_alts.induct)
  case (4 cs)
  then have pl: "list_all plain cs" by (simp add: uchar_plain)
  from 4 obtain c r where cs: "cs = c # r" by (cases cs) (auto simp: uchar_def)
  have "do_match (show_elem (StarTo cs) @ rest) (Str s) ps = do_match (cs @ rest) (Str (star_skip cs s)) ps"
    using pl cs 4 star_skip_append [of cs rest s] by (simp add: do_match_star_to)
  then show ?case using sim_eat [OF pl] by simp
next
  case (7 bs)
  then show ?case
    using "7.IH" [of ps "\<lparr>start = Str s, failed = False, success = None\<rparr>" s rest]
    by (simp add: do_match_lpar sim_closed)
next
  case (9 e es)
  have "\<not> cont (at0 (show_seq es @ rest))"
    using "9.prems" by (intro show_seq_not_cont) (auto simp: cont_def)
  then have "sim (den_elem e s) (show_seq es @ rest) ps
      (do_match (show_elem e @ show_seq es @ rest) (Str s) ps)"
    using "9.IH"(1) [of ps "show_seq es @ rest" s] "9.prems" by auto
  from sim_seq_step [OF this, of "den_seq es" rest] "9.IH"(2) "9.prems" show ?case by simp
next
  case (11 b bs)
  have d: "depth_alts bs + Suc (length up) \<le> MAX_PAREN" using "11.prems"(3) by simp
  let ?r = "(if bs = [] then [] else c_bar # show_alts bs) @ c_rpar # rest"
  have b: "sim (den_seq b s) ?r (g # up) (do_match (show_seq b @ ?r) (Str s) (g # up))"
    using "11.IH"(1) [of "g # up" ?r s] "11.prems" by auto
  show ?case
  proof (cases "bs = []")
    case True
    with b alts_last [of "den_seq b s" rest g up] "11.prems" show ?thesis
      by (cases "den_seq b s") auto
  next
    case False
    with alts_more [OF _ "11.prems"(5,4), of _ "show_alts bs @ c_rpar # rest"] b
      "11.IH"(2) [OF False _ False d] "11.prems"(1)
    show ?thesis by simp
  qed
qed (auto simp: fails_def do_match_any do_match_star_any do_match_star_end
    sim_esc sim_eat uchar_plain split: list.splits)

subsection \<open>One step of the validity check\<close>

lemma do_match_CHECK:
  "plain c \<Longrightarrow> do_match (c # rest) CHECK cs = do_match rest CHECK cs"
  "c \<noteq> 0 \<Longrightarrow> do_match (c_bslash # c # rest) CHECK cs = do_match rest CHECK cs"
  "do_match (c_quest # rest) CHECK cs = do_match rest CHECK cs"
  "plain c \<or> c = c_quest \<Longrightarrow> do_match (c_star # c # rest) CHECK cs = do_match (c # rest) CHECK cs"
  "at0 rest \<in> {0, c_bar, c_rpar} \<Longrightarrow> do_match (c_star # rest) CHECK cs = do_match rest CHECK cs"
  "length cs < MAX_PAREN \<Longrightarrow> do_match (c_lpar # rest) CHECK cs =
     do_match rest CHECK (\<lparr>start = CHECK, failed = False, success = None\<rparr> # cs)"
  "do_match (c_bar # rest) CHECK (g # cs) =
     do_match rest CHECK ((note_success CHECK g)\<lparr>failed := False\<rparr> # cs)"
  by (auto simp: do_match.simps plain_def meta_def Let_def)

lemma do_match_CHECK_rpar:
  "check_frame g \<Longrightarrow> do_match (c_rpar # rest) CHECK (g # cs) = do_match rest CHECK cs"
  by (simp add: do_match.simps note_success_check split: list.splits)

lemma do_match_CHECK_plain: "list_all plain cs \<Longrightarrow> do_match (cs @ rest) CHECK ps = do_match rest CHECK ps"
  by (induction cs) (auto simp: do_match_CHECK)

lemma show_check:
  "wf_elem e \<Longrightarrow> depth_elem e + length cs \<le> MAX_PAREN \<Longrightarrow>
   (e = StarEnd \<Longrightarrow> at0 rest \<in> {0, c_bar, c_rpar}) \<Longrightarrow>
   do_match (show_elem e @ rest) CHECK cs = do_match rest CHECK cs"
  "wf_seq es \<Longrightarrow> depth_seq es + length cs \<le> MAX_PAREN \<Longrightarrow> at0 rest \<in> {0, c_bar, c_rpar} \<Longrightarrow>
   do_match (show_seq es @ rest) CHECK cs = do_match rest CHECK cs"
  "wf_alts bs \<Longrightarrow> bs \<noteq> [] \<Longrightarrow> depth_alts bs + Suc (length up) \<le> MAX_PAREN \<Longrightarrow> check_frame g \<Longrightarrow>
   do_match (show_alts bs @ c_rpar # rest) CHECK (g # up) = do_match rest CHECK up"
proof (induction e and es and bs arbitrary: cs rest and cs rest and g up rest
    rule: show_elem_show_seq_show_alts.induct)
  case (2 cs')
  then obtain c r where "cs' = c # r" "c \<noteq> 0" "list_all plain r"
    by (cases cs') (auto simp: uchar_def plain_def list_all_iff dest: cont_not_meta)
  then show ?case by (simp add: do_match_CHECK do_match_CHECK_plain)
next
  case (4 cs')
  then obtain c r where "cs' = c # r" "plain c" "list_all plain r"
    using uchar_plain [of cs'] by (cases cs') (auto simp: uchar_def)
  then show ?case by (simp add: do_match_CHECK do_match_CHECK_plain)
next
  case (11 b bs)
  let ?r = "(if bs = [] then [] else c_bar # show_alts bs) @ c_rpar # rest"
  have "do_match (show_seq b @ ?r) CHECK (g # up) = do_match ?r CHECK (g # up)"
    using "11.IH"(1) [of "g # up" ?r] "11.prems" by auto
  with 11 show ?case
    by (simp add: do_match_CHECK do_match_CHECK_rpar note_success_check split: if_splits)
qed (auto simp: do_match_CHECK do_match_CHECK_plain uchar_plain)

lemma match_isvalid_show:
  "wf_seq es \<Longrightarrow> depth_seq es \<le> MAX_PAREN \<Longrightarrow> match_isvalid (show_seq es)"
  using show_check(2) [of es "[]" "[]"] by (simp add: match_isvalid_def match_end_def)

lemma eat_whole: "list_all plain p \<Longrightarrow> (\<exists>t. eat p s = Some t \<and> at0 t = 0) \<longleftrightarrow> cstr s = p"
proof (induction p arbitrary: s)
  case Nil
  then show ?case by (cases s) auto
next
  case (Cons c p)
  then show ?case by (cases s) (auto simp: plain_def)
qed

lemmas match_eval =
  match_def match_isvalid_def do_match.simps match_end_def char_matches_def char_advance_def
  note_success_def MAX_PAREN_def star_skip.simps utf8eq_def utf8inc_def lit_def

subsection \<open>Properties\<close>




text \<open>
  C30. A pattern without metacharacters matches exactly one key, itself.
\<close>

theorem match_literal:
  assumes "list_all plain p"
  shows "match p s = (if cstr s = p then 1 else 0)"
  using sim_eat [OF assms, of s "[]" "[]"] eat_whole [OF assms, of s]
  by (cases "eat p s") (auto simp: match_def match_end_def fails_def)

theorem match_literal_witness:
  "match (lit ''name'') (lit ''name'') = 1 \<and> match (lit ''name'') (lit ''names'') = 0"
proof -
  have "list_all plain (lit ''name'')" by (simp add: lit_def plain_def meta_def)
  from match_literal [OF this] show ?thesis by (simp add: lit_def)
qed


end
