(* ===== verification/Infod.thy ===== *)
theory Infod
  imports Server Store_Ops Pattern_Match Proto_Input
begin

text \<open>
  The daemon, \<^verbatim>\<open>src/daemon/infod.c\<close>: client records, subscriptions, buffered transactions and the
  handler of decoded messages, over the store, the matcher and the protocol translator.

  Clients live in a heap, since the server, the translator and the list \<^verbatim>\<open>all_clients\<close> all hold
  pointers to them; an access to an address without a client is a fault.  The linked lists of
  \<^verbatim>\<open>list.h\<close> are lists.  The tail pointer of the buffered commands is the number of elements before
  the cell it points to.  The binary is the full one (\<^verbatim>\<open>SMALL\<close> is not defined).
\<close>

subsection \<open>State\<close>

definition MAX_SUBS :: nat where
  "MAX_SUBS = 16"

definition MAX_BUFCMDS :: nat where
  "MAX_BUFCMDS = 32"

record options =
  o_verbose :: nat
  o_stdin :: bool
  o_port :: "bytes option"
  o_syslog :: bool
  o_store_path :: bytes

record bufcmd =
  bc_msg :: byte
  bc_data :: bytes

record client =
  c_fd :: int
  c_proto :: proto
  c_nsubs :: nat
  c_nbufcmds :: nat
  c_begins :: nat
  c_subs :: "bytes list"
  c_bufcmds :: "bufcmd list"
  c_bufcmd_tail :: "nat option"    \<comment> \<open>\<open>None\<close>: not initialised\<close>
  c_listener :: "listener option"

record infod = net +
  i_options :: options
  the_store :: store
  i_heap :: "nat \<Rightarrow> client option"
  i_brk :: nat                     \<comment> \<open>the next fresh address\<close>
  all_clients :: "nat list"

definition unix_listener :: listener where
  "unix_listener = \<lparr>l_name = lit ''unix'', l_peername = False\<rparr>"

definition set_client :: "nat \<Rightarrow> client \<Rightarrow> infod \<Rightarrow> infod" where
  "set_client c cl w = w\<lparr>i_heap := (i_heap w)(c := Some cl)\<rparr>"

subsection \<open>Logging\<close>

definition log_msg :: "bytes \<Rightarrow> infod \<Rightarrow> infod" where
  "log_msg msg w =
     emit (Stderr (msg @ [10])) (if o_syslog (i_options w) then emit (Syslog msg) w else w)"

definition log_msgf :: "bytes \<Rightarrow> infod \<Rightarrow> infod" where
  "log_msgf msg w =
     emit (Stderr (msg @ [10])) (if o_syslog (i_options w) then emit (Syslog msg) w else w)"

definition log_perror :: "kernel \<Rightarrow> bytes \<Rightarrow> infod \<Rightarrow> infod" where
  "log_perror K msg w =
     (let line = msg @ lit '': '' @ strerror K w in
      emit (Stderr (line @ [10])) (if o_syslog (i_options w) then emit (Syslog line) w else w))"

subsection \<open>Records\<close>

text \<open>A fresh subscription holds a copy of the pattern; \<open>None\<close> is \<^verbatim>\<open>NULL\<close>.\<close>

definition subscription_new :: "os \<Rightarrow> bytes \<Rightarrow> bytes option" where
  "subscription_new os pattern = (if os_realloc os (24 + length pattern + 1) then Some pattern else None)"

definition bufcmd_new :: "os \<Rightarrow> byte \<Rightarrow> bytes \<Rightarrow> bufcmd option" where
  "bufcmd_new os msg data =
     (if os_realloc os (24 + length data + 1) then Some \<lparr>bc_msg = msg, bc_data = data\<rparr> else None)"

definition client_free :: "nat \<Rightarrow> infod \<Rightarrow> infod option" where
  "client_free c w = (if i_heap w c = None then None else Some (w\<lparr>i_heap := (i_heap w)(c := None)\<rparr>))"

definition client_new :: "kernel \<Rightarrow> int \<Rightarrow> infod \<Rightarrow> (nat option \<times> infod)" where
  "client_new K fd w =
     (if \<not> os_realloc (k_os K) 80 then (None, w)
      else case proto_new (k_os K) of
        None \<Rightarrow> (None, w)
      | Some p \<Rightarrow>
          let c = i_brk w in
          (Some c, (set_client c \<lparr>c_fd = fd, c_proto = p, c_nsubs = 0, c_nbufcmds = 0, c_begins = 0, c_subs = [],
             c_bufcmds = [], c_bufcmd_tail = None, c_listener = None\<rparr> w)\<lparr>i_brk := c + 1\<rparr>))"

text \<open>The position of the first subscription with that pattern.\<close>

fun find_subscription :: "bytes \<Rightarrow> bytes list \<Rightarrow> nat option" where
  "find_subscription pattern [] = None"
| "find_subscription pattern (sub # subs) =
     (if length sub = length pattern \<and> pattern = sub then Some 0
      else map_option Suc (find_subscription pattern subs))"

definition client_find_subscription :: "client \<Rightarrow> bytes \<Rightarrow> nat option" where
  "client_find_subscription cl pattern = find_subscription pattern (c_subs cl)"

text \<open>\<^verbatim>\<open>REMOVE\<close> of the element at a position.\<close>

definition list_remove :: "nat \<Rightarrow> 'a list \<Rightarrow> 'a list" where
  "list_remove i xs = take i xs @ drop (Suc i) xs"

subsection \<open>The output path\<close>

text \<open>\<open>udata\<close> is the client of the translator.\<close>

definition on_net_sendv :: "kernel \<Rightarrow> nat option \<Rightarrow> infod \<Rightarrow> bytes \<Rightarrow> (int \<times> infod) option" where
  "on_net_sendv K udata w bs =
     (case udata of
        None \<Rightarrow> Some (0, w)
      | Some c \<Rightarrow> do { cl \<leftarrow> i_heap w c; Some (sys_writev K (c_fd cl) bs w) })"

definition on_proto_error :: "infod \<Rightarrow> bytes \<Rightarrow> infod option" where
  "on_proto_error w msg = Some (log_msg msg w)"

text \<open>The callbacks that sending uses.  Sending never calls \<^verbatim>\<open>on_input\<close>.\<close>

definition out_cb :: "kernel \<Rightarrow> nat \<Rightarrow> infod cb" where
  "out_cb K c = \<lparr>cb_input = (\<lambda>p w msg data. None), cb_sendv = (\<lambda>p w bs. on_net_sendv K (Some c) w bs),
     cb_error = (\<lambda>p w msg. on_proto_error w msg)\<rparr>"

text \<open>\<^verbatim>\<open>proto_output\<close> and \<^verbatim>\<open>proto_output_error\<close> on the translator of a client.\<close>

definition client_output :: "kernel \<Rightarrow> nat \<Rightarrow> byte \<Rightarrow> bytes \<Rightarrow> arg list \<Rightarrow> infod \<Rightarrow> (int \<times> infod) option" where
  "client_output K c msg fmt ap w = do {
     cl \<leftarrow> i_heap w c;
     (r, p, w1) \<leftarrow> proto_output (out_cb K c) (c_proto cl) w msg fmt ap;
     Some (r, set_client c (cl\<lparr>c_proto := p\<rparr>) w1)
   }"

definition client_output_error :: "kernel \<Rightarrow> nat \<Rightarrow> byte \<Rightarrow> bytes \<Rightarrow> infod \<Rightarrow> (int \<times> infod) option" where
  "client_output_error K c code msg w = do {
     cl \<leftarrow> i_heap w c;
     (r, p, w1) \<leftarrow> proto_output_error (out_cb K c) (c_proto cl) w code msg;
     Some (r, set_client c (cl\<lparr>c_proto := p\<rparr>) w1)
   }"

subsection \<open>The message handler\<close>

definition contains_nul :: "bytes \<Rightarrow> bool" where
  "contains_nul data \<longleftrightarrow> has_nul data"

definition is_ephemeral :: "bytes \<Rightarrow> bool" where
  "is_ephemeral data \<longleftrightarrow> has_nul data \<and> cstr data \<noteq> [] \<and> last (cstr data) = 33"

text \<open>The current infos that match a new subscription; \<open>k\<close> bounds the iteration.\<close>

fun send_matching :: "nat \<Rightarrow> kernel \<Rightarrow> nat \<Rightarrow> bytes \<Rightarrow> nat option \<times> nat \<Rightarrow> infod \<Rightarrow> (int \<times> infod) option" where
  "send_matching 0 K c pattern info w = None"
| "send_matching (Suc k) K c pattern (None, ix) w = Some (1, w)"
| "send_matching (Suc k) K c pattern (Some a, ix) w = do {
     kv \<leftarrow> info_keyvalue (the_store w) a;
     if match pattern (cstr kv) \<noteq> 0 then do {
       (r, w1) \<leftarrow> client_output K c MSG_INFO (lit ''%*s'') [ArgInt (int (length kv)), ArgStr kv] w;
       if r = -1 then Some (-1, w1)
       else send_matching k K c pattern (store_get_next (the_store w1) ix) w1
     } else send_matching k K c pattern (store_get_next (the_store w) ix) w
   }"

definition app_sub :: "kernel \<Rightarrow> nat \<Rightarrow> bytes \<Rightarrow> infod \<Rightarrow> (int \<times> infod) option" where
  "app_sub K c data w = do {
     cl \<leftarrow> i_heap w c;
     if MAX_SUBS < c_nsubs cl then
       client_output_error K c PROTO_ERROR_TOO_BIG (lit ''sub: too many subscriptions'') w
     else if contains_nul data \<or> \<not> match_isvalid data then
       client_output_error K c PROTO_ERROR_BAD_ARG (lit ''sub: invalid pattern'') w
     else case subscription_new (k_os K) data of
       None \<Rightarrow> client_output_error K c PROTO_ERROR_INTERNAL (lit ''sub: '' @ strerror K w) w
     | Some sub \<Rightarrow>
         let w1 = set_client c (cl\<lparr>c_subs := sub # c_subs cl, c_nsubs := add32 (c_nsubs cl) 1\<rparr>) w in
         send_matching (length (index (the_store w1)) + 1) K c data (store_get_first (the_store w1)) w1
   }"

definition app_unsub :: "nat \<Rightarrow> bytes \<Rightarrow> infod \<Rightarrow> (int \<times> infod) option" where
  "app_unsub c data w = do {
     cl \<leftarrow> i_heap w c;
     case client_find_subscription cl data of
       None \<Rightarrow> Some (1, w)
     | Some i \<Rightarrow>
         Some (1, set_client c (cl\<lparr>c_subs := list_remove i (c_subs cl), c_nsubs := sub32 (c_nsubs cl) 1\<rparr>) w)
   }"

definition app_read :: "kernel \<Rightarrow> nat \<Rightarrow> bytes \<Rightarrow> infod \<Rightarrow> (int \<times> infod) option" where
  "app_read K c data w =
     (if contains_nul data then client_output_error K c PROTO_ERROR_BAD_ARG (lit ''read: invalid key'') w
      else do {
        info \<leftarrow> store_get (the_store w) data;
        case info of
          Some a \<Rightarrow> do {
            kv \<leftarrow> info_keyvalue (the_store w) a;
            client_output K c MSG_INFO (lit ''%*s'') [ArgInt (int (length kv)), ArgStr kv] w
          }
        | None \<Rightarrow> client_output K c MSG_INFO (lit ''%s'') [ArgStr data] w
      })"

text \<open>The notification of one client, over its subscriptions, and of all clients.\<close>

fun notify_client :: "kernel \<Rightarrow> nat \<Rightarrow> bytes \<Rightarrow> bytes list \<Rightarrow> infod \<Rightarrow> infod option" where
  "notify_client K c data [] w = Some w"
| "notify_client K c data (sub # subs) w =
     (if match sub (cstr data) \<noteq> 0 then do {
        (r, w1) \<leftarrow> client_output K c MSG_INFO (lit ''%*s'') [ArgInt (int (length data)), ArgStr data] w;
        if r = -1 then do {
          cl \<leftarrow> i_heap w1 c;
          notify_client K c data subs (shutdown_read (c_fd cl) (log_msgf
            (lit ''['' @ listener_peername K w1 (c_listener cl) (c_fd cl) @ lit ''] dropped: '' @ strerror K w1) w1))
        } else notify_client K c data subs w1
      } else notify_client K c data subs w)"

fun notify_all :: "kernel \<Rightarrow> bytes \<Rightarrow> nat list \<Rightarrow> infod \<Rightarrow> infod option" where
  "notify_all K data [] w = Some w"
| "notify_all K data (c # cs) w = do {
     cl \<leftarrow> i_heap w c;
     w1 \<leftarrow> notify_client K c data (c_subs cl) w;
     notify_all K data cs w1
   }"

text \<open>The change of the store by a write: its value \<open>Inl\<close> a store error's text, \<open>Inr\<close> whether to notify.\<close>

definition app_write_store :: "kernel \<Rightarrow> bytes \<Rightarrow> infod \<Rightarrow> ((bytes + bool) \<times> infod) option" where
  "app_write_store K data w =
     (if \<not> contains_nul data then do {
        (ret, s) \<leftarrow> store_del (k_os K) (Some data) (the_store w);
        let w1 = w\<lparr>the_store := s\<rparr>;
        Some (if ret = -1 then Inl (lit ''del: '') else Inr (ret \<noteq> 0), w1)
      } else if is_ephemeral data then Some (Inr True, w)
      else do {
        (ret, s) \<leftarrow> store_put (k_os K) data (the_store w);
        let w1 = w\<lparr>the_store := s\<rparr>;
        Some (if ret = -1 then Inl (lit ''write: '') else Inr (ret \<noteq> 0), w1)
      })"

definition app_write :: "kernel \<Rightarrow> nat \<Rightarrow> bytes \<Rightarrow> infod \<Rightarrow> (int \<times> infod) option" where
  "app_write K c data w = do {
     (res, w1) \<leftarrow> app_write_store K data w;
     case res of
       Inl what \<Rightarrow> client_output_error K c PROTO_ERROR_INTERNAL (what @ strerror K w1) w1
     | Inr changed \<Rightarrow>
         if \<not> changed then Some (1, w1)
         else do { w2 \<leftarrow> notify_all K data (all_clients w1) w1; Some (1, w2) }
   }"

definition app_begin :: "nat \<Rightarrow> infod \<Rightarrow> (int \<times> infod) option" where
  "app_begin c w = do {
     cl \<leftarrow> i_heap w c;
     Some (1, set_client c (cl\<lparr>c_bufcmd_tail := Some 0, c_begins := 1\<rparr>) w)
   }"

text \<open>The switch over the messages, outside of a transaction.\<close>

definition app_command :: "kernel \<Rightarrow> nat \<Rightarrow> byte \<Rightarrow> bytes \<Rightarrow> infod \<Rightarrow> (int \<times> infod) option" where
  "app_command K c msg data w =
     (if msg = CMD_HELLO then client_output K c MSG_VERSION (lit ''%c%s'') [ArgInt 0, ArgStr (lit ''infod3'')] w
      else if msg = CMD_SUB then app_sub K c data w
      else if msg = CMD_UNSUB then app_unsub c data w
      else if msg = CMD_READ then app_read K c data w
      else if msg = CMD_WRITE then app_write K c data w
      else if msg = CMD_PING then client_output K c MSG_PONG (lit ''%*s'') [ArgInt (int (length data)), ArgStr data] w
      else if msg = CMD_BEGIN then app_begin c w
      else if msg = CMD_COMMIT then client_output_error K c PROTO_ERROR_BAD_SEQ (lit ''commit: no begin'') w
      else client_output_error K c PROTO_ERROR_BAD_MSG (lit ''unexpected message '' @ hex2 msg) w)"

subsection \<open>Verbose logging\<close>

definition log_input_verbose :: "kernel \<Rightarrow> client \<Rightarrow> byte \<Rightarrow> bytes \<Rightarrow> infod \<Rightarrow> infod" where
  "log_input_verbose K cl msg data w =
     (let n = length data;
          p = take (PEERNAMESZ + 1) (lit ''['' @ listener_peername K w (c_listener cl) (c_fd cl) @ lit ''] got'' @
            [if c_begins cl \<noteq> 0 then 43 else 32]);
          line =
            (if msg = CMD_HELLO then
               if n = 0 then lit '' HELLO''
               else lit '' HELLO '' @ dec (unat (hd data)) @ lit '' '' @ prec_s (n - 1) (tl data)
             else if msg = CMD_SUB then lit '' SUB '' @ prec_s n data
             else if msg = CMD_UNSUB then lit '' UNSUB '' @ prec_s n data
             else if msg = CMD_READ then lit '' READ '' @ prec_s n data
             else if msg = CMD_WRITE then
               (let kl = length (cstr data) in
                if kl = n then lit '' WRITE '' @ prec_s n data @ lit '' (delete)''
                else lit '' WRITE '' @ cstr data @ lit '' '' @ prec_s (n - kl - 1) (drop (kl + 1) data))
             else if msg = CMD_BEGIN then lit '' BEGIN '' @ prec_s n data
             else if msg = CMD_COMMIT then lit '' COMMIT '' @ prec_s n data
             else if msg = CMD_PING then lit '' PING '' @ prec_s n data
             else if msg = MSG_EOF then lit '' <EOF>''
             else lit '' <msg='' @ hex2 msg @ lit '',len='' @ dec n @ lit ''> '' @ prec_s n data)
      in log_msgf (p @ line) w)"

definition log_input :: "kernel \<Rightarrow> nat \<Rightarrow> byte \<Rightarrow> bytes \<Rightarrow> infod \<Rightarrow> infod option" where
  "log_input K c msg data w =
     (if 1 < o_verbose (i_options w) then do { cl \<leftarrow> i_heap w c; Some (log_input_verbose K cl msg data w) } else Some w)"

subsection \<open>Transactions\<close>

text \<open>
  The playback of the buffered commands.  No client is in a transaction while it replays, so
  each command goes through \<^verbatim>\<open>on_app_input\<close> to the switch; a command that starts one cannot have
  been buffered, but the general handler is a parameter here.
\<close>

fun playback :: "(byte \<Rightarrow> bytes \<Rightarrow> infod \<Rightarrow> (int \<times> infod) option) \<Rightarrow> nat \<Rightarrow> nat \<Rightarrow> infod \<Rightarrow> (int \<times> infod) option" where
  "playback handler 0 c w = None"
| "playback handler (Suc k) c w = do {
     cl \<leftarrow> i_heap w c;
     case c_bufcmds cl of
       [] \<Rightarrow> Some (1, w)
     | b # bs \<Rightarrow> do {
         (ret, w1) \<leftarrow> handler (bc_msg b) (bc_data b) (set_client c (cl\<lparr>c_bufcmds := bs\<rparr>) w);
         if ret \<le> 0 then Some (ret, w1) else playback handler k c w1
       }
   }"

text \<open>\<^verbatim>\<open>APPEND\<close> aborts when the tail does not point to the end of the list.\<close>

definition bufcmd_append :: "bufcmd \<Rightarrow> client \<Rightarrow> client option" where
  "bufcmd_append b cl =
     (case c_bufcmd_tail cl of
        None \<Rightarrow> None
      | Some n \<Rightarrow>
          if n \<noteq> length (c_bufcmds cl) then None
          else Some (cl\<lparr>c_bufcmds := c_bufcmds cl @ [b], c_bufcmd_tail := Some (n + 1)\<rparr>))"

definition buffer_command ::
  "kernel \<Rightarrow> (byte \<Rightarrow> bytes \<Rightarrow> infod \<Rightarrow> (int \<times> infod) option) \<Rightarrow> nat \<Rightarrow> byte \<Rightarrow> bytes \<Rightarrow> infod \<Rightarrow> (int \<times> infod) option" where
  "buffer_command K handler c msg data w = do {
     cl \<leftarrow> i_heap w c;
     if msg = CMD_BEGIN then
       Some (1, set_client c (cl\<lparr>c_begins := add32 (c_begins cl) 1\<rparr>) w)
     else if msg = CMD_COMMIT then
       let cl1 = cl\<lparr>c_begins := sub32 (c_begins cl) 1\<rparr>; w1 = set_client c cl1 w in
       if c_begins cl1 \<noteq> 0 then Some (1, w1)
       else playback handler (length (c_bufcmds cl1) + 1) c w1
     else if MAX_BUFCMDS \<le> c_nbufcmds cl then
       client_output_error K c PROTO_ERROR_TOO_BIG (lit ''commit buffer overflow'') w
     else case bufcmd_new (k_os K) msg data of
       None \<Rightarrow> client_output_error K c PROTO_ERROR_INTERNAL (lit ''begin: '' @ strerror K w) w
     | Some b \<Rightarrow> do {
         cl1 \<leftarrow> bufcmd_append b cl;
         Some (1, set_client c cl1 w)
       }
   }"

text \<open>
  \<^verbatim>\<open>on_app_input\<close> and \<^verbatim>\<open>buffer_command\<close> call each other.  \<open>depth\<close> bounds the nesting: a replayed
  command runs outside of a transaction, so a depth of 2 is never used up.
\<close>

fun on_app_input_depth :: "nat \<Rightarrow> kernel \<Rightarrow> nat \<Rightarrow> byte \<Rightarrow> bytes \<Rightarrow> infod \<Rightarrow> (int \<times> infod) option" where
  "on_app_input_depth 0 K c msg data w = None"
| "on_app_input_depth (Suc depth) K c msg data w = do {
     w1 \<leftarrow> log_input K c msg data w;
     if msg = MSG_EOF then Some (0, w1)
     else do {
       cl \<leftarrow> i_heap w1 c;
       if c_begins cl \<noteq> 0 then buffer_command K (on_app_input_depth depth K c) c msg data w1
       else app_command K c msg data w1
     }
   }"

definition on_app_input :: "kernel \<Rightarrow> nat \<Rightarrow> byte \<Rightarrow> bytes \<Rightarrow> infod \<Rightarrow> (int \<times> infod) option" where
  "on_app_input K c msg data w = on_app_input_depth 2 K c msg data w"

text \<open>
  The callbacks of a client's translator.  The translator that receives is the one of the client
  record: the handler sees its state of the moment, and it goes on with what the handler left.
\<close>

definition client_cb :: "kernel \<Rightarrow> nat \<Rightarrow> infod cb" where
  "client_cb K c = (out_cb K c)\<lparr>cb_input := (\<lambda>p w msg data. do {
     cl \<leftarrow> i_heap w c;
     (r, w1) \<leftarrow> on_app_input K c msg data (set_client c (cl\<lparr>c_proto := p\<rparr>) w);
     cl1 \<leftarrow> i_heap w1 c;
     Some (r, c_proto cl1, w1)
   })\<rparr>"

subsection \<open>The upcalls of the server\<close>

definition on_net_close :: "kernel \<Rightarrow> infod \<Rightarrow> nat option \<Rightarrow> listener option \<Rightarrow> infod option" where
  "on_net_close K w data l = do {
     c \<leftarrow> data;
     cl \<leftarrow> i_heap w c;
     let w1 = (if o_verbose (i_options w) \<noteq> 0
               then log_msgf (lit ''['' @ listener_peername K w l (c_fd cl) @ lit ''] closed'') w else w);
     client_free c (w1\<lparr>all_clients := remove1 c (all_clients w1)\<rparr>)
   }"

definition on_net_error :: "infod \<Rightarrow> bytes \<Rightarrow> infod option" where
  "on_net_error w msg = Some (log_msg msg w)"

definition on_net_ready :: "kernel \<Rightarrow> infod \<Rightarrow> nat option \<Rightarrow> int \<Rightarrow> (int \<times> infod) option" where
  "on_net_ready K w data fd =
     (let (len, w1) = sys_read K fd PROTO_RECVSZ w in
      case len of
        None \<Rightarrow> Some (-1, w1)
      | Some net \<Rightarrow> do {
          c \<leftarrow> data;
          cl \<leftarrow> i_heap w1 c;
          (r, p, w2) \<leftarrow> proto_recv (k_os K) (client_cb K c) (c_proto cl) w1 net 0;
          cl2 \<leftarrow> i_heap w2 c;
          Some (r, set_client c (cl2\<lparr>c_proto := p\<rparr>) w2)
        })"

definition on_net_accept :: "kernel \<Rightarrow> infod \<Rightarrow> int \<Rightarrow> listener option \<Rightarrow> (nat option \<times> infod) option" where
  "on_net_accept K w fd l =
     (let w1 = (if o_verbose (i_options w) \<noteq> 0
                then log_msgf (lit ''['' @ listener_peername K w l fd @ lit ''] connected'') w else w);
          (client, w2) = client_new K fd w1 in
      case client of
        None \<Rightarrow>
          Some (None, shutdown_read fd (log_msgf
            (lit ''['' @ listener_peername K w2 l fd @ lit ''] client_new(): '' @ strerror K w2) w2))
      | Some c \<Rightarrow> do {
          cl \<leftarrow> i_heap w2 c;
          let p = c_proto cl;
          let p1 = (if l = Some unix_listener then snd (proto_set_mode PROTO_MODE_FRAMED p) else p);
          let p2 = proto_set_on_input Set (proto_set_on_sendv Set (proto_set_on_error Set p1));
          Some (Some c, (set_client c (cl\<lparr>c_listener := l, c_proto := p2\<rparr>) w2)
            \<lparr>all_clients := c # all_clients w2\<rparr>)
        })"

definition infod_context :: "kernel \<Rightarrow> (infod, nat) server_context" where
  "infod_context K = \<lparr>max_sockets = 64, ctx_on_accept = Some (on_net_accept K), ctx_on_ready = on_net_ready K,
     ctx_on_close = Some (on_net_close K), ctx_on_listener_close = None, ctx_on_error = Some on_net_error\<rparr>"

text \<open>\<^verbatim>\<open>basename\<close>\<close>

fun basename :: "bytes \<Rightarrow> bytes" where
  "basename [] = []"
| "basename (b # bs) = (if 47 \<in> set (b # bs) then basename bs else b # bs)"

end
