(* ===== verification/Infod_Correct.thy ===== *)
theory Infod_Correct
  imports Infod Proto_Stream
begin

text \<open>
  What the daemon does with a message: the answers it writes, the subscribers it notifies, the change
  of the store, and that a transaction is its commands in a row.  The lemmas are about clients of the
  binary and of the framed protocol, in which every answer is one \<^verbatim>\<open>writev\<close>.
\<close>

subsection \<open>Definitions\<close>

text \<open>A message on the wire, and the answer to a client.\<close>

definition wire_msg :: "int \<Rightarrow> byte \<Rightarrow> bytes \<Rightarrow> bytes" where
  "wire_msg mode msg d = (if mode = PROTO_MODE_BINARY then enc_packet (msg, d) else msg # d)"

definition reply :: "kernel \<Rightarrow> client \<Rightarrow> byte \<Rightarrow> bytes \<Rightarrow> infod \<Rightarrow> int \<times> infod" where
  "reply K cl msg d w =
     (if p_on_sendv (c_proto cl) = Set then sys_writev K (c_fd cl) (wire_msg (p_mode (c_proto cl)) msg d) w else (0, w))"

definition talks :: "client \<Rightarrow> bool" where
  "talks cl \<longleftrightarrow> p_on_sendv (c_proto cl) \<noteq> Uninit \<and> (p_mode (c_proto cl) = PROTO_MODE_BINARY \<or> p_mode (c_proto cl) = PROTO_MODE_FRAMED)"

text \<open>A row of infos to one client, until a write fails.\<close>

fun send_infos :: "kernel \<Rightarrow> client \<Rightarrow> bytes list \<Rightarrow> infod \<Rightarrow> int \<times> infod" where
  "send_infos K cl [] w = (1, w)"
| "send_infos K cl (d # ds) w =
     (let (r, w1) = reply K cl MSG_INFO d w in if r = -1 then (-1, w1) else send_infos K cl ds w1)"

text \<open>The notification of one client; a client that cannot be written to is shut down.\<close>

definition drop_client :: "kernel \<Rightarrow> client \<Rightarrow> infod \<Rightarrow> infod" where
  "drop_client K cl w = shutdown_read (c_fd cl)
     (log_msgf (lit ''['' @ listener_peername K w (c_listener cl) (c_fd cl) @ lit ''] dropped: '' @ strerror K w) w)"

fun notify :: "kernel \<Rightarrow> client \<Rightarrow> bytes \<Rightarrow> bytes list \<Rightarrow> infod \<Rightarrow> infod" where
  "notify K cl data [] w = w"
| "notify K cl data (sub # subs) w =
     notify K cl data subs
       (if match sub (cstr data) \<noteq> 0
        then let (r, w1) = reply K cl MSG_INFO data w in if r = -1 then drop_client K cl w1 else w1
        else w)"

fun notify_each :: "kernel \<Rightarrow> bytes \<Rightarrow> client list \<Rightarrow> infod \<Rightarrow> infod" where
  "notify_each K data [] w = w"
| "notify_each K data (cl # cls) w = notify_each K data cls (notify K cl data (c_subs cl) w)"

text \<open>An error: it is sent, and the connection ends.\<close>

definition fail :: "kernel \<Rightarrow> client \<Rightarrow> byte \<Rightarrow> bytes \<Rightarrow> infod \<Rightarrow> int \<times> infod" where
  "fail K cl code msg w = (-1, snd (reply K cl MSG_ERROR (code # take 16383 (cstr msg)) w))"

text \<open>The commands outside of a transaction, as answers and changes of the store.\<close>

definition sub_command :: "kernel \<Rightarrow> nat \<Rightarrow> client \<Rightarrow> bytes \<Rightarrow> infod \<Rightarrow> (int \<times> infod) option" where
  "sub_command K c cl data w =
     (if MAX_SUBS < c_nsubs cl then Some (fail K cl PROTO_ERROR_TOO_BIG (lit ''sub: too many subscriptions'') w)
      else if has_nul data \<or> \<not> match_isvalid data then Some (fail K cl PROTO_ERROR_BAD_ARG (lit ''sub: invalid pattern'') w)
      else if \<not> os_realloc (k_os K) (24 + length data + 1) then Some (fail K cl PROTO_ERROR_INTERNAL (lit ''sub: '' @ strerror K w) w)
      else
        let cl' = cl\<lparr>c_subs := data # c_subs cl, c_nsubs := c_nsubs cl + 1\<rparr> in
        map_option (\<lambda>kvs. send_infos K cl' (filter (\<lambda>kv. match data (cstr kv) \<noteq> 0) kvs) (set_client c cl' w)) (store_all (the_store w)))"

definition write_command :: "kernel \<Rightarrow> client \<Rightarrow> bytes \<Rightarrow> infod \<Rightarrow> (int \<times> infod) option" where
  "write_command K cl data w = do {
     (res, w1) \<leftarrow> app_write_store K data w;
     Some (case res of
         Inl what \<Rightarrow> fail K cl PROTO_ERROR_INTERNAL (what @ strerror K w1) w1
       | Inr changed \<Rightarrow> (1, if changed then notify_each K data (map (\<lambda>c. the (i_heap w c)) (all_clients w)) w1 else w1))
   }"

definition command :: "kernel \<Rightarrow> nat \<Rightarrow> client \<Rightarrow> byte \<Rightarrow> bytes \<Rightarrow> infod \<Rightarrow> (int \<times> infod) option" where
  "command K c cl msg data w =
     (if msg = CMD_HELLO then Some (reply K cl MSG_VERSION (0 # lit ''infod3'') w)
      else if msg = CMD_SUB then sub_command K c cl data w
      else if msg = CMD_UNSUB then app_unsub c data w
      else if msg = CMD_READ then
        if has_nul data then Some (fail K cl PROTO_ERROR_BAD_ARG (lit ''read: invalid key'') w)
        else map_option (\<lambda>r. reply K cl MSG_INFO (case r of Some kv \<Rightarrow> kv | None \<Rightarrow> data) w) (store_get_kv (the_store w) data)
      else if msg = CMD_WRITE then write_command K cl data w
      else if msg = CMD_PING then Some (reply K cl MSG_PONG data w)
      else if msg = CMD_BEGIN then app_begin c w
      else if msg = CMD_COMMIT then Some (fail K cl PROTO_ERROR_BAD_SEQ (lit ''commit: no begin'') w)
      else Some (fail K cl PROTO_ERROR_BAD_MSG (lit ''unexpected message '' @ hex2 msg) w))"

text \<open>What a write does to the contents of the store, and whether it is a change to be notified.\<close>

definition kv_write :: "bytes \<Rightarrow> bytes list \<Rightarrow> bytes list" where
  "kv_write data kvs = (if \<not> has_nul data then kv_del data kvs else if is_ephemeral data then kvs else kv_put data kvs)"

definition write_changes :: "bytes \<Rightarrow> bytes list \<Rightarrow> bool" where
  "write_changes data kvs \<longleftrightarrow> (if \<not> has_nul data then data \<in> cstr ` set kvs else is_ephemeral data \<or> data \<notin> set kvs)"

text \<open>The bytes written to the sockets.\<close>

fun written :: "event list \<Rightarrow> (int \<times> bytes) list" where
  "written [] = []"
| "written (Writev fd bs r # es) = (fd, bs) # written es"
| "written (e # es) = written es"

text \<open>Only the history grows, by calls other than opening, closing and reading.\<close>

fun quiet_event :: "event \<Rightarrow> bool" where
  "quiet_event (Writev fd bs r) = True"
| "quiet_event (Shutdown_read fd) = True"
| "quiet_event (Stderr bs) = True"
| "quiet_event (Syslog bs) = True"
| "quiet_event e = False"

definition output_only :: "infod \<Rightarrow> infod \<Rightarrow> bool" where
  "output_only w w' \<longleftrightarrow> (\<exists>es. w' = w\<lparr>events := events w @ es\<rparr> \<and> list_all quiet_event es)"

text \<open>After a command the client's record is \<open>cl\<close>, the store is well-formed, and there was output.\<close>

definition handled :: "nat \<Rightarrow> client \<Rightarrow> infod \<Rightarrow> infod \<Rightarrow> bool" where
  "handled c cl w w' \<longleftrightarrow> (\<exists>s kvs. store_holds s kvs \<and> output_only (set_client c cl (w\<lparr>the_store := s\<rparr>)) w')"

text \<open>A row of messages of one client, until one of them ends the connection.\<close>

fun run_cmds :: "kernel \<Rightarrow> nat \<Rightarrow> (byte \<times> bytes) list \<Rightarrow> infod \<Rightarrow> (int \<times> infod) option" where
  "run_cmds K c [] w = Some (1, w)"
| "run_cmds K c ((m, d) # ms) w = do {
     (r, w1) \<leftarrow> on_app_input K c m d w;
     if r \<le> 0 then Some (r, w1) else run_cmds K c ms w1
   }"

definition plain_cmd :: "byte \<times> bytes \<Rightarrow> bool" where
  "plain_cmd = (\<lambda>(m, d). m \<noteq> CMD_BEGIN \<and> m \<noteq> CMD_COMMIT \<and> m \<noteq> MSG_EOF \<and> length d < 65536)"

definition to_bufcmd :: "byte \<times> bytes \<Rightarrow> bufcmd" where
  "to_bufcmd = (\<lambda>(m, d). \<lparr>bc_msg = m, bc_data = d\<rparr>)"

definition set_bufcmds :: "nat \<Rightarrow> bufcmd list \<Rightarrow> infod \<Rightarrow> infod" where
  "set_bufcmds c bs w = w\<lparr>i_heap := (i_heap w)(c := map_option (\<lambda>cl. cl\<lparr>c_bufcmds := bs\<rparr>) (i_heap w c))\<rparr>"

text \<open>Every client on the list is there, and those with subscriptions can be written to.\<close>

definition clients_listen :: "infod \<Rightarrow> bool" where
  "clients_listen w \<longleftrightarrow> (\<forall>c\<in>set (all_clients w). \<exists>cl. i_heap w c = Some cl \<and> (c_subs cl \<noteq> [] \<longrightarrow> talks cl))"

text \<open>A client outside of a transaction, in a daemon whose store and clients are in order.\<close>

definition session :: "kernel \<Rightarrow> nat \<Rightarrow> client \<Rightarrow> bytes list \<Rightarrow> infod \<Rightarrow> bool" where
  "session K c cl kvs w \<longleftrightarrow> i_heap w c = Some cl \<and> talks cl \<and> clients_listen w \<and> os_sane (k_os K) \<and> store_holds (the_store w) kvs \<and>
     o_verbose (i_options w) \<le> 1 \<and> c_begins cl = 0 \<and> c_bufcmds cl = [] \<and> c_nbufcmds cl = 0 \<and>
     c_nsubs cl = length (c_subs cl) \<and> length (c_subs cl) \<le> MAX_SUBS + 1"

text \<open>The notifications of a change: a message for each subscription that matches the key.\<close>

definition notices :: "bytes \<Rightarrow> infod \<Rightarrow> (int \<times> bytes) list" where
  "notices data w = concat (map (\<lambda>cl. map (\<lambda>sub. (c_fd cl, wire_msg (p_mode (c_proto cl)) MSG_INFO data))
     (filter (\<lambda>sub. match sub (cstr data) \<noteq> 0) (c_subs cl))) (map (\<lambda>c. the (i_heap w c)) (all_clients w)))"

text \<open>A daemon with two clients, one of which has subscribed to \<^verbatim>\<open>k\<close>, for the examples.\<close>

definition sample_kernel :: kernel where
  "sample_kernel = \<lparr>k_os = good_os, k_close = (\<lambda>_ _. 0), k_accept = (\<lambda>_ _. -1), k_poll = (\<lambda>_ _. (0, [])), k_getfl = (\<lambda>_ _. 0),
     k_read = (\<lambda>_ _. None), k_writev = (\<lambda>_ _ bs. int (length bs)), k_socket = (\<lambda>_ _. -1), k_setsockopt = (\<lambda>_ _. 0),
     k_bind = (\<lambda>_ _ _. 0), k_listen = (\<lambda>_ _. 0), k_connect = (\<lambda>_ _ _. 0), k_getenv = (\<lambda>_. None),
     k_getaddrinfo = (\<lambda>_ _ _. Inr []), k_getnameinfo = (\<lambda>_ _. None), k_strerror = (\<lambda>_. [])\<rparr>"

definition sample_client :: "int \<Rightarrow> bytes list \<Rightarrow> client" where
  "sample_client fd subs = \<lparr>c_fd = fd, c_proto = fresh_proto PROTO_MODE_BINARY, c_nsubs = length subs, c_nbufcmds = 0, c_begins = 0,
     c_subs = subs, c_bufcmds = [], c_bufcmd_tail = None, c_listener = Some unix_listener\<rparr>"

definition sample_infod :: infod where
  "sample_infod = \<lparr>events = [], i_options = \<lparr>o_verbose = 0, o_stdin = False, o_port = None, o_syslog = False, o_store_path = []\<rparr>,
     the_store = sample_store, i_heap = [0 \<mapsto> sample_client 5 [], 1 \<mapsto> sample_client 6 [[107]]], i_brk = 2, all_clients = [1, 0]\<rparr>"

subsection \<open>Output\<close>

lemma output_only_refl [simp]: "output_only w w"
  unfolding output_only_def by (rule exI [of _ "[]"]) simp

lemma output_only_trans: "output_only u v \<Longrightarrow> output_only v w \<Longrightarrow> output_only u w"
  by (auto simp: output_only_def)

lemma output_only_emit: "output_only u v \<Longrightarrow> quiet_event e \<Longrightarrow> output_only u (emit e v)"
  by (auto simp: output_only_def emit_def)

lemma output_only_log: "output_only u v \<Longrightarrow> output_only u (log_msgf msg v)"
  by (auto simp: log_msgf_def intro!: output_only_emit)

lemma output_only_reply: "output_only w (snd (reply K cl msg d w))"
  by (auto simp: reply_def sys_writev_def Let_def intro!: output_only_emit)

lemma output_only_drop: "output_only w (drop_client K cl w)"
  by (auto simp: drop_client_def shutdown_read_def intro!: output_only_emit output_only_log)

lemma output_only_infos: "output_only w (snd (send_infos K cl ds w))"
proof (induction ds arbitrary: w)
  case (Cons d ds)
  then show ?case using output_only_reply [of w K cl MSG_INFO d] output_only_trans by (auto simp: case_prod_unfold Let_def)
qed simp

lemma output_only_notify: "output_only w (notify K cl data subs w)"
proof (induction subs arbitrary: w)
  case (Cons sub subs)
  have "output_only w (if match sub (cstr data) \<noteq> 0
      then let (r, w1) = reply K cl MSG_INFO data w in if r = -1 then drop_client K cl w1 else w1 else w)"
    using output_only_reply [of w K cl MSG_INFO data] output_only_drop output_only_trans by (auto simp: case_prod_unfold Let_def)
  then show ?case unfolding notify.simps using Cons.IH output_only_trans by blast
qed simp

lemma output_only_simps:
  assumes "output_only w w'"
  shows "the_store w' = the_store w" "i_heap w' = i_heap w" "all_clients w' = all_clients w" "i_brk w' = i_brk w" "i_options w' = i_options w"
  using assms by (auto simp: output_only_def)

lemma set_client_same: "i_heap w c = Some cl \<Longrightarrow> set_client c cl w = w"
  by (cases w) (auto simp: set_client_def fun_upd_idem)

lemma sendv_reply:
  assumes "i_heap w c = Some cl" "p_on_sendv (c_proto cl) \<noteq> Uninit" "iov_gather iov = Some (wire_msg (p_mode (c_proto cl)) msg d)"
  shows "sendv (out_cb K c) (c_proto cl) w iov = Some (reply K cl msg d w)"
  using assms by (cases "p_on_sendv (c_proto cl)") (simp_all add: sendv_def reply_def out_cb_def on_net_sendv_def)

text \<open>An output whose arguments make up the payload \<open>d\<close> is the answer \<open>d\<close>.\<close>

lemma client_output_reply:
  assumes "i_heap w c = Some cl" "talks cl" "length d < 65536"
    "\<And>mx wk. mx = 9 \<and> wk = 16 \<or> mx = 7 \<and> wk = 8 \<Longrightarrow> \<exists>iov. to_binary_iov (out_cb K c) (c_proto cl) w mx wk fmt ap = Some (Some iov, w) \<and>
      iov_gather iov = Some d \<and> iov_size iov = length d"
  shows "client_output K c msg fmt ap w = Some (reply K cl msg d w)"
proof -
  have "proto_output (out_cb K c) (c_proto cl) w msg fmt ap = map_option (\<lambda>(r, w'). (r, c_proto cl, w')) (Some (reply K cl msg d w))"
  proof (cases "p_mode (c_proto cl) = PROTO_MODE_BINARY")
    case True
    obtain iov where iov: "to_binary_iov (out_cb K c) (c_proto cl) w 9 16 fmt ap = Some (Some iov, w)" "iov_gather iov = Some d" "iov_size iov = length d"
      using assms(4) by blast
    have "iov_gather (([msg, of_nat (length d div 256), of_nat (length d)], 3) # iov) = Some (wire_msg (p_mode (c_proto cl)) msg d)"
      using iov True by (simp add: wire_msg_def enc_packet_def peek_def)
    from sendv_reply [OF assms(1) _ this, of K] show ?thesis
      using assms(2,3) True iov by (simp add: talks_def proto_output_def proto_outputv_def output_binary_def mode_defs Let_def case_prod_unfold)
  next
    case False
    then have m: "p_mode (c_proto cl) = PROTO_MODE_FRAMED" using assms(2) by (simp add: talks_def)
    obtain iov where iov: "to_binary_iov (out_cb K c) (c_proto cl) w 7 8 fmt ap = Some (Some iov, w)" "iov_gather iov = Some d"
      using assms(4) by blast
    have "iov_gather (([msg], 1) # iov) = Some (wire_msg (p_mode (c_proto cl)) msg d)"
      using iov m by (simp add: wire_msg_def peek_def mode_defs)
    from sendv_reply [OF assms(1) _ this, of K] show ?thesis
      using assms(2) m iov by (simp add: talks_def proto_output_def proto_outputv_def output_framed_def mode_defs Let_def case_prod_unfold)
  qed
  moreover have "set_client c cl (snd (reply K cl msg d w)) = snd (reply K cl msg d w)"
    using assms(1) output_only_simps(2) [OF output_only_reply] by (metis set_client_same)
  ultimately show ?thesis using assms(1) by (auto simp: client_output_def case_prod_unfold)
qed

lemma output_star:
  assumes "i_heap w c = Some cl" "talks cl" "length d < 65536"
  shows "client_output K c msg (lit ''%*s'') [ArgInt (int (length d)), ArgStr d] w = Some (reply K cl msg d w)"
proof (rule client_output_reply [OF assms])
  have "size_t (int (length d)) = length d" using assms(3) by (simp add: size_t_def)
  then show "\<exists>iov. to_binary_iov (out_cb K c) (c_proto cl) w mx wk (lit ''%*s'') [ArgInt (int (length d)), ArgStr d] = Some (Some iov, w) \<and>
      iov_gather iov = Some d \<and> iov_size iov = length d" if "mx = 9 \<and> wk = 16 \<or> mx = 7 \<and> wk = 8" for mx wk
    using that assms(3) by (auto simp: lit_def peek_def iov_size_def)
qed

lemma output_string:
  assumes "i_heap w c = Some cl" "talks cl" "length (cstr d) < 65536"
  shows "client_output K c msg (lit ''%s'') [ArgStr d] w = Some (reply K cl msg (cstr d) w)"
proof (rule client_output_reply [OF assms])
  show "\<exists>iov. to_binary_iov (out_cb K c) (c_proto cl) w mx wk (lit ''%s'') [ArgStr d] = Some (Some iov, w) \<and>
      iov_gather iov = Some (cstr d) \<and> iov_size iov = length (cstr d)" if "mx = 9 \<and> wk = 16 \<or> mx = 7 \<and> wk = 8" for mx wk
    using that assms(3) take_cstr [of d] length_cstr_le [of d] by (auto simp: lit_def peek_def iov_size_def)
qed

lemma output_char_string:
  assumes "i_heap w c = Some cl" "talks cl" "length (cstr d) < 65535"
  shows "client_output K c msg (lit ''%c%s'') [ArgInt i, ArgStr d] w = Some (reply K cl msg (low_byte i # cstr d) w)"
proof (rule client_output_reply [OF assms(1,2)])
  show "length (low_byte i # cstr d) < 65536" using assms(3) by simp
  show "\<exists>iov. to_binary_iov (out_cb K c) (c_proto cl) w mx wk (lit ''%c%s'') [ArgInt i, ArgStr d] = Some (Some iov, w) \<and>
      iov_gather iov = Some (low_byte i # cstr d) \<and> iov_size iov = length (low_byte i # cstr d)" if "mx = 9 \<and> wk = 16 \<or> mx = 7 \<and> wk = 8" for mx wk
    using that assms(3) take_cstr [of d] length_cstr_le [of d] by (auto simp: lit_def peek_def iov_size_def)
qed

text \<open>An error to such a client is sent and ends the connection.\<close>

lemma output_error_reply:
  assumes "i_heap w c = Some cl" "talks cl"
  shows "client_output_error K c code msg w = Some (-1, snd (reply K cl MSG_ERROR (code # take 16383 (cstr msg)) w))"
proof -
  have d: "cstr (take 16383 (cstr msg)) = take 16383 (cstr msg)"
  proof (rule cstr_id)
    show "\<not> has_nul (take 16383 (cstr msg))" using cstr_no_nul [of msg] by (auto simp: has_nul_def dest: in_set_takeD)
  qed
  have "length (cstr (take 16383 (cstr msg))) < 65535" unfolding d by simp
  from output_char_string [OF assms this, of K MSG_ERROR "uint code"]
  have o: "client_output K c MSG_ERROR (lit ''%c%s'') [ArgInt (uint code), ArgStr (take 16383 (cstr msg))] w =
      Some (reply K cl MSG_ERROR (code # take 16383 (cstr msg)) w)" unfolding d by (simp add: low_byte_def)
  then obtain r p w1 where p: "proto_output (out_cb K c) (c_proto cl) w MSG_ERROR (lit ''%c%s'') [ArgInt (uint code), ArgStr (take 16383 (cstr msg))] = Some (r, p, w1)"
    "reply K cl MSG_ERROR (code # take 16383 (cstr msg)) w = (r, set_client c (cl\<lparr>c_proto := p\<rparr>) w1)"
    using assms(1) by (auto simp: client_output_def split: bind_splits)
  have "p_mode p \<noteq> PROTO_MODE_TEXT"
    using p(1) assms(2) by (auto simp: proto_output_def proto_outputv_def talks_def mode_defs Let_def split: bind_splits if_splits)
  then show ?thesis using assms(1) p by (simp add: client_output_error_def proto_output_error_def)
qed

subsection \<open>Reading\<close>

lemma store_kv_sizes: "store_holds s kvs \<Longrightarrow> kv \<in> set kvs \<Longrightarrow> length kv < 65536"
proof -
  assume "store_holds s kvs" "kv \<in> set kvs"
  then obtain ents a where e: "store_rep s ents" "(a, kv) \<in> set ents" by (auto simp: store_holds_def)
  then have "file_data s (mset ents)" "(a, kv) \<in># mset ents" by (auto simp: store_rep_def)
  then show "length kv < 65536" by (metis file_data_atE multi_member_split)
qed

lemma app_read_reply:
  assumes "i_heap w c = Some cl" "talks cl" "store_holds (the_store w) kvs" "\<not> has_nul key" "length key < 65536"
  shows "app_read K c key w = Some (reply K cl MSG_INFO (case kv_map kvs key of Some kv \<Rightarrow> kv | None \<Rightarrow> key) w)"
proof -
  have key: "cstr key = key" using assms(4) by (rule cstr_id)
  have g: "store_get_kv (the_store w) key = Some (kv_map kvs key)" using store_get_holds [OF assms(3), of key] key by simp
  show ?thesis
  proof (cases "kv_map kvs key")
    case None
    then have "store_get (the_store w) key = Some None" using g by (auto simp: store_get_kv_def split: bind_splits option.splits)
    then show ?thesis using None assms(4,5) key output_string [OF assms(1,2), of key K MSG_INFO] by (simp add: app_read_def contains_nul_def)
  next
    case (Some kv)
    then obtain a where a: "store_get (the_store w) key = Some (Some a)" "info_keyvalue (the_store w) a = Some kv"
      using g by (auto simp: store_get_kv_def split: bind_splits option.splits)
    have "length kv < 65536" using store_kv_sizes [OF assms(3)] Some by (fastforce simp: kv_map_def dest: map_of_SomeD)
    then show ?thesis using Some a assms(4) output_star [OF assms(1,2)] by (simp add: app_read_def contains_nul_def)
  qed
qed

lemma send_matching_infos:
  assumes "store_rep s ents" "the_store w = s" "i_heap w c = Some cl" "talks cl" "i \<le> length ents" "length ents - i < k"
  shows "send_matching k K c pattern (store_get_next s i) w =
    Some (send_infos K cl (filter (\<lambda>kv. match pattern (cstr kv) \<noteq> 0) (map snd (drop i ents))) w)"
  using assms(2,3,5,6)
proof (induction k arbitrary: i w)
  case (Suc k)
  have l: "index s = map (Some \<circ> fst) ents" using assms(1) by (simp add: store_rep_def index_rep_def)
  show ?case
  proof (cases "i < length ents")
    case True
    define kv where "kv = snd (ents ! i)"
    have d: "drop i ents = ents ! i # drop (Suc i) ents" using True by (simp add: Cons_nth_drop_Suc)
    have kv: "info_keyvalue s (fst (ents ! i)) = Some kv" using read_index(4) [OF assms(1) True] by (simp add: kv_def)
    have "store_holds s (map snd ents)" using assms(1) by (auto simp: store_holds_def)
    then have len: "length kv < 65536" using store_kv_sizes True by (auto simp: kv_def)
    note out = output_star [OF Suc.prems(2) assms(4) len, of K MSG_INFO]
    define w1 where "w1 = snd (reply K cl MSG_INFO kv w)"
    have w1: "the_store w1 = s" "i_heap w1 c = Some cl"
      using output_only_simps [OF output_only_reply [of w K cl MSG_INFO kv]] Suc.prems(1,2) by (simp_all add: w1_def)
    have IH: "send_matching k K c pattern (store_get_next s (Suc i)) v =
        Some (send_infos K cl (filter (\<lambda>kv. match pattern (cstr kv) \<noteq> 0) (map snd (drop (Suc i) ents))) v)"
      if "the_store v = s" "i_heap v c = Some cl" for v using Suc.IH [OF that] Suc.prems True by simp
    have "store_get_next s i = (Some (fst (ents ! i)), Suc i)" using True l by (simp add: store_get_next_def)
    then show ?thesis using Suc.prems(1) d kv out w1 IH [OF w1] IH [OF Suc.prems(1,2)]
      by (simp add: kv_def [symmetric] case_prod_unfold Let_def w1_def [symmetric])
  next
    case False
    then show ?thesis using Suc.prems l by (simp add: store_get_next_def)
  qed
qed simp

lemma app_sub_infos:
  assumes "i_heap w c = Some cl" "talks cl" "store_holds (the_store w) kvs" "c_nsubs cl \<le> MAX_SUBS" "\<not> has_nul pattern"
    "match_isvalid pattern" "os_realloc (k_os K) (24 + length pattern + 1)"
  defines "cl' \<equiv> cl\<lparr>c_subs := pattern # c_subs cl, c_nsubs := c_nsubs cl + 1\<rparr>"
  shows "app_sub K c pattern w = Some (send_infos K cl' (filter (\<lambda>kv. match pattern (cstr kv) \<noteq> 0) kvs) (set_client c cl' w))"
proof -
  obtain ents where e: "store_rep (the_store w) ents" "kvs = map snd ents" using assms(3) by (auto simp: store_holds_def)
  have n: "add32 (c_nsubs cl) 1 = c_nsubs cl + 1" using assms(4) by (intro add32_id) (simp add: MAX_SUBS_def)
  have "send_matching (length ents + 1) K c pattern (store_get_next (the_store w) 0) (set_client c cl' w) =
      Some (send_infos K cl' (filter (\<lambda>kv. match pattern (cstr kv) \<noteq> 0) kvs) (set_client c cl' w))"
    using send_matching_infos [OF e(1), of "set_client c cl' w" c cl' 0 "length ents + 1" K pattern] e(2) assms(2)
    by (simp add: set_client_def talks_def cl'_def)
  moreover have "length (index (the_store w)) = length ents" using e(1) by (simp add: store_rep_def index_rep_def)
  ultimately show ?thesis using assms(1,4-7) n
    by (simp add: app_sub_def contains_nul_def subscription_new_def store_get_first_def Let_def cl'_def set_client_def)
qed

subsection \<open>Writing\<close>

lemma notify_client_eq:
  assumes "i_heap w c = Some cl" "subs \<noteq> [] \<longrightarrow> talks cl" "length data < 65536"
  shows "notify_client K c data subs w = Some (notify K cl data subs w)"
  using assms(1,2)
proof (induction subs arbitrary: w)
  case (Cons sub subs)
  have t: "talks cl" using Cons.prems by simp
  note out = output_star [OF Cons.prems(1) t assms(3), of K MSG_INFO]
  define r where "r = fst (reply K cl MSG_INFO data w)"
  define w1 where "w1 = snd (reply K cl MSG_INFO data w)"
  have rw: "reply K cl MSG_INFO data w = (r, w1)" by (simp add: r_def w1_def)
  have w1: "i_heap w1 c = Some cl" using output_only_simps(2) [OF output_only_reply [of w K cl MSG_INFO data]] Cons.prems(1) by (simp add: w1_def)
  have w2: "i_heap (drop_client K cl w1) c = Some cl" using output_only_simps(2) [OF output_only_drop [of w1 K cl]] w1 by simp
  have "notify_client K c data (sub # subs) w =
      (if match sub (cstr data) \<noteq> 0 then if r = -1 then notify_client K c data subs (drop_client K cl w1) else notify_client K c data subs w1
       else notify_client K c data subs w)"
    using out rw w1 by (simp add: drop_client_def)
  then show ?case using Cons.IH [OF w1] Cons.IH [OF w2] Cons.IH [OF Cons.prems(1)] t rw by simp
qed simp

lemma notify_all_eq:
  assumes "\<forall>c\<in>set cs. \<exists>cl. H c = Some cl \<and> (c_subs cl \<noteq> [] \<longrightarrow> talks cl)" "i_heap w = H" "length data < 65536"
  shows "notify_all K data cs w = Some (notify_each K data (map (\<lambda>c. the (H c)) cs) w)"
  using assms(1,2)
proof (induction cs arbitrary: w)
  case (Cons c cs)
  then obtain cl where cl: "i_heap w c = Some cl" "c_subs cl \<noteq> [] \<longrightarrow> talks cl" by auto
  have "i_heap (notify K cl data (c_subs cl) w) = H" using output_only_simps(2) [OF output_only_notify] Cons.prems(2) by simp
  then show ?case using Cons.IH Cons.prems cl notify_client_eq [OF cl assms(3), of K] by auto
qed simp

lemma output_only_each: "output_only w (notify_each K data cls w)"
proof (induction cls arbitrary: w)
  case (Cons cl cls)
  then show ?case using output_only_notify output_only_trans by (metis notify_each.simps(2))
qed simp

lemma write_store_eq:
  assumes "os_sane (k_os K)" "store_holds (the_store w) kvs" "length data < 65536"
  shows "\<exists>res s. app_write_store K data w = Some (res, w\<lparr>the_store := s\<rparr>) \<and>
    (case res of Inl what \<Rightarrow> what = lit ''write: '' \<and> store_holds s (kv_del (cstr data) kvs) \<and> put_may_fail (k_os K) (the_store w) data
     | Inr changed \<Rightarrow> store_holds s (kv_write data kvs) \<and> changed = write_changes data kvs)"
proof (cases "has_nul data")
  case False
  then have k: "cstr data = data" by (simp add: cstr_id)
  obtain r s where "store_del (k_os K) (Some data) (the_store w) = Some (r, s)" "store_holds s (kv_del data kvs)"
    "r = (if data \<in> dom (kv_map kvs) then 1 else 0)" using store_del_holds [OF assms(1,2), of data] k by auto
  then show ?thesis using False by (auto simp: app_write_store_def contains_nul_def kv_write_def write_changes_def kv_map_dom Let_def)
next
  case nul: True
  show ?thesis
  proof (cases "is_ephemeral data")
    case True
    then show ?thesis using nul assms(2) by (auto simp: app_write_store_def contains_nul_def kv_write_def write_changes_def intro!: exI [of _ "the_store w"])
  next
    case False
    obtain r s where "store_put (k_os K) data (the_store w) = Some (r, s)"
      "r = 0 \<and> s = the_store w \<and> data \<in> set kvs \<or> r = 1 \<and> data \<notin> set kvs \<and> store_holds s (kv_put data kvs) \<or>
       r = -1 \<and> data \<notin> set kvs \<and> store_holds s (kv_del (cstr data) kvs) \<and> put_may_fail (k_os K) (the_store w) data"
      using store_put_holds [OF assms(1,2) nul assms(3)] by blast
    then show ?thesis using nul False assms(2) kv_put_present [OF store_holds_ok [OF assms(2)], of data]
      by (auto simp: app_write_store_def contains_nul_def kv_write_def write_changes_def Let_def)
  qed
qed

lemma app_write_eq:
  assumes "os_sane (k_os K)" "store_holds (the_store w) kvs" "length data < 65536" "clients_listen w" "i_heap w c = Some cl" "talks cl"
  shows "\<exists>s. store_holds s (kv_write data kvs) \<and> app_write K c data w =
      Some (1, if write_changes data kvs then notify_each K data (map (\<lambda>c. the (i_heap w c)) (all_clients w)) (w\<lparr>the_store := s\<rparr>) else w\<lparr>the_store := s\<rparr>) \<or>
    store_holds s (kv_del (cstr data) kvs) \<and> put_may_fail (k_os K) (the_store w) data \<and> app_write K c data w =
      Some (-1, snd (reply K cl MSG_ERROR (PROTO_ERROR_INTERNAL # take 16383 (cstr (lit ''write: '' @ strerror K w))) (w\<lparr>the_store := s\<rparr>)))"
proof -
  obtain res s where s: "app_write_store K data w = Some (res, w\<lparr>the_store := s\<rparr>)"
    "case res of Inl what \<Rightarrow> what = lit ''write: '' \<and> store_holds s (kv_del (cstr data) kvs) \<and> put_may_fail (k_os K) (the_store w) data
     | Inr changed \<Rightarrow> store_holds s (kv_write data kvs) \<and> changed = write_changes data kvs" using write_store_eq [OF assms(1-3)] by blast
  let ?w = "w\<lparr>the_store := s\<rparr>"
  have n: "notify_all K data (all_clients w) ?w = Some (notify_each K data (map (\<lambda>c. the (i_heap w c)) (all_clients w)) ?w)"
    using assms(4) by (intro notify_all_eq) (auto simp: clients_listen_def assms(3))
  have e: "client_output_error K c PROTO_ERROR_INTERNAL (lit ''write: '' @ strerror K ?w) ?w =
      Some (-1, snd (reply K cl MSG_ERROR (PROTO_ERROR_INTERNAL # take 16383 (cstr (lit ''write: '' @ strerror K w))) ?w))"
    using output_error_reply [of ?w c cl K PROTO_ERROR_INTERNAL "lit ''write: '' @ strerror K ?w"] assms(5,6) by (simp add: strerror_def)
  show ?thesis
  proof (cases res)
    case (Inl what)
    then show ?thesis using s e by (auto simp: app_write_def strerror_def)
  next
    case (Inr changed)
    then show ?thesis using s n by (auto simp: app_write_def)
  qed
qed

subsection \<open>The bytes on the sockets\<close>

lemma written_append [simp]: "written (xs @ ys) = written xs @ written ys"
proof (induction xs)
  case (Cons e xs)
  then show ?case by (cases e) simp_all
qed simp

lemma written_reply:
  "p_on_sendv (c_proto cl) = Set \<Longrightarrow>
   written (events (snd (reply K cl msg d w))) = written (events w) @ [(c_fd cl, wire_msg (p_mode (c_proto cl)) msg d)]"
  by (simp add: reply_def sys_writev_def Let_def)

lemma reply_works: "(\<And>ev fd bs. k_writev K ev fd bs \<noteq> -1) \<Longrightarrow> fst (reply K cl msg d w) \<noteq> -1"
  by (simp add: reply_def sys_writev_def Let_def)

lemma written_infos:
  assumes "p_on_sendv (c_proto cl) = Set" "\<And>ev fd bs. k_writev K ev fd bs \<noteq> -1"
  shows "fst (send_infos K cl ds w) = 1 \<and>
    written (events (snd (send_infos K cl ds w))) = written (events w) @ map (\<lambda>d. (c_fd cl, wire_msg (p_mode (c_proto cl)) MSG_INFO d)) ds"
proof (induction ds arbitrary: w)
  case (Cons d ds)
  show ?case using Cons [of "snd (reply K cl MSG_INFO d w)"] written_reply [OF assms(1), of K MSG_INFO d w] reply_works [OF assms(2), of cl MSG_INFO d w]
    by (simp add: case_prod_unfold Let_def)
qed simp

lemma written_notify:
  assumes "p_on_sendv (c_proto cl) = Set" "\<And>ev fd bs. k_writev K ev fd bs \<noteq> -1"
  shows "written (events (notify K cl data subs w)) = written (events w) @
    map (\<lambda>sub. (c_fd cl, wire_msg (p_mode (c_proto cl)) MSG_INFO data)) (filter (\<lambda>sub. match sub (cstr data) \<noteq> 0) subs)"
proof (induction subs arbitrary: w)
  case (Cons sub subs)
  show ?case using Cons written_reply [OF assms(1), of K MSG_INFO data w] reply_works [OF assms(2), of cl MSG_INFO data w]
    by (simp add: case_prod_unfold Let_def)
qed simp

lemma written_each:
  assumes "\<forall>cl\<in>set cls. c_subs cl \<noteq> [] \<longrightarrow> p_on_sendv (c_proto cl) = Set" "\<And>ev fd bs. k_writev K ev fd bs \<noteq> -1"
  shows "written (events (notify_each K data cls w)) = written (events w) @ concat (map (\<lambda>cl.
    map (\<lambda>sub. (c_fd cl, wire_msg (p_mode (c_proto cl)) MSG_INFO data)) (filter (\<lambda>sub. match sub (cstr data) \<noteq> 0) (c_subs cl))) cls)"
  using assms(1)
proof (induction cls arbitrary: w)
  case (Cons cl cls)
  have "written (events (notify K cl data (c_subs cl) w)) = written (events w) @
    map (\<lambda>sub. (c_fd cl, wire_msg (p_mode (c_proto cl)) MSG_INFO data)) (filter (\<lambda>sub. match sub (cstr data) \<noteq> 0) (c_subs cl))"
    using written_notify [OF _ assms(2), of cl] Cons.prems by (cases "c_subs cl = []") simp_all
  then show ?case using Cons by simp
qed simp

subsection \<open>Commands\<close>

lemmas output_fail = output_error_reply [folded fail_def]

lemma lit_infod3: "cstr (lit ''infod3'') = lit ''infod3''"
  by (rule cstr_id) code_simp

lemma app_sub_eq:
  assumes "i_heap w c = Some cl" "talks cl" "store_holds (the_store w) kvs"
  shows "app_sub K c data w = sub_command K c cl data w"
proof (cases "MAX_SUBS < c_nsubs cl \<or> has_nul data \<or> \<not> match_isvalid data \<or> \<not> os_realloc (k_os K) (24 + length data + 1)")
  case True
  then show ?thesis using assms(1) output_fail [OF assms(1,2)] by (auto simp: app_sub_def sub_command_def contains_nul_def subscription_new_def)
next
  case False
  then show ?thesis using app_sub_infos [OF assms, of data K] store_all_holds [OF assms(3)] by (simp add: sub_command_def Let_def)
qed

lemma app_write_command:
  assumes "i_heap w c = Some cl" "talks cl" "clients_listen w" "length data < 65536"
    "os_sane (k_os K)" "store_holds (the_store w) kvs"
  shows "app_write K c data w = write_command K cl data w"
proof -
  obtain res s where s: "app_write_store K data w = Some (res, w\<lparr>the_store := s\<rparr>)" using write_store_eq [OF assms(5,6,4)] by blast
  let ?w = "w\<lparr>the_store := s\<rparr>"
  have n: "notify_all K data (all_clients w) ?w = Some (notify_each K data (map (\<lambda>c. the (i_heap w c)) (all_clients w)) ?w)"
    using assms(3) by (intro notify_all_eq) (auto simp: clients_listen_def assms(4))
  show ?thesis using s n output_fail [of ?w c cl] assms(1,2) by (cases res) (simp_all add: app_write_def write_command_def)
qed

lemma app_command_eq:
  assumes "i_heap w c = Some cl" "talks cl" "clients_listen w" "length data < 65536"
    "os_sane (k_os K)" "store_holds (the_store w) kvs"
  shows "app_command K c msg data w = command K c cl msg data w"
proof -
  have hello: "client_output K c MSG_VERSION (lit ''%c%s'') [ArgInt 0, ArgStr (lit ''infod3'')] w = Some (reply K cl MSG_VERSION (0 # lit ''infod3'') w)"
    using output_char_string [OF assms(1,2), of "lit ''infod3''" K MSG_VERSION 0] by (simp add: lit_infod3 low_byte_def) (simp add: lit_def)
  have read: "app_read K c data w = (if has_nul data then Some (fail K cl PROTO_ERROR_BAD_ARG (lit ''read: invalid key'') w)
      else map_option (\<lambda>r. reply K cl MSG_INFO (case r of Some kv \<Rightarrow> kv | None \<Rightarrow> data) w) (store_get_kv (the_store w) data))"
  proof (cases "has_nul data")
    case True
    then show ?thesis using output_fail [OF assms(1,2)] by (simp add: app_read_def contains_nul_def)
  next
    case False
    then show ?thesis using app_read_reply [OF assms(1,2,6) False assms(4)] store_get_holds [OF assms(6), of data] by (simp add: cstr_id)
  qed
  show ?thesis unfolding app_command_def command_def hello read app_sub_eq [OF assms(1,2,6)] app_write_command [OF assms]
      output_star [OF assms(1,2,4)] output_fail [OF assms(1,2)] by simp
qed

lemma handled_output:
  assumes "store_holds (the_store w) kvs" "i_heap w c = Some cl" "output_only w w'"
  shows "handled c cl w w'"
  unfolding handled_def using assms set_client_same [of w c cl] by (intro exI [of _ "the_store w"] exI [of _ kvs]) simp

lemma sub_command_handled:
  assumes "i_heap w c = Some cl" "store_holds (the_store w) kvs" "c_nsubs cl = length (c_subs cl)" "length (c_subs cl) \<le> MAX_SUBS + 1"
  shows "\<exists>r w' subs. sub_command K c cl data w = Some (r, w') \<and> length subs \<le> MAX_SUBS + 1 \<and>
    handled c (cl\<lparr>c_subs := subs, c_nsubs := length subs\<rparr>) w w'"
proof -
  have same: "cl\<lparr>c_subs := c_subs cl, c_nsubs := length (c_subs cl)\<rparr> = cl" using assms(3) by (cases cl) simp
  have f: "\<exists>r w' subs. Some (fail K cl code m w) = Some (r, w') \<and> length subs \<le> MAX_SUBS + 1 \<and>
      handled c (cl\<lparr>c_subs := subs, c_nsubs := length subs\<rparr>) w w'" for code m
    using handled_output [OF assms(2,1) output_only_reply] assms(4) same
    by (intro exI [of _ "-1"] exI [of _ "snd (fail K cl code m w)"] exI [of _ "c_subs cl"]) (simp add: fail_def)
  define cl' where "cl' = cl\<lparr>c_subs := data # c_subs cl, c_nsubs := length (data # c_subs cl)\<rparr>"
  have "handled c cl' w (snd (send_infos K cl' ds (set_client c cl' w)))" for ds
    unfolding handled_def using assms(2) output_only_infos [of "set_client c cl' w"] by (intro exI [of _ "the_store w"] exI [of _ kvs]) simp
  then have g: "\<exists>r w' subs. Some (send_infos K cl' ds (set_client c cl' w)) = Some (r, w') \<and> length subs \<le> MAX_SUBS + 1 \<and>
      handled c (cl\<lparr>c_subs := subs, c_nsubs := length subs\<rparr>) w w'" if "\<not> MAX_SUBS < c_nsubs cl" for ds
    using that assms(3) by (intro exI [of _ "fst (send_infos K cl' ds (set_client c cl' w))"] exI [of _ "snd (send_infos K cl' ds (set_client c cl' w))"]
      exI [of _ "data # c_subs cl"]) (simp add: cl'_def)
  show ?thesis using f g store_all_holds [OF assms(2)] assms(3) by (auto simp: sub_command_def Let_def cl'_def simp del: send_infos.simps)
qed

lemma write_command_handled:
  assumes "i_heap w c = Some cl" "length data < 65536" "os_sane (k_os K)" "store_holds (the_store w) kvs"
  shows "\<exists>r w'. write_command K cl data w = Some (r, w') \<and> handled c cl w w'"
proof -
  obtain res s where s: "app_write_store K data w = Some (res, w\<lparr>the_store := s\<rparr>)"
    "case res of Inl what \<Rightarrow> what = lit ''write: '' \<and> store_holds s (kv_del (cstr data) kvs) \<and> put_may_fail (k_os K) (the_store w) data
     | Inr changed \<Rightarrow> store_holds s (kv_write data kvs) \<and> changed = write_changes data kvs" using write_store_eq [OF assms(3,4,2)] by blast
  let ?w = "w\<lparr>the_store := s\<rparr>"
  have same: "set_client c cl ?w = ?w" using assms(1) by (intro set_client_same) simp
  have "\<exists>kvs'. store_holds s kvs'" using s(2) by (cases res) auto
  then have "handled c cl w w'" if "output_only ?w w'" for w' using that same by (auto simp: handled_def)
  then show ?thesis using s(1) output_only_each [of ?w K data] output_only_reply [of ?w K cl MSG_ERROR]
    by (cases res) (auto simp: write_command_def fail_def)
qed

lemma list_remove_length: "find_subscription data subs = Some i \<Longrightarrow> i < length subs \<and> length (list_remove i subs) = length subs - 1"
  by (induction subs arbitrary: i) (force simp: list_remove_def split: if_splits)+

lemma command_handled:
  assumes "i_heap w c = Some cl" "length data < 65536" "os_sane (k_os K)" "store_holds (the_store w) kvs" "msg \<noteq> CMD_BEGIN"
    "c_nsubs cl = length (c_subs cl)" "length (c_subs cl) \<le> MAX_SUBS + 1"
  shows "\<exists>r w' subs. command K c cl msg data w = Some (r, w') \<and> length subs \<le> MAX_SUBS + 1 \<and>
    handled c (cl\<lparr>c_subs := subs, c_nsubs := length subs\<rparr>) w w'"
proof -
  have same: "cl\<lparr>c_subs := c_subs cl, c_nsubs := length (c_subs cl)\<rparr> = cl" using assms(6) by (cases cl) simp
  have out: "\<exists>r w' subs. Some x = Some (r, w') \<and> length subs \<le> MAX_SUBS + 1 \<and>
      handled c (cl\<lparr>c_subs := subs, c_nsubs := length subs\<rparr>) w w'" if "output_only w (snd x)" for x
    using handled_output [OF assms(4,1) that] assms(7) same by (intro exI [of _ "fst x"] exI [of _ "snd x"] exI [of _ "c_subs cl"]) simp
  have fail: "output_only w (snd (fail K cl code m w))" for code m using output_only_reply by (simp add: fail_def)
  have unsub: "\<exists>r w' subs. app_unsub c data w = Some (r, w') \<and> length subs \<le> MAX_SUBS + 1 \<and>
      handled c (cl\<lparr>c_subs := subs, c_nsubs := length subs\<rparr>) w w'"
  proof (cases "find_subscription data (c_subs cl)")
    case None
    then show ?thesis using out [of "(1, w)"] assms(1) by (simp add: app_unsub_def client_find_subscription_def)
  next
    case (Some i)
    then have l: "length (list_remove i (c_subs cl)) = c_nsubs cl - 1" "0 < c_nsubs cl" using list_remove_length assms(6) by fastforce+
    have "1 \<le> c_nsubs cl" "c_nsubs cl < 2 ^ 32" using l(2) assms(6,7) by (linarith, simp add: MAX_SUBS_def)
    from sub32_id [OF this] have "sub32 (c_nsubs cl) 1 = length (list_remove i (c_subs cl))" using l by simp
    then show ?thesis using Some l assms(1,4,6,7)
      by (intro exI [of _ 1] exI exI [of _ "list_remove i (c_subs cl)"])
        (auto simp: app_unsub_def client_find_subscription_def handled_def intro!: exI [of _ "the_store w"])
  qed
  obtain r w' where wr: "write_command K cl data w = Some (r, w')" "handled c cl w w'" using write_command_handled [OF assms(1-4)] by blast
  have wrote: "\<exists>r w' subs. write_command K cl data w = Some (r, w') \<and> length subs \<le> MAX_SUBS + 1 \<and>
      handled c (cl\<lparr>c_subs := subs, c_nsubs := length subs\<rparr>) w w'" using wr same assms(7) by (intro exI [of _ r] exI [of _ w'] exI [of _ "c_subs cl"]) simp
  have get: "store_get_kv (the_store w) data = Some (kv_map kvs (cstr data))" using store_get_holds [OF assms(4)] .
  show ?thesis unfolding command_def
    using assms(5) out [OF fail] out [OF output_only_reply] unsub wrote get sub_command_handled [OF assms(1,4,6,7), of K data] by (simp split: if_split)
qed

subsection \<open>Transactions\<close>

text \<open>The answers do not depend on the records, nor do they look at a client's buffered commands.\<close>

lemma reply_heap: "reply K cl m d (w\<lparr>i_heap := H\<rparr>) = map_prod id (\<lambda>w. w\<lparr>i_heap := H\<rparr>) (reply K cl m d w)"
  by (cases w) (simp add: reply_def sys_writev_def emit_def Let_def)

lemma drop_heap: "drop_client K cl (w\<lparr>i_heap := H\<rparr>) = (drop_client K cl w)\<lparr>i_heap := H\<rparr>"
  by (cases w) (simp add: drop_client_def shutdown_read_def log_msgf_def emit_def strerror_def listener_peername_def tcp_peername_def split: option.splits)

lemma infos_heap: "send_infos K cl ds (w\<lparr>i_heap := H\<rparr>) = map_prod id (\<lambda>w. w\<lparr>i_heap := H\<rparr>) (send_infos K cl ds w)"
  by (induction ds arbitrary: w) (simp_all add: reply_heap case_prod_unfold Let_def)

lemma notify_heap: "notify K cl data subs (w\<lparr>i_heap := H\<rparr>) = (notify K cl data subs w)\<lparr>i_heap := H\<rparr>"
proof (induction subs arbitrary: w)
  case (Cons sub subs)
  then show ?case by (cases "match sub (cstr data) = 0"; cases "fst (reply K cl MSG_INFO data w) = -1")
    (simp_all add: reply_heap drop_heap case_prod_unfold Let_def)
qed simp

lemma each_heap: "notify_each K data cls (w\<lparr>i_heap := H\<rparr>) = (notify_each K data cls w)\<lparr>i_heap := H\<rparr>"
  by (induction cls arbitrary: w) (simp_all add: notify_heap)

lemma reply_bufcmds [simp]: "reply K (cl\<lparr>c_bufcmds := bs\<rparr>) m d w = reply K cl m d w"
  by (simp add: reply_def)

lemma infos_bufcmds [simp]: "send_infos K (cl\<lparr>c_bufcmds := bs\<rparr>) ds w = send_infos K cl ds w"
  by (induction ds arbitrary: w) (simp_all add: case_prod_unfold Let_def)

lemma drop_bufcmds [simp]: "drop_client K (cl\<lparr>c_bufcmds := bs\<rparr>) w = drop_client K cl w"
  by (simp add: drop_client_def)

lemma notify_bufcmds [simp]: "notify K (cl\<lparr>c_bufcmds := bs\<rparr>) data subs w = notify K cl data subs w"
  by (induction subs arbitrary: w) (simp_all add: case_prod_unfold Let_def)

lemma each_bufcmds: "notify_each K data (map (\<lambda>c. (g c)\<lparr>c_bufcmds := b c\<rparr>) cs) w = notify_each K data (map g cs) w"
  by (induction cs arbitrary: w) simp_all

lemma output_set_bufcmds:
  assumes "i_heap (snd x) = i_heap w"
  shows "map_prod id (\<lambda>w'. w'\<lparr>i_heap := i_heap (set_bufcmds c bs w)\<rparr>) x = map_prod id (set_bufcmds c bs) x"
  using assms by (cases x) (simp add: set_bufcmds_def)

lemma reply_set_bufcmds: "reply K cl m d (set_bufcmds c bs w) = map_prod id (set_bufcmds c bs) (reply K cl m d w)"
  using output_set_bufcmds [OF output_only_simps(2) [OF output_only_reply], where c = c and bs = bs]
  unfolding set_bufcmds_def [of c bs w] reply_heap by (simp add: set_bufcmds_def)

lemma fail_set_bufcmds: "fail K (cl\<lparr>c_bufcmds := bs'\<rparr>) code m (set_bufcmds c bs w) = map_prod id (set_bufcmds c bs) (fail K cl code m w)"
  by (simp add: fail_def reply_set_bufcmds)

lemma infos_set_bufcmds: "send_infos K cl ds (set_bufcmds c bs w) = map_prod id (set_bufcmds c bs) (send_infos K cl ds w)"
  using output_set_bufcmds [OF output_only_simps(2) [OF output_only_infos], where c = c and bs = bs]
  unfolding set_bufcmds_def [of c bs w] infos_heap by (simp add: set_bufcmds_def)

lemma each_set_bufcmds: "notify_each K data cls (set_bufcmds c bs w) = set_bufcmds c bs (notify_each K data cls w)"
  unfolding set_bufcmds_def each_heap output_only_simps(2) [OF output_only_each] ..

lemma set_bufcmds_simps [simp]:
  "the_store (set_bufcmds c bs w) = the_store w" "all_clients (set_bufcmds c bs w) = all_clients w" "i_options (set_bufcmds c bs w) = i_options w"
  "events (set_bufcmds c bs w) = events w" "strerror K (set_bufcmds c bs w) = strerror K w"
  "i_heap (set_bufcmds c bs w) c = map_option (\<lambda>cl. cl\<lparr>c_bufcmds := bs\<rparr>) (i_heap w c)"
  "set_bufcmds c bs (set_bufcmds c bs' w) = set_bufcmds c bs w"
  by (auto simp: set_bufcmds_def strerror_def option.map_comp comp_def)

lemma subs_bufcmds: "cl\<lparr>c_subs := x, c_nsubs := n, c_bufcmds := bs\<rparr> = cl\<lparr>c_bufcmds := bs, c_subs := x, c_nsubs := n\<rparr>"
  by (cases cl) simp

lemma sub_set_bufcmds:
  assumes "i_heap w c = Some cl"
  shows "sub_command K c (cl\<lparr>c_bufcmds := bs\<rparr>) data (set_bufcmds c bs w) = map_option (map_prod id (set_bufcmds c bs)) (sub_command K c cl data w)"
proof -
  have "set_client c (cl\<lparr>c_bufcmds := bs, c_subs := x, c_nsubs := n\<rparr>) (set_bufcmds c bs w) =
      set_bufcmds c bs (set_client c (cl\<lparr>c_subs := x, c_nsubs := n\<rparr>) w)" for x n
    by (simp add: set_client_def set_bufcmds_def subs_bufcmds)
  moreover have "send_infos K (cl\<lparr>c_bufcmds := bs, c_subs := x, c_nsubs := n\<rparr>) ds v = send_infos K (cl\<lparr>c_subs := x, c_nsubs := n\<rparr>) ds v" for x n ds v
    using infos_bufcmds [where cl = "cl\<lparr>c_subs := x, c_nsubs := n\<rparr>" and bs = bs] by (simp add: subs_bufcmds)
  ultimately show ?thesis
    by (simp add: sub_command_def fail_set_bufcmds infos_set_bufcmds Let_def option.map_comp comp_def)
qed

lemma write_set_bufcmds:
  assumes "i_heap w c = Some cl"
  shows "write_command K (cl\<lparr>c_bufcmds := bs\<rparr>) data (set_bufcmds c bs w) = map_option (map_prod id (set_bufcmds c bs)) (write_command K cl data w)"
proof -
  define b where "b = (\<lambda>c'. if c' = c then bs else c_bufcmds (the (i_heap w c')))"
  have "the (i_heap (set_bufcmds c bs w) c') = (the (i_heap w c'))\<lparr>c_bufcmds := b c'\<rparr>" for c' using assms by (simp add: b_def set_bufcmds_def)
  then have cls: "map (\<lambda>c'. the (i_heap (set_bufcmds c bs w) c')) cs = map (\<lambda>c'. (the (i_heap w c'))\<lparr>c_bufcmds := b c'\<rparr>) cs" for cs by simp
  have store: "app_write_store K data (set_bufcmds c bs w) = map_option (map_prod id (set_bufcmds c bs)) (app_write_store K data w)"
    by (cases w) (auto simp: app_write_store_def set_bufcmds_def Let_def split: bind_splits)
  show ?thesis
    by (auto simp: write_command_def store cls each_bufcmds each_set_bufcmds fail_set_bufcmds split: bind_splits sum.splits option.splits)
qed

lemma command_set_bufcmds:
  assumes "i_heap w c = Some cl" "msg \<noteq> CMD_BEGIN"
  shows "command K c (cl\<lparr>c_bufcmds := bs\<rparr>) msg data (set_bufcmds c bs w) = map_option (map_prod id (set_bufcmds c bs)) (command K c cl msg data w)"
proof -
  have "app_unsub c data (set_bufcmds c bs w) = map_option (map_prod id (set_bufcmds c bs)) (app_unsub c data w)"
    using assms(1) by (auto simp: app_unsub_def client_find_subscription_def set_bufcmds_def set_client_def subs_bufcmds split: option.splits)
  then show ?thesis using assms
    by (simp add: command_def sub_set_bufcmds write_set_bufcmds reply_set_bufcmds fail_set_bufcmds option.map_comp comp_def)
qed

lemma on_app_input_eq:
  "on_app_input K c msg data w = do {
     w1 \<leftarrow> log_input K c msg data w;
     if msg = MSG_EOF then Some (0, w1)
     else do {
       cl \<leftarrow> i_heap w1 c;
       if c_begins cl \<noteq> 0 then buffer_command K (on_app_input_depth 1 K c) c msg data w1
       else app_command K c msg data w1
     }
   }"
  unfolding on_app_input_def numeral_2_eq_2 by (simp only: on_app_input_depth.simps(2) One_nat_def)

lemma input_command:
  assumes "i_heap w c = Some cl" "talks cl" "clients_listen w" "length data < 65536" "os_sane (k_os K)" "store_holds (the_store w) kvs"
    "o_verbose (i_options w) \<le> 1" "c_begins cl = 0" "msg \<noteq> MSG_EOF"
  shows "on_app_input_depth (Suc n) K c msg data w = command K c cl msg data w"
  using assms app_command_eq [OF assms(1-6), of msg] by (simp add: log_input_def)

lemma handled_keeps:
  assumes "handled c cl' w w'" "clients_listen w" "talks cl'"
  shows "clients_listen w'" "i_heap w' = (i_heap w)(c := Some cl')" "i_options w' = i_options w" "all_clients w' = all_clients w" "i_brk w' = i_brk w"
    "\<exists>kvs. store_holds (the_store w') kvs"
proof -
  obtain s kvs where s: "store_holds s kvs" "output_only (set_client c cl' (w\<lparr>the_store := s\<rparr>)) w'" using assms(1) by (auto simp: handled_def)
  note o = output_only_simps [OF s(2)]
  show "i_heap w' = (i_heap w)(c := Some cl')" "i_options w' = i_options w" "all_clients w' = all_clients w" "i_brk w' = i_brk w"
    "\<exists>kvs. store_holds (the_store w') kvs" using o s(1) by (auto simp: set_client_def)
  then show "clients_listen w'" using assms(2,3) by (auto simp: clients_listen_def)
qed

lemma playback_step:
  "i_heap w c = Some cl \<Longrightarrow> c_bufcmds cl = b # bs \<Longrightarrow> handler (bc_msg b) (bc_data b) (set_client c (cl\<lparr>c_bufcmds := bs\<rparr>) w) = Some (r, w1) \<Longrightarrow>
   0 < r \<Longrightarrow> playback handler (Suc k) c w = playback handler k c w1"
  by simp

lemma playback_run:
  assumes "i_heap w c = Some cl" "c_bufcmds cl = map to_bufcmd ms" "talks cl" "clients_listen w" "os_sane (k_os K)" "store_holds (the_store w) kvs"
    "o_verbose (i_options w) \<le> 1" "c_begins cl = 0" "c_nsubs cl = length (c_subs cl)" "length (c_subs cl) \<le> MAX_SUBS + 1"
    "list_all plain_cmd ms" "run_cmds K c ms (set_bufcmds c [] w) = Some (r, w')" "0 < r"
  shows "playback (on_app_input_depth 1 K c) (length ms + 1) c w = Some (1, w')"
  using assms(1-4,6-12)
proof (induction ms arbitrary: w cl kvs)
  case Nil
  then have "set_bufcmds c [] w = w" by (cases w; cases cl) (auto simp: set_bufcmds_def fun_upd_idem)
  then show ?case using Nil by simp
next
  case (Cons x ms)
  obtain m d where x: "x = (m, d)" by (cases x)
  have md: "m \<noteq> CMD_BEGIN" "m \<noteq> MSG_EOF" "length d < 65536" using Cons.prems(10) x by (simp_all add: plain_cmd_def)
  define cl0 where "cl0 = cl\<lparr>c_bufcmds := []\<rparr>"
  define v where "v = set_bufcmds c [] w"
  have v: "i_heap v c = Some cl0" "talks cl0" "clients_listen v" "store_holds (the_store v) kvs" "o_verbose (i_options v) \<le> 1" "c_begins cl0 = 0"
    using Cons.prems by (auto simp: v_def cl0_def talks_def clients_listen_def set_bufcmds_def)
  have sub0: "c_nsubs cl0 = length (c_subs cl0)" "length (c_subs cl0) \<le> MAX_SUBS + 1" using Cons.prems(8,9) by (simp_all add: cl0_def)
  obtain r1 v1 subs where v1: "command K c cl0 m d v = Some (r1, v1)" "length subs \<le> MAX_SUBS + 1"
    "handled c (cl0\<lparr>c_subs := subs, c_nsubs := length subs\<rparr>) v v1"
    using command_handled [OF v(1) md(3) assms(5) v(4) md(1) sub0] by blast
  define cl1 where "cl1 = cl0\<lparr>c_subs := subs, c_nsubs := length subs\<rparr>"
  have t1: "talks cl1" using v(2) by (simp add: cl1_def talks_def)
  note k = handled_keeps [OF v1(3) [folded cl1_def] v(3) t1]
  obtain kvs1 where kvs1: "store_holds (the_store v1) kvs1" using k(6) by blast
  have "on_app_input K c m d v = Some (r1, v1)"
    using input_command [OF v(1-3) md(3) assms(5) v(4-6) md(2), of 1] v1(1) by (simp add: on_app_input_def numeral_2_eq_2)
  then have run: "0 < r1" "run_cmds K c ms v1 = Some (r, w')" using Cons.prems(11) x assms(13) by (auto simp: v_def split: if_splits)
  let ?bs = "map to_bufcmd ms"
  have pop: "set_client c (cl\<lparr>c_bufcmds := ?bs\<rparr>) w = set_bufcmds c ?bs v" using Cons.prems(1) by (simp add: v_def set_bufcmds_def set_client_def)
  have "clients_listen (set_bufcmds c ?bs v)" using v(1-3) by (auto simp: clients_listen_def set_bufcmds_def talks_def)
  then have h: "on_app_input_depth 1 K c m d (set_bufcmds c ?bs v) = Some (r1, set_bufcmds c ?bs v1)"
    using input_command [of "set_bufcmds c ?bs v" c "cl0\<lparr>c_bufcmds := ?bs\<rparr>" d K kvs m 0] v md assms(5) command_set_bufcmds [OF v(1) md(1), of K ?bs d] v1(1)
    by (simp add: talks_def)
  have b: "c_bufcmds cl = \<lparr>bc_msg = m, bc_data = d\<rparr> # ?bs" using Cons.prems(2) x by (simp add: to_bufcmd_def)
  have "playback (on_app_input_depth 1 K c) (length (x # ms) + 1) c w = playback (on_app_input_depth 1 K c) (length ms + 1) c (set_bufcmds c ?bs v1)"
    using playback_step [OF Cons.prems(1) b _ run(1), of "on_app_input_depth 1 K c" _ "length ms + 1"] h pop by simp
  also have "\<dots> = Some (1, w')"
  proof (rule Cons.IH)
    show "i_heap (set_bufcmds c ?bs v1) c = Some (cl1\<lparr>c_bufcmds := ?bs\<rparr>)" "store_holds (the_store (set_bufcmds c ?bs v1)) kvs1"
      "o_verbose (i_options (set_bufcmds c ?bs v1)) \<le> 1" using k kvs1 v(5) by simp_all
    show "clients_listen (set_bufcmds c ?bs v1)" using k(1,2) t1 by (auto simp: clients_listen_def set_bufcmds_def talks_def)
    have "set_bufcmds c [] v1 = v1" using k(2) by (cases v1) (auto simp: set_bufcmds_def cl1_def cl0_def fun_upd_idem)
    then show "run_cmds K c ms (set_bufcmds c [] (set_bufcmds c ?bs v1)) = Some (r, w')" using run(2) by simp
  qed (use t1 v(6) v1(2) Cons.prems(10) in \<open>simp_all add: talks_def cl1_def\<close>)
  finally show ?case .
qed

lemma run_cmds_append:
  "run_cmds K c xs w = Some (r, w1) \<Longrightarrow> 0 < r \<Longrightarrow> run_cmds K c (xs @ ys) w = run_cmds K c ys w1"
proof (induction xs arbitrary: w)
  case (Cons x xs)
  then show ?case by (cases x) (auto split: bind_splits if_splits)
qed simp

lemma run_cmds_Cons: "on_app_input K c m d w = Some (r, w1) \<Longrightarrow> 0 < r \<Longrightarrow> run_cmds K c ((m, d) # ms) w = run_cmds K c ms w1"
  by simp

lemma buffer_row:
  assumes "list_all plain_cmd ms" "\<And>n. os_realloc (k_os K) n" "i_heap w c = Some cl" "o_verbose (i_options w) \<le> 1" "c_begins cl \<noteq> 0"
    "c_nbufcmds cl = 0" "c_bufcmd_tail cl = Some (length (c_bufcmds cl))"
  shows "run_cmds K c ms w = Some (1, set_client c (cl\<lparr>c_bufcmds := c_bufcmds cl @ map to_bufcmd ms,
    c_bufcmd_tail := Some (length (c_bufcmds cl) + length ms)\<rparr>) w)"
  using assms(1,3-7)
proof (induction ms arbitrary: w cl)
  case Nil
  then have "cl\<lparr>c_bufcmds := c_bufcmds cl, c_bufcmd_tail := Some (length (c_bufcmds cl))\<rparr> = cl" by (cases cl) simp
  then show ?case using set_client_same [OF Nil(2)] by simp
next
  case (Cons x ms)
  obtain m d where x: "x = (m, d)" by (cases x)
  define cl1 where "cl1 = cl\<lparr>c_bufcmds := c_bufcmds cl @ [to_bufcmd x], c_bufcmd_tail := Some (length (c_bufcmds cl) + 1)\<rparr>"
  have "on_app_input K c m d w = Some (1, set_client c cl1 w)"
    using Cons.prems x assms(2) by (auto simp: on_app_input_eq log_input_def buffer_command_def plain_cmd_def MAX_BUFCMDS_def
      bufcmd_new_def bufcmd_append_def to_bufcmd_def cl1_def)
  then have "run_cmds K c (x # ms) w = run_cmds K c ms (set_client c cl1 w)" using run_cmds_Cons x by simp
  also have "\<dots> = Some (1, set_client c (cl1\<lparr>c_bufcmds := c_bufcmds cl1 @ map to_bufcmd ms,
      c_bufcmd_tail := Some (length (c_bufcmds cl1) + length ms)\<rparr>) (set_client c cl1 w))"
    using Cons.prems by (intro Cons.IH) (simp_all add: cl1_def set_client_def)
  finally show ?case by (simp add: cl1_def set_client_def)
qed

lemma input_session:
  "session K c cl kvs w \<Longrightarrow> length d < 65536 \<Longrightarrow> m \<noteq> MSG_EOF \<Longrightarrow> on_app_input K c m d w = command K c cl m d w"
  using input_command [of w c cl d K kvs m 1] by (simp add: session_def on_app_input_def numeral_2_eq_2)

lemma commit_row:
  assumes "session K c cl kvs w" "list_all plain_cmd ms" "run_cmds K c ms (set_client c (cl\<lparr>c_bufcmd_tail := t\<rparr>) w) = Some (r, w')" "0 < r"
  shows "on_app_input K c CMD_COMMIT [] (set_client c (cl\<lparr>c_begins := 1, c_bufcmds := map to_bufcmd ms, c_bufcmd_tail := t\<rparr>) w) = Some (1, w')"
proof -
  note se = assms(1) [unfolded session_def]
  define cl1 where "cl1 = cl\<lparr>c_bufcmds := map to_bufcmd ms, c_bufcmd_tail := t, c_begins := 0\<rparr>"
  define w1 where "w1 = set_client c cl1 w"
  have "set_bufcmds c [] w1 = set_client c (cl\<lparr>c_bufcmd_tail := t\<rparr>) w"
    using se by (cases cl) (simp add: w1_def cl1_def set_bufcmds_def set_client_def)
  then have run: "run_cmds K c ms (set_bufcmds c [] w1) = Some (r, w')" using assms(3) by simp
  have "clients_listen w1" using se by (auto simp: clients_listen_def w1_def cl1_def set_client_def talks_def)
  then have p: "playback (on_app_input_depth 1 K c) (length ms + 1) c w1 = Some (1, w')"
    using se assms(2,4) run by (intro playback_run [of w1 c cl1 ms K kvs r]) (simp_all add: w1_def cl1_def set_client_def talks_def)
  have "sub32 1 1 = 0" by (simp add: sub32_def)
  then show ?thesis using p se
    by (simp add: on_app_input_eq log_input_def buffer_command_def Let_def set_client_def cl1_def w1_def CMD_BEGIN_def CMD_COMMIT_def MSG_EOF_def
      del: playback.simps)
qed

lemmas cmd_simps = CMD_HELLO_def CMD_SUB_def CMD_UNSUB_def CMD_READ_def CMD_WRITE_def CMD_PING_def CMD_BEGIN_def CMD_COMMIT_def MSG_EOF_def

lemma write_session:
  assumes "session K c cl kvs w" "length data < 65536" "\<not> put_may_fail (k_os K) (the_store w) data"
  obtains s where "store_holds s (kv_write data kvs)" "on_app_input K c CMD_WRITE data w =
    Some (1, if write_changes data kvs then notify_each K data (map (\<lambda>c. the (i_heap w c)) (all_clients w)) (w\<lparr>the_store := s\<rparr>) else w\<lparr>the_store := s\<rparr>)"
proof -
  note se = assms(1) [unfolded session_def]
  have "on_app_input K c CMD_WRITE data w = app_write K c data w"
    using input_session [OF assms(1,2), of CMD_WRITE] se app_write_command [of w c cl data K kvs] assms(2) by (simp add: command_def cmd_simps)
  then show thesis using app_write_eq [of K w kvs data c cl] se assms(2,3) that by auto
qed

lemma read_session:
  assumes "session K c cl kvs w" "length key < 65536" "\<not> has_nul key"
  shows "on_app_input K c CMD_READ key w = Some (reply K cl MSG_INFO (case kv_map kvs key of Some kv \<Rightarrow> kv | None \<Rightarrow> key) w)"
proof -
  note se = assms(1) [unfolded session_def]
  have "store_get_kv (the_store w) key = Some (kv_map kvs key)" using store_get_holds [of "the_store w" kvs key] se assms(3) by (simp add: cstr_id)
  then show ?thesis using input_session [OF assms(1,2), of CMD_READ] assms(3) by (simp add: command_def cmd_simps)
qed

subsection \<open>Properties\<close>

lemma sample_session: "session sample_kernel 0 (sample_client 5 []) [] sample_infod"
  using sample_holds good_os_sane
  by (auto simp: session_def sample_infod_def sample_client_def sample_kernel_def clients_listen_def talks_def fresh_proto_def)

lemma sample_put: "\<not> put_may_fail (k_os sample_kernel) (the_store sample_infod) [107, 0, 118]"
proof -
  have "info_size (Suc (Suc (Suc 0))) = 8" by code_simp
  then show ?thesis by (simp add: put_may_fail_def alloc_may_fail_def sample_kernel_def sample_infod_def sample_store_def) (simp add: good_os_def)
qed

text \<open>
  C6: A transaction is atomic.  Between \<^verbatim>\<open>BEGIN\<close> and \<^verbatim>\<open>COMMIT\<close> the commands of a client change nothing but
  its own record, nothing is written to any socket, and \<^verbatim>\<open>COMMIT\<close> then does exactly what the
  commands do one after the other outside of a transaction, from a record that differs only in the tail pointer of the
  empty list of buffered commands.
\<close>

theorem transaction_atomic:
  assumes "session K c cl kvs w" "\<And>n. os_realloc (k_os K) n" "list_all plain_cmd ms"
    "run_cmds K c ms (set_client c (cl\<lparr>c_bufcmd_tail := Some (length ms)\<rparr>) w) = Some (r, w')" "0 < r"
  shows "(\<exists>cl'. run_cmds K c ((CMD_BEGIN, []) # ms) w = Some (1, set_client c cl' w)) \<and>
    run_cmds K c ((CMD_BEGIN, []) # ms @ [(CMD_COMMIT, [])]) w = Some (1, w')"
proof -
  note se = assms(1) [unfolded session_def]
  define cl1 where "cl1 = cl\<lparr>c_bufcmd_tail := Some 0, c_begins := 1\<rparr>"
  define cl2 where "cl2 = cl\<lparr>c_begins := 1, c_bufcmds := map to_bufcmd ms, c_bufcmd_tail := Some (length ms)\<rparr>"
  have b: "on_app_input K c CMD_BEGIN [] w = Some (1, set_client c cl1 w)"
    using input_session [OF assms(1), of "[]" CMD_BEGIN] se
    by (simp add: command_def app_begin_def cl1_def cmd_simps)
  have "run_cmds K c ms (set_client c cl1 w) = Some (1, set_client c cl2 w)"
    using se buffer_row [OF assms(3,2), of "set_client c cl1 w" c cl1] by (cases cl) (simp add: cl1_def cl2_def set_client_def)
  then have 1: "run_cmds K c ((CMD_BEGIN, []) # ms) w = Some (1, set_client c cl2 w)" using run_cmds_Cons [OF b] by simp
  have "on_app_input K c CMD_COMMIT [] (set_client c cl2 w) = Some (1, w')"
    unfolding cl2_def using commit_row [OF assms(1,3,4,5)] .
  then show ?thesis using 1 run_cmds_append [OF 1, of "[(CMD_COMMIT, [])]"] by auto
qed

theorem transaction_atomic_witness:
  "\<exists>w'. run_cmds sample_kernel 0 [(CMD_BEGIN, []), (CMD_PING, [65]), (CMD_COMMIT, [])] sample_infod = Some (1, w') \<and>
    written (events w') = [(5, [MSG_PONG, 0, 1, 65])]"
proof -
  define cl where "cl = (sample_client 5 [])\<lparr>c_bufcmd_tail := Some 1\<rparr>"
  define w where "w = set_client 0 cl sample_infod"
  have "session sample_kernel 0 cl [] w" using sample_session
    by (auto simp: session_def cl_def w_def set_client_def talks_def clients_listen_def sample_infod_def)
  from input_session [OF this, of "[65]" CMD_PING] have "run_cmds sample_kernel 0 [(CMD_PING, [65])] w = Some (1, snd (reply sample_kernel cl MSG_PONG [65] w))"
    by (simp add: command_def reply_def sample_kernel_def sys_writev_def Let_def cl_def sample_client_def wire_msg_def enc_packet_def cmd_simps)
  moreover have "written (events (snd (reply sample_kernel cl MSG_PONG [65] w))) = [(5, [MSG_PONG, 0, 1, 65])]"
    by (simp add: reply_def sample_kernel_def sys_writev_def Let_def cl_def sample_client_def wire_msg_def enc_packet_def w_def set_client_def sample_infod_def)
  moreover have "list_all plain_cmd [(CMD_PING, [65])]" by (simp add: plain_cmd_def cmd_simps)
  moreover have "\<And>n. os_realloc (k_os sample_kernel) n" by (simp add: sample_kernel_def)
  ultimately show ?thesis using transaction_atomic [OF sample_session, of "[(CMD_PING, [65])]" 1 "snd (reply sample_kernel cl MSG_PONG [65] w)"]
    by (auto simp: w_def cl_def simp del: run_cmds.simps)
qed

text \<open>
  C5: A \<^verbatim>\<open>WRITE\<close> changes exactly its key in the store, and when that is a change, every subscription of every
  client whose pattern matches the key gets an \<^verbatim>\<open>INFO\<close> message with the new keyvalue; nothing else
  is written and no record changes.
\<close>

theorem write_notifies:
  assumes "session K c cl kvs w" "length data < 65536" "\<not> put_may_fail (k_os K) (the_store w) data"
    "\<And>ev fd bs. k_writev K ev fd bs \<noteq> -1" "\<forall>c\<in>set (all_clients w). p_on_sendv (c_proto (the (i_heap w c))) = Set"
  shows "\<exists>w'. on_app_input K c CMD_WRITE data w = Some (1, w') \<and> store_holds (the_store w') (kv_write data kvs) \<and> i_heap w' = i_heap w \<and>
    written (events w') = written (events w) @ (if write_changes data kvs then notices data w else [])"
proof -
  obtain s where s: "store_holds s (kv_write data kvs)" "on_app_input K c CMD_WRITE data w =
    Some (1, if write_changes data kvs then notify_each K data (map (\<lambda>c. the (i_heap w c)) (all_clients w)) (w\<lparr>the_store := s\<rparr>) else w\<lparr>the_store := s\<rparr>)"
    using write_session [OF assms(1-3)] .
  let ?cls = "map (\<lambda>c. the (i_heap w c)) (all_clients w)"
  have "written (events (notify_each K data ?cls (w\<lparr>the_store := s\<rparr>))) = written (events w) @ notices data w"
    using written_each [OF _ assms(4), of ?cls data "w\<lparr>the_store := s\<rparr>"] assms(5) by (simp add: notices_def)
  then show ?thesis using s output_only_simps(1,2) [OF output_only_each [of "w\<lparr>the_store := s\<rparr>" K data ?cls]] by auto
qed

theorem write_notifies_witness:
  "\<exists>w'. on_app_input sample_kernel 0 CMD_WRITE [107, 0, 118] sample_infod = Some (1, w') \<and>
    store_holds (the_store w') [[107, 0, 118]] \<and> written (events w') = [(6, [MSG_INFO, 0, 3, 107, 0, 118])]"
proof -
  have "\<forall>c\<in>set (all_clients sample_infod). p_on_sendv (c_proto (the (i_heap sample_infod c))) = Set"
    by (simp add: sample_infod_def sample_client_def)
  moreover have "k_writev sample_kernel ev fd bs \<noteq> -1" for ev fd bs by (simp add: sample_kernel_def)
  ultimately have "\<exists>w'. on_app_input sample_kernel 0 CMD_WRITE [107, 0, 118] sample_infod = Some (1, w') \<and>
      store_holds (the_store w') (kv_write [107, 0, 118] []) \<and> i_heap w' = i_heap sample_infod \<and> written (events w') =
      written (events sample_infod) @ (if write_changes [107, 0, 118] [] then notices [107, 0, 118] sample_infod else [])"
    using sample_put by (intro write_notifies [OF sample_session]) simp_all
  moreover have "kv_write [107, 0, 118] [] = [[107, 0, 118]]" "write_changes [107, 0, 118] []" by (simp_all add: kv_write_def write_changes_def is_ephemeral_def kv_put_def kv_pos_def)
  moreover have "match [107] [107] \<noteq> 0" by code_simp
  then have "notices [107, 0, 118] sample_infod = [(6, [MSG_INFO, 0, 3, 107, 0, 118])]"
    by (simp add: notices_def sample_infod_def sample_client_def wire_msg_def enc_packet_def)
  ultimately show ?thesis by (auto simp: sample_infod_def)
qed

text \<open>
  C15: A \<^verbatim>\<open>SUB\<close> with a valid pattern records the subscription and answers with the current keyvalues whose keys
  match, each once and in the order of the keys.
\<close>

theorem sub_sends_matching:
  assumes "session K c cl kvs w" "length (c_subs cl) \<le> MAX_SUBS" "length pattern < 65536" "\<not> has_nul pattern" "match_isvalid pattern"
    "os_realloc (k_os K) (24 + length pattern + 1)" "\<And>ev fd bs. k_writev K ev fd bs \<noteq> -1" "p_on_sendv (c_proto cl) = Set"
  shows "\<exists>w'. on_app_input K c CMD_SUB pattern w = Some (1, w') \<and> the_store w' = the_store w \<and>
    i_heap w' = (i_heap w)(c := Some (cl\<lparr>c_subs := pattern # c_subs cl, c_nsubs := c_nsubs cl + 1\<rparr>)) \<and>
    written (events w') = written (events w) @
      map (\<lambda>kv. (c_fd cl, wire_msg (p_mode (c_proto cl)) MSG_INFO kv)) (filter (\<lambda>kv. match pattern (cstr kv) \<noteq> 0) kvs)"
proof -
  note se = assms(1) [unfolded session_def]
  let ?cl = "cl\<lparr>c_subs := pattern # c_subs cl, c_nsubs := c_nsubs cl + 1\<rparr>"
  let ?x = "send_infos K ?cl (filter (\<lambda>kv. match pattern (cstr kv) \<noteq> 0) kvs) (set_client c ?cl w)"
  have "app_sub K c pattern w = Some ?x" using app_sub_infos [of w c cl kvs pattern K] se assms(2,4-6) by simp
  then have 1: "on_app_input K c CMD_SUB pattern w = Some ?x"
    using input_session [OF assms(1,3), of CMD_SUB] app_sub_eq [of w c cl kvs K pattern] se by (simp add: command_def cmd_simps)
  have "p_on_sendv (c_proto ?cl) = Set" using assms(8) by simp
  from written_infos [OF this assms(7)] have 2: "fst ?x = 1" "written (events (snd ?x)) = written (events w) @
      map (\<lambda>kv. (c_fd cl, wire_msg (p_mode (c_proto cl)) MSG_INFO kv)) (filter (\<lambda>kv. match pattern (cstr kv) \<noteq> 0) kvs)"
    by (simp_all add: set_client_def)
  then show ?thesis using 1 output_only_simps(1,2) [OF output_only_infos [of "set_client c ?cl w" K ?cl]]
    by (intro exI [of _ "snd ?x"]) (simp add: set_client_def prod_eq_iff)
qed

theorem sub_sends_matching_witness:
  "\<exists>w'. on_app_input sample_kernel 0 CMD_SUB [107] sample_infod = Some (1, w') \<and> written (events w') = []"
proof -
  have "match_isvalid [107]" by code_simp
  then have "\<exists>w'. on_app_input sample_kernel 0 CMD_SUB [107] sample_infod = Some (1, w') \<and> the_store w' = the_store sample_infod \<and>
    i_heap w' = (i_heap sample_infod)(0 := Some ((sample_client 5 [])\<lparr>c_subs := [107] # c_subs (sample_client 5 []), c_nsubs := c_nsubs (sample_client 5 []) + 1\<rparr>)) \<and>
    written (events w') = written (events sample_infod) @ map (\<lambda>kv. (c_fd (sample_client 5 []), wire_msg (p_mode (c_proto (sample_client 5 []))) MSG_INFO kv))
      (filter (\<lambda>kv. match [107] (cstr kv) \<noteq> 0) [])"
    by (intro sub_sends_matching [OF sample_session]) (simp_all add: sample_client_def sample_kernel_def)
  then show ?thesis by (auto simp: sample_infod_def)
qed

text \<open>
  C20: What a client has written is what every client reads: a \<^verbatim>\<open>READ\<close> of the key after a \<^verbatim>\<open>WRITE\<close> is answered with
  the keyvalue written.
\<close>

theorem read_after_write:
  assumes "session K c cl kvs w" "session K d dl kvs w" "length data < 65536" "\<not> put_may_fail (k_os K) (the_store w) data"
    "has_nul data" "\<not> is_ephemeral data" "p_on_sendv (c_proto dl) = Set"
  shows "\<exists>w1 r w2. on_app_input K c CMD_WRITE data w = Some (1, w1) \<and> on_app_input K d CMD_READ (cstr data) w1 = Some (r, w2) \<and>
    written (events w2) = written (events w1) @ [(c_fd dl, wire_msg (p_mode (c_proto dl)) MSG_INFO data)]"
proof -
  obtain s where s: "store_holds s (kv_write data kvs)" "on_app_input K c CMD_WRITE data w =
    Some (1, if write_changes data kvs then notify_each K data (map (\<lambda>c. the (i_heap w c)) (all_clients w)) (w\<lparr>the_store := s\<rparr>) else w\<lparr>the_store := s\<rparr>)"
    using write_session [OF assms(1,3,4)] .
  define w1 where "w1 = (if write_changes data kvs then notify_each K data (map (\<lambda>c. the (i_heap w c)) (all_clients w)) (w\<lparr>the_store := s\<rparr>) else w\<lparr>the_store := s\<rparr>)"
  have "output_only (w\<lparr>the_store := s\<rparr>) w1" using output_only_each by (simp add: w1_def)
  from output_only_simps [OF this] have 1: "session K d dl (kv_write data kvs) w1" using assms(2) s(1) by (auto simp: session_def clients_listen_def)
  have "kvs_ok kvs" using assms(1) store_holds_ok by (auto simp: session_def)
  then have "kv_map (kv_write data kvs) (cstr data) = Some data" using assms(5,6) kv_map_put by (simp add: kv_write_def)
  moreover have "length (cstr data) < 65536" "\<not> has_nul (cstr data)" using length_cstr_le [of data] assms(3) cstr_no_nul by auto
  ultimately have "on_app_input K d CMD_READ (cstr data) w1 = Some (reply K dl MSG_INFO data w1)" using read_session [OF 1] by simp
  then show ?thesis using s(2) [folded w1_def] written_reply [OF assms(7), of K MSG_INFO data w1]
    by (intro exI [of _ w1] exI [of _ "fst (reply K dl MSG_INFO data w1)"] exI [of _ "snd (reply K dl MSG_INFO data w1)"]) simp
qed

theorem read_after_write_witness:
  "\<exists>w1 r w2. on_app_input sample_kernel 0 CMD_WRITE [107, 0, 118] sample_infod = Some (1, w1) \<and>
    on_app_input sample_kernel 0 CMD_READ (cstr [107, 0, 118]) w1 = Some (r, w2) \<and>
    written (events w2) = written (events w1) @ [(5, [MSG_INFO, 0, 3, 107, 0, 118])]"
proof -
  show ?thesis using sample_put read_after_write [OF sample_session sample_session, of "[107, 0, 118]"]
    by (simp add: is_ephemeral_def sample_client_def wire_msg_def enc_packet_def)
qed

end
