(* ===== verification/Infod_Main.thy ===== *)
theory Infod_Main
  imports Infod
begin

text \<open>
  The start and the main loop of the daemon, the rest of \<^verbatim>\<open>src/daemon/infod.c\<close>.  The results of
  \<^verbatim>\<open>getopt\<close> are a list of option letters with their arguments, the outcome of \<^verbatim>\<open>open\<close> and \<^verbatim>\<open>flock\<close>
  on the backing file and the arrival of a termination signal are parameters.  \<^verbatim>\<open>exit(n)\<close> is the
  value \<open>Inl n\<close>.
\<close>

subsection \<open>Listeners\<close>

type_synonym infod_server = "nat server"

definition add_unix_listener :: "kernel \<Rightarrow> infod_server \<Rightarrow> infod \<Rightarrow> ((int + infod_server) \<times> infod) option" where
  "add_unix_listener K sv w =
     (let (fd, w1) = sockunix_listen K w in do {
        (r, sv1, w2) \<leftarrow> server_add_listener K (infod_context K) fd (Some unix_listener) sv w1;
        if r = -1 then Some (Inl 1, log_perror K (lit ''unix listener'') w2) else Some (Inr sv1, w2)
      })"

definition stdin_listener :: listener where
  "stdin_listener = \<lparr>l_name = lit ''stdin'', l_peername = False\<rparr>"

definition add_stdin_listener :: "kernel \<Rightarrow> infod_server \<Rightarrow> infod \<Rightarrow> ((int + infod_server) \<times> infod) option" where
  "add_stdin_listener K sv w = do {
     (r, sv1, w1) \<leftarrow> server_add_fd K (infod_context K) 0 (Some stdin_listener) sv w;
     if r = -1 then Some (Inl 1, log_perror K (lit ''stdin listener'') w1) else Some (Inr sv1, w1)
   }"

definition tcp_listener :: listener where
  "tcp_listener = \<lparr>l_name = lit ''tcp'', l_peername = True\<rparr>"

text \<open>The loop over the addresses; \<open>cnt\<close> is the number of listeners added.\<close>

fun add_tcp_loop ::
  "kernel \<Rightarrow> (int \<times> bytes) list \<Rightarrow> nat \<Rightarrow> infod_server \<Rightarrow> infod \<Rightarrow> (nat \<times> infod_server \<times> infod) option" where
  "add_tcp_loop K [] cnt sv w = Some (cnt, sv, w)"
| "add_tcp_loop K ((family, addr) # ais) cnt sv w =
     (let (fd, w1) = sys_socket K family w in
      if fd = -1 then add_tcp_loop K ais cnt sv (log_msgf (lit ''socket: '' @ strerror K w1) w1)
      else
        let w2 = (if family = AF_INET6 then
                    let (r, w') = sys_setsockopt K fd w1 in
                    if r = -1 then log_msgf (lit ''IPV6_V6ONLY: '' @ strerror K w') w' else w'
                  else w1);
            (rb, w3) = sys_bind K fd addr w2 in
        if rb = -1 then add_tcp_loop K ais cnt sv (snd (sys_close K fd (log_msgf (lit ''bind: '' @ strerror K w3) w3)))
        else let (rl, w4) = sys_listen K fd w3 in
          if rl = -1 then add_tcp_loop K ais cnt sv (snd (sys_close K fd (log_msgf (lit ''listen: '' @ strerror K w4) w4)))
          else do {
            (r, sv1, w5) \<leftarrow> server_add_listener K (infod_context K) fd (Some tcp_listener) sv w4;
            if r = -1 then add_tcp_loop K ais cnt sv1 (snd (sys_close K fd (log_perror K (lit ''tcp listener'') w5)))
            else add_tcp_loop K ais (cnt + 1) sv1 w5
          })"

definition add_tcp_listeners :: "kernel \<Rightarrow> infod_server \<Rightarrow> infod \<Rightarrow> ((int + infod_server) \<times> infod) option" where
  "add_tcp_listeners K sv w =
     (case tcp_server_addrinfo K (o_port (i_options w)) w of
        Inl err \<Rightarrow> Some (Inl 1, log_msgf (lit ''tcp_server_addrinfo: '' @ err) w)
      | Inr ais \<Rightarrow> do {
          (cnt, sv1, w1) \<leftarrow> add_tcp_loop K ais 0 sv w;
          Some (if cnt = 0 then Inl 1 else Inr sv1, w1)
        })"

subsection \<open>Options\<close>

text \<open>One result of \<^verbatim>\<open>getopt\<close>; the error code is 2 after a bad option.\<close>

definition parse_option :: "byte \<times> bytes \<Rightarrow> options \<times> int \<Rightarrow> options \<times> int" where
  "parse_option = (\<lambda>(ch, optarg) (opts, error).
     if ch = of_char CHR ''f'' then (opts\<lparr>o_store_path := optarg\<rparr>, error)
     else if ch = of_char CHR ''s'' then (opts\<lparr>o_syslog := True\<rparr>, error)
     else if ch = of_char CHR ''p'' then (opts\<lparr>o_port := Some optarg\<rparr>, error)
     else if ch = of_char CHR ''i'' then (opts\<lparr>o_stdin := True\<rparr>, error)
     else if ch = of_char CHR ''v'' then (opts\<lparr>o_verbose := (o_verbose opts + 1) mod 256\<rparr>, error)
     else if ch = of_char CHR ''?'' then (opts, 2)
     else (opts, error))"

definition usage :: "bytes \<Rightarrow> bytes" where
  "usage argv0 = lit ''usage: '' @ argv0 @ lit '' [-siv] [-p port]'' @ lit '' [-f db]'' @ [10]"

subsection \<open>The main loop\<close>

partial_function (option) main_loop ::
  "kernel \<Rightarrow> (event list \<Rightarrow> bool) \<Rightarrow> infod_server \<Rightarrow> infod \<Rightarrow> (int \<times> infod_server \<times> infod) option" where
  [code]: "main_loop K terminated sv w =
     Option.bind (server_poll K (infod_context K) sv w) (\<lambda>(ret, sv1, w1).
       if ret \<le> 0 \<or> terminated (events w1) then Some (ret, sv1, w1)
       else main_loop K terminated sv1 w1)"

text \<open>What follows the loop: the farewell, \<^verbatim>\<open>server_free\<close> and the exit status.\<close>

definition main_end ::
  "kernel \<Rightarrow> (event list \<Rightarrow> bool) \<Rightarrow> int \<Rightarrow> infod_server \<Rightarrow> infod \<Rightarrow> (int \<times> infod) option" where
  "main_end K terminated ret sv w = do {
     let verbose = (o_verbose (i_options w) \<noteq> 0);
     let term = terminated (events w);
     w1 \<leftarrow> (if ret = 0 \<and> verbose then on_net_error w (lit ''no listeners!'') else Some w);
     let w2 = (if \<not> term \<or> verbose then log_msg (lit ''terminating'') w1 else w1);
     w3 \<leftarrow> server_free K (infod_context K) sv w2;
     Some (if term then 1 else 0, w3)
   }"

definition main_listeners :: "kernel \<Rightarrow> infod_server \<Rightarrow> infod \<Rightarrow> ((int + infod_server) \<times> infod) option" where
  "main_listeners K sv w = do {
     (r1, w1) \<leftarrow> (if o_stdin (i_options w) then add_stdin_listener K sv w else Some (Inr sv, w));
     case r1 of
       Inl n \<Rightarrow> Some (Inl n, w1)
     | Inr sv1 \<Rightarrow> do {
         (r2, w2) \<leftarrow> add_tcp_listeners K sv1 w1;
         case r2 of
           Inl n \<Rightarrow> Some (Inl n, w2)
         | Inr sv2 \<Rightarrow> add_unix_listener K sv2 w2
       }
   }"

text \<open>
  \<^verbatim>\<open>main\<close>: the exit status and the final state.  \<open>opened\<close> and \<open>locked\<close> are the outcome of \<^verbatim>\<open>open\<close>
  and \<^verbatim>\<open>flock\<close> on the store path; \<^verbatim>\<open>signal\<close> is taken to succeed.
\<close>

definition main ::
  "kernel \<Rightarrow> (event list \<Rightarrow> bool) \<Rightarrow> nat \<Rightarrow> bytes \<Rightarrow> bytes \<Rightarrow> (byte \<times> bytes) list \<Rightarrow> bool \<Rightarrow>
   (bytes \<Rightarrow> (int \<times> bytes) option) \<Rightarrow> bool \<Rightarrow> (int \<times> infod) option" where
  "main K terminated pgsz default_path argv0 opts excess opened locked = do {
     let (options, error0) = fold parse_option opts
       (\<lparr>o_verbose = 0, o_stdin = False, o_port = None, o_syslog = False, o_store_path = default_path\<rparr>, 0);
     let error = (if excess then 2 else error0);
     let w = (\<lambda>s. \<lparr>events = [], i_options = options, the_store = s, i_heap = (\<lambda>_. None), i_brk = 1, all_clients = []\<rparr>);
     let no_store = \<lparr>mem = [], filesz = 0, pagesize = pgsz, space = 0, index = [], idx_max = 0\<rparr>;
     if error \<noteq> 0 then Some (error, emit (Stderr (usage argv0)) (w no_store))
     else do {
       (st, closed) \<leftarrow> store_open (k_os K) pgsz (Some (o_store_path options)) (opened (o_store_path options)) locked;
       case st of
         None \<Rightarrow> Some (1, log_msgf (lit ''store_open: '' @ o_store_path options @ lit '': '' @ strerror K (w no_store)) (w no_store))
       | Some (store_fd, s) \<Rightarrow>
           (case server_new K of
              None \<Rightarrow> Some (1, log_perror K (lit ''server_new'') (w s))
            | Some sv \<Rightarrow> do {
                (r, w1) \<leftarrow> main_listeners K sv (w s);
                case r of
                  Inl n \<Rightarrow> Some (n, w1)
                | Inr sv1 \<Rightarrow> do {
                    (ret, sv2, w2) \<leftarrow> main_loop K terminated sv1 w1;
                    (status, w3) \<leftarrow> main_end K terminated ret sv2 w2;
                    Some (status, fold (\<lambda>fd. emit (Close fd)) (store_close store_fd) w3)
                  }
              })
     }
   }"

end
