(* ===== verification/Server_Safe.thy ===== *)
theory Server_Safe
  imports Server "HOL-Library.Multiset"
begin

text \<open>
  The socket table of the server: its invariant, and that a round of \<^verbatim>\<open>server_poll\<close> ends without a fault for
  every behaviour of the network, provided that the upcalls keep their side of the contract \<open>server_app\<close>.
\<close>

subsection \<open>Definitions\<close>

definition server_ok :: "'c server \<Rightarrow> bool" where
  "server_ok sv \<longleftrightarrow> sv_n sv \<le> sv_nmax sv \<and> sv_nmax sv \<le> length (sv_socket sv) \<and> sv_nmax sv \<le> length (sv_pollfd sv) \<and>
     INCREMENT dvd sv_nmax sv \<and> sv_nmax sv < 2 ^ 32"

text \<open>The live part of the table: sockets with their descriptors, and the contexts of the connections with theirs.\<close>

definition live :: "'c server \<Rightarrow> ('c server_socket \<times> pollfd) list" where
  "live sv = zip (take (sv_n sv) (sv_socket sv)) (take (sv_n sv) (sv_pollfd sv))"

definition conn_data :: "('c server_socket \<times> pollfd) list \<Rightarrow> ('c option \<times> int) multiset" where
  "conn_data es = mset (map (\<lambda>(s, p). (ss_data s, pfd_fd p)) (filter (\<lambda>(s, p). \<not> ss_is_listener s) es))"

definition live_fds :: "('c server_socket \<times> pollfd) list \<Rightarrow> int list" where
  "live_fds es = map (pfd_fd \<circ> snd) es"

definition pending :: "('c server_socket \<times> pollfd) list \<Rightarrow> nat" where
  "pending es = length (filter (\<lambda>(s, p). pfd_revents p \<noteq> 0) es)"

text \<open>The descriptors that are open after a history of system calls.\<close>

definition open_fds :: "event list \<Rightarrow> int set" where
  "open_fds ev = fold (\<lambda>e S. case e of Accept l r \<Rightarrow> insert r S | Socket f r \<Rightarrow> insert r S | Close fd \<Rightarrow> S - {fd} | _ \<Rightarrow> S) ev {0, 1, 2}"

text \<open>The number of bytes read from a descriptor since it was accepted.\<close>

definition received :: "event list \<Rightarrow> int \<Rightarrow> nat" where
  "received ev fd = fold (\<lambda>e n. case e of Accept l r \<Rightarrow> if r = fd then 0 else n
     | Read r (Some bs) \<Rightarrow> if r = fd then n + length bs else n | _ \<Rightarrow> n) ev 0"

text \<open>A continuation of the history that opens and closes nothing, and reads only from \<open>fds\<close>.\<close>

fun harmless :: "int set \<Rightarrow> event \<Rightarrow> bool" where
  "harmless fds (Close fd) = False"
| "harmless fds (Accept l r) = False"
| "harmless fds (Socket f r) = False"
| "harmless fds (Read fd bs) = (fd \<in> fds)"
| "harmless fds e = True"

definition continues :: "int set \<Rightarrow> event list \<Rightarrow> event list \<Rightarrow> bool" where
  "continues fds ev ev' \<longleftrightarrow> (\<exists>es. ev' = ev @ es \<and> list_all (harmless fds) es)"

text \<open>\<^verbatim>\<open>accept\<close> returns a descriptor that was not open, below the limit of the system.\<close>

definition OPEN_MAX :: int where
  "OPEN_MAX = 2 ^ 20"

definition fresh_accept :: "kernel \<Rightarrow> bool" where
  "fresh_accept K \<longleftrightarrow> (\<forall>ev l. k_accept K ev l = -1 \<or> (k_accept K ev l \<notin> open_fds ev \<and> 0 \<le> k_accept K ev l \<and> k_accept K ev l < OPEN_MAX))"

definition fds_ok :: "('c server_socket \<times> pollfd) list \<Rightarrow> event list \<Rightarrow> bool" where
  "fds_ok es ev \<longleftrightarrow> distinct (live_fds es) \<and> (\<forall>fd\<in>set (live_fds es). 0 \<le> fd \<and> fd < OPEN_MAX \<and> fd \<in> open_fds ev)"

subsection \<open>The table\<close>

lemma length_live: "server_ok sv \<Longrightarrow> length (live sv) = sv_n sv"
  by (simp add: server_ok_def live_def)

lemma live_nth: "server_ok sv \<Longrightarrow> i < sv_n sv \<Longrightarrow> live sv ! i = (sv_socket sv ! i, sv_pollfd sv ! i)"
  by (simp add: server_ok_def live_def)

lemma server_bounds: "server_ok sv \<Longrightarrow> i < sv_n sv \<Longrightarrow> i < length (sv_socket sv) \<and> i < length (sv_pollfd sv)"
  by (auto simp: server_ok_def)

lemma roundup_increment:
  assumes "n = (if n0 mod INCREMENT \<noteq> 0 then n0 + (INCREMENT - n0 mod INCREMENT) else n0)"
  shows "n0 \<le> n" "INCREMENT dvd n" "n < n0 + 16"
proof -
  have "n0 + (16 - n0 mod 16) = 16 * (n0 div 16) + 16" by (metis add.assoc le_add_diff_inverse mod_less_divisor less_imp_le mult_div_mod_eq zero_less_numeral)
  then show "n0 \<le> n" "INCREMENT dvd n" using assms by (auto simp: INCREMENT_def mod_eq_0_iff_dvd)
  show "n < n0 + 16" using assms by (auto simp: INCREMENT_def split: if_splits)
qed

lemma length_realloc [simp]: "length (realloc_array z n xs) = n"
  by (simp add: realloc_array_def)

lemma take_realloc: "k \<le> n \<Longrightarrow> k \<le> length xs \<Longrightarrow> take k (realloc_array z n xs) = take k xs"
  by (simp add: realloc_array_def)

lemma no_hysteresis:
  assumes "INCREMENT dvd m" "INCREMENT dvd n" "m < 2 ^ 32" "n < 2 ^ 32"
  shows "sub32 m 1 \<noteq> n"
proof
  assume "sub32 m 1 = n"
  then have "m = (n + 1) mod 2 ^ 32" using assms(3) by (auto simp: sub32_def mod_simps)
  then have "m mod 16 = (n + 1) mod 16" by (simp add: mod_mod_cancel)
  moreover have "m mod 16 = 0" "(n + 1) mod 16 = 1" using assms(1,2) by (auto simp: INCREMENT_def mod_Suc)
  ultimately show False by simp
qed

lemma resize_ok:
  assumes "server_ok sv" "sv_n sv \<le> n0" "n0 < 2 ^ 32 - 16" "P w" "\<And>msg. \<exists>w'. server_on_error ctx w msg = Some (-1, w') \<and> P w'"
  shows "\<exists>r sv' w'. server_resize K ctx n0 sv w = Some (r, sv', w') \<and> server_ok sv' \<and> sv_n sv' = sv_n sv \<and> live sv' = live sv \<and>
    (r \<noteq> -1 \<longrightarrow> n0 \<le> sv_nmax sv') \<and> P w'"
proof -
  define n where "n = (if n0 mod INCREMENT \<noteq> 0 then n0 + (INCREMENT - n0 mod INCREMENT) else n0)"
  have n: "n0 \<le> n" "INCREMENT dvd n" "n < 2 ^ 32" using roundup_increment [OF n_def] assms(3) by auto
  have ok: "sv_n sv \<le> sv_nmax sv" "sv_nmax sv \<le> length (sv_socket sv)" "sv_nmax sv \<le> length (sv_pollfd sv)"
    "INCREMENT dvd sv_nmax sv" "sv_nmax sv < 2 ^ 32" using assms(1) by (auto simp: server_ok_def)
  define sv1 where "sv1 = (if n < sv_nmax sv then sv\<lparr>sv_nmax := n\<rparr> else sv)"
  define z :: "'a server_socket" where "z = \<lparr>ss_data = None, ss_listener = None, ss_is_listener = False\<rparr>"
  define zp where "zp = \<lparr>pfd_fd = 0, pfd_events = 0, pfd_revents = 0\<rparr>"
  define sv2 where "sv2 = sv1\<lparr>sv_socket := realloc_array z n (sv_socket sv1)\<rparr>"
  define sv3 where "sv3 = sv2\<lparr>sv_pollfd := realloc_array zp n (sv_pollfd sv2), sv_nmax := n\<rparr>"
  have keep: "sv_n sv \<le> n" using assms(2) n(1) by simp
  have 1: "server_ok sv1" "sv_n sv1 = sv_n sv" "live sv1 = live sv"
    using ok keep n by (auto simp: sv1_def server_ok_def live_def)
  have 2: "server_ok sv2" "sv_n sv2 = sv_n sv" "live sv2 = live sv"
    using ok keep n by (auto simp: sv2_def sv1_def server_ok_def live_def take_realloc split: if_splits)
  have 3: "server_ok sv3" "sv_n sv3 = sv_n sv" "live sv3 = live sv" "n0 \<le> sv_nmax sv3"
    using ok keep n by (auto simp: sv3_def sv2_def sv1_def server_ok_def live_def take_realloc split: if_splits)
  obtain w1 where w1: "server_on_error ctx w (lit ''realloc '' @ dec (n * 24) @ lit '': '' @ strerror K w) = Some (-1, w1)" "P w1" using assms(5) by blast
  obtain w2 where w2: "server_on_error ctx w (lit ''realloc '' @ dec (n * 8) @ lit '': '' @ strerror K w) = Some (-1, w2)" "P w2" using assms(5) by blast
  have "server_resize K ctx n0 sv w = (if sv_nmax sv = n \<or> sub32 (sv_nmax sv) 1 = n then Some (0, sv, w)
      else if n \<noteq> 0 \<and> \<not> os_realloc (k_os K) (n * 24) then Some (-1, sv1, w1)
      else if n \<noteq> 0 \<and> \<not> os_realloc (k_os K) (n * 8) then Some (-1, sv2, w2)
      else Some (0, sv3, w))"
    using assms(2) w1(1) w2(1) unfolding server_resize_def n_def [symmetric] Let_def sv1_def [symmetric] z_def [symmetric] sv2_def [symmetric] zp_def [symmetric] sv3_def [symmetric]
    by simp
  moreover have "sub32 (sv_nmax sv) 1 \<noteq> n" using no_hysteresis ok n by blast
  ultimately show ?thesis using assms(1,4) w1(2) w2(2) 1 2 3 n(1) by auto
qed

subsection \<open>Enabling and disabling the listeners\<close>

text \<open>Only the events of listeners change, and their pending events only to 0.\<close>

definition calmer :: "'c server_socket \<times> pollfd \<Rightarrow> 'c server_socket \<times> pollfd \<Rightarrow> bool" where
  "calmer e e' \<longleftrightarrow> fst e' = fst e \<and> pfd_fd (snd e') = pfd_fd (snd e) \<and>
     (pfd_revents (snd e') = pfd_revents (snd e) \<or> pfd_revents (snd e') = 0)"

definition quieter :: "('c server_socket \<times> pollfd) list \<Rightarrow> ('c server_socket \<times> pollfd) list \<Rightarrow> bool" where
  "quieter = list_all2 calmer"

lemma quieter_refl [simp]: "quieter es es"
  by (simp add: quieter_def list_all2_refl calmer_def)

lemma quieter_trans: "quieter a b \<Longrightarrow> quieter b c \<Longrightarrow> quieter a c"
  unfolding quieter_def by (rule list_all2_trans) (auto simp: calmer_def)

lemma quieter_conn: "quieter es es' \<Longrightarrow> conn_data es' = conn_data es \<and> live_fds es' = live_fds es \<and> length es' = length es \<and> map fst es' = map fst es"
  unfolding quieter_def by (induction es es' rule: list_all2_induct) (auto simp: calmer_def conn_data_def live_fds_def)

lemma quieter_pending: "quieter es es' \<Longrightarrow> pending es' \<le> pending es"
  unfolding quieter_def by (induction es es' rule: list_all2_induct) (auto simp: calmer_def pending_def)

lemma quieter_drop: "quieter es es' \<Longrightarrow> quieter (drop i es) (drop i es')"
  by (auto simp: quieter_def)

lemma conn_data_zip:
  "conn_data es = mset (map (\<lambda>(s, fd). (ss_data s, fd)) (filter (\<lambda>(s, fd). \<not> ss_is_listener s) (zip (map fst es) (live_fds es))))"
  by (induction es) (auto simp: conn_data_def live_fds_def)

lemma same_conn: "map fst es' = map fst es \<Longrightarrow> live_fds es' = live_fds es \<Longrightarrow> conn_data es' = conn_data es"
  unfolding conn_data_zip by simp

lemma conn_data_fds: "snd ` set_mset (conn_data es) \<subseteq> set (live_fds es)"
  by (force simp: conn_data_def live_fds_def)

lemma same_fds_ok: "live_fds es' = live_fds es \<Longrightarrow> fds_ok es ev \<Longrightarrow> fds_ok es' ev"
  by (simp add: fds_ok_def)

lemma fds_bound: "fds_ok es ev \<Longrightarrow> length es \<le> 2 ^ 20"
proof -
  assume ok: "fds_ok es ev"
  then have "set (live_fds es) \<subseteq> {0..<OPEN_MAX}" by (auto simp: fds_ok_def)
  then have "card (set (live_fds es)) \<le> card {0..<OPEN_MAX}" by (intro card_mono) auto
  moreover have "card (set (live_fds es)) = length es" using ok distinct_card [of "live_fds es"] by (simp add: fds_ok_def live_fds_def)
  ultimately show "length es \<le> 2 ^ 20" by (simp add: OPEN_MAX_def)
qed

lemma table_bound: "server_ok sv \<Longrightarrow> fds_ok (live sv) ev \<Longrightarrow> sv_n sv < 2 ^ 32 - 32"
  using fds_bound [of "live sv" ev] length_live [of sv] by simp

lemma quieter_fds_ok: "quieter es es' \<Longrightarrow> fds_ok es ev \<Longrightarrow> fds_ok es' ev"
  using quieter_conn same_fds_ok by blast

lemma listen_enable_loop_ok:
  assumes "server_ok sv" "i + k \<le> sv_n sv"
  shows "\<exists>sv'. listen_enable_loop k i enable sv = Some sv' \<and> server_ok sv' \<and> sv_n sv' = sv_n sv \<and> quieter (live sv) (live sv') \<and> sv_nmax sv' = sv_nmax sv"
  using assms
proof (induction k arbitrary: i sv)
  case (Suc k)
  have i: "i < length (sv_socket sv)" "i < length (sv_pollfd sv)" "i < sv_n sv" using Suc.prems by (auto simp: server_ok_def)
  define p where "p = (if enable then (sv_pollfd sv ! i)\<lparr>pfd_events := POLLIN\<rparr> else (sv_pollfd sv ! i)\<lparr>pfd_revents := 0, pfd_events := 0\<rparr>)"
  define sv1 where "sv1 = (if ss_is_listener (sv_socket sv ! i) then sv\<lparr>sv_pollfd := (sv_pollfd sv)[i := p]\<rparr> else sv)"
  have 1: "server_ok sv1" "sv_n sv1 = sv_n sv" "sv_nmax sv1 = sv_nmax sv" using Suc.prems by (auto simp: sv1_def server_ok_def)
  have "quieter (live sv) (live sv1)"
    using Suc.prems(1) i by (auto simp: quieter_def calmer_def list_all2_conv_all_nth live_def sv1_def server_ok_def p_def nth_list_update)
  moreover have "listen_enable_loop (Suc k) i enable sv = listen_enable_loop k (i + 1) enable sv1"
    using i by (simp add: is_listener_def sv1_def p_def Let_def)
  moreover obtain sv' where "listen_enable_loop k (i + 1) enable sv1 = Some sv'" "server_ok sv'" "sv_n sv' = sv_n sv1"
      "quieter (live sv1) (live sv')" "sv_nmax sv' = sv_nmax sv1"
    using Suc.IH [OF 1(1), of "i + 1"] 1 Suc.prems(2) by auto
  ultimately show ?case using 1 quieter_trans by auto
qed simp

lemma open_fds_emit:
  "open_fds (ev @ [e]) = (case e of Accept l r \<Rightarrow> insert r (open_fds ev) | Socket f r \<Rightarrow> insert r (open_fds ev) | Close fd \<Rightarrow> open_fds ev - {fd} | _ \<Rightarrow> open_fds ev)"
  by (simp add: open_fds_def split: event.splits)

lemma continues_refl [simp]: "continues fds ev ev"
  by (simp add: continues_def)

lemma continues_trans [trans]: "continues fds a b \<Longrightarrow> continues fds b c \<Longrightarrow> continues fds a c"
  by (auto simp: continues_def)

lemma continues_mono: "continues fds a b \<Longrightarrow> fds \<subseteq> fds' \<Longrightarrow> continues fds' a b"
proof -
  have "harmless fds e \<Longrightarrow> fds \<subseteq> fds' \<Longrightarrow> harmless fds' e" for e by (cases e) auto
  then show "continues fds a b \<Longrightarrow> fds \<subseteq> fds' \<Longrightarrow> continues fds' a b" by (auto simp: continues_def list_all_iff)
qed

lemma continues_emit: "harmless fds e \<Longrightarrow> continues fds ev (ev @ [e])"
  by (simp add: continues_def)

lemma continues_open: "continues fds ev ev' \<Longrightarrow> open_fds ev' = open_fds ev"
proof -
  have "list_all (harmless fds) es \<Longrightarrow> open_fds (ev @ es) = open_fds ev" for es
  proof (induction es arbitrary: ev)
    case (Cons e es)
    then show ?case using Cons.IH [of "ev @ [e]"] by (cases e) (auto simp: open_fds_emit)
  qed simp
  then show "continues fds ev ev' \<Longrightarrow> open_fds ev' = open_fds ev" by (auto simp: continues_def)
qed

lemma continues_length: "continues fds ev ev' \<Longrightarrow> length ev \<le> length ev'"
  by (auto simp: continues_def)

lemma received_emit: "received (ev @ [e]) fd = (case e of Accept l r \<Rightarrow> if r = fd then 0 else received ev fd
    | Read r (Some bs) \<Rightarrow> if r = fd then received ev fd + length bs else received ev fd | _ \<Rightarrow> received ev fd)"
  by (simp add: received_def split: event.splits option.splits)

lemma continues_received: "continues fds ev ev' \<Longrightarrow> fd \<notin> fds \<Longrightarrow> received ev' fd = received ev fd"
proof -
  have "list_all (harmless fds) es \<Longrightarrow> fd \<notin> fds \<Longrightarrow> received (ev @ es) fd = received ev fd" for es
  proof (induction es arbitrary: ev)
    case (Cons e es)
    then show ?case using Cons.IH [of "ev @ [e]"] by (cases e) (auto simp: received_emit split: option.splits)
  qed simp
  then show "continues fds ev ev' \<Longrightarrow> fd \<notin> fds \<Longrightarrow> received ev' fd = received ev fd" by (auto simp: continues_def)
qed

lemma fds_ok_mono: "fds_ok es ev \<Longrightarrow> open_fds ev \<subseteq> open_fds ev' \<Longrightarrow> fds_ok es ev'"
  by (auto simp: fds_ok_def)

lemma nonblock_emits: "set_nonblock K fd w = w \<or> set_nonblock K fd w = emit (Nonblock fd) w"
  by (simp add: set_nonblock_def Let_def)

subsection \<open>Adding and deleting\<close>

lemma listen_enable_ok:
  assumes "server_ok sv"
  shows "\<exists>sv'. server_listen_enable enable sv = Some sv' \<and> server_ok sv' \<and> sv_n sv' = sv_n sv \<and> quieter (live sv) (live sv') \<and> sv_nmax sv' = sv_nmax sv"
  using listen_enable_loop_ok [OF assms, of 0 "sv_n sv" enable] by (simp add: server_listen_enable_def)

lemma add_socket_ok:
  assumes "server_ok sv" "sv_n sv < 2 ^ 32 - 32" "P w" "\<And>msg. \<exists>w'. server_on_error ctx w msg = Some (-1, w') \<and> P w'"
    "\<And>w e. P w \<Longrightarrow> P (emit (Nonblock fd) w)"
  shows "\<exists>i sv' w'. server_add_socket K ctx fd sv w = Some (i, sv', w') \<and> server_ok sv' \<and> P w' \<and>
    (if i = -1 then live sv' = live sv else i = int (sv_n sv) \<and> sv_n sv' = sv_n sv + 1 \<and>
       quieter (live sv @ [(\<lparr>ss_data = None, ss_listener = None, ss_is_listener = False\<rparr>, \<lparr>pfd_fd = fd, pfd_events = POLLIN, pfd_revents = 0\<rparr>)]) (live sv'))"
proof -
  have "sv_n sv \<le> sv_n sv + 1" "sv_n sv + 1 < 2 ^ 32 - 16" using assms(2) by auto
  from resize_ok [of sv, OF assms(1) this, of P w ctx K, OF assms(3,4)] obtain r sv1 w1 where
    1: "server_resize K ctx (sv_n sv + 1) sv w = Some (r, sv1, w1)" "server_ok sv1" "sv_n sv1 = sv_n sv" "live sv1 = live sv"
      "r \<noteq> -1 \<longrightarrow> sv_n sv + 1 \<le> sv_nmax sv1" "P w1" by blast
  show ?thesis
  proof (cases "r = -1")
    case True
    then show ?thesis using 1 by (simp add: server_add_socket_def)
  next
    case False
    define s where "s = (\<lparr>ss_data = None, ss_listener = None, ss_is_listener = False\<rparr> :: 'a server_socket)"
    define p where "p = \<lparr>pfd_fd = fd, pfd_events = POLLIN, pfd_revents = 0\<rparr>"
    define sv2 where "sv2 = sv1\<lparr>sv_pollfd := (sv_pollfd sv1)[sv_n sv := p], sv_socket := (sv_socket sv1)[sv_n sv := s], sv_n := Suc (sv_n sv)\<rparr>"
    have lens: "sv_n sv < length (sv_pollfd sv1)" "sv_n sv < length (sv_socket sv1)" using 1 False by (auto simp: server_ok_def)
    have 2: "server_ok sv2" "sv_n sv2 = sv_n sv + 1" using 1 False by (auto simp: sv2_def server_ok_def)
    have "live sv2 = live sv1 @ [(s, p)]"
      using lens 1(3) by (simp add: live_def sv2_def take_Suc_conv_app_nth)
    then have l2: "live sv2 = live sv @ [(s, p)]" using 1(4) by simp
    obtain sv3 where 3: "(if max_sockets ctx \<noteq> 0 \<and> max_sockets ctx \<le> sv_n sv2 then server_listen_enable False sv2 else Some sv2) = Some sv3"
      "server_ok sv3" "sv_n sv3 = sv_n sv + 1" "quieter (live sv @ [(s, p)]) (live sv3)"
      using listen_enable_ok [OF 2(1), of False] 2 l2 by (cases "max_sockets ctx \<noteq> 0 \<and> max_sockets ctx \<le> sv_n sv2") auto
    have "server_add_socket K ctx fd sv w = Some (int (sv_n sv), sv3, set_nonblock K fd w1)"
      using 1(1,3) False lens 3(1) 2(2) unfolding server_add_socket_def Let_def s_def [symmetric] p_def [symmetric]
      by (cases "0 < max_sockets ctx \<and> max_sockets ctx \<le> Suc (sv_n sv)") (auto simp flip: sv2_def)
    moreover have "P (set_nonblock K fd w1)" using nonblock_emits [of K fd w1] 1(6) assms(5) by auto
    ultimately show ?thesis using 3 by (simp add: s_def p_def)
  qed
qed

lemma fd_scan_last:
  assumes "server_ok sv" "live sv = es @ [(s, p)]" "pfd_fd p = fd" "fd \<notin> set (live_fds es)" "i + k = sv_n sv" "i \<le> length es"
  shows "\<exists>sv'. add_fd_scan k i fd data l sv = Some sv' \<and> server_ok sv' \<and> sv_n sv' = sv_n sv \<and>
    live sv' = es @ [(s\<lparr>ss_data := data, ss_listener := l\<rparr>, p)]"
  using assms(5,6)
proof (induction k arbitrary: i)
  case 0
  then show ?case using assms(1,2) length_live [OF assms(1)] by simp
next
  case (Suc k)
  have n: "sv_n sv = Suc (length es)" using assms(1,2) length_live [OF assms(1)] by simp
  have i: "i < sv_n sv" "i < length (sv_pollfd sv)" "i < length (sv_socket sv)" using Suc.prems(1) assms(1) by (auto simp: server_ok_def)
  have at: "(sv_socket sv ! i, sv_pollfd sv ! i) = (es @ [(s, p)]) ! i" using live_nth [OF assms(1) i(1)] assms(2) by simp
  show ?case
  proof (cases "i = length es")
    case True
    then have e: "sv_socket sv ! i = s" "sv_pollfd sv ! i = p" using at by auto
    let ?sv = "sv\<lparr>sv_socket := (sv_socket sv)[i := s\<lparr>ss_data := data, ss_listener := l\<rparr>]\<rparr>"
    have "(take (sv_n sv) (sv_pollfd sv))[i := p] = take (sv_n sv) (sv_pollfd sv)" using i e by (metis list_update_id nth_take)
    then have "live ?sv = (live sv)[i := (s\<lparr>ss_data := data, ss_listener := l\<rparr>, p)]"
      by (simp add: live_def take_update_swap flip: zip_update)
    then show ?thesis using True i e assms(1,2,3) by (simp add: server_ok_def)
  next
    case False
    then have lt: "i < length es" using Suc.prems(2) by simp
    then have "pfd_fd (sv_pollfd sv ! i) \<in> set (live_fds es)" using at by (auto simp: live_fds_def nth_append in_set_conv_nth image_iff) (metis nth_mem snd_conv)
    then have "pfd_fd (sv_pollfd sv ! i) \<noteq> fd" using assms(4) by auto
    then show ?thesis using i Suc.IH [of "i + 1"] Suc.prems lt by simp
  qed
qed

text \<open>The table after the last entry has replaced an entry that goes away.\<close>

definition last_first :: "'a list \<Rightarrow> 'a list" where
  "last_first xs = (if xs = [] then [] else last xs # butlast xs)"

lemma mset_last_first [simp]: "mset (last_first xs) = mset xs"
  by (cases xs rule: rev_cases) (auto simp: last_first_def)

lemma set_last_first [simp]: "set (last_first xs) = set xs"
  by (metis mset_last_first set_mset_mset)

lemma pending_mset: "mset xs = mset ys \<Longrightarrow> pending xs = pending ys"
  unfolding pending_def by (metis mset_filter size_mset)

lemma conn_data_append [simp]: "conn_data (xs @ ys) = conn_data xs + conn_data ys"
  by (simp add: conn_data_def)

lemma conn_data_mset: "mset xs = mset ys \<Longrightarrow> conn_data xs = conn_data ys"
  unfolding conn_data_def mset_map mset_filter by simp

lemma fds_ok_mset: "mset xs = mset ys \<Longrightarrow> fds_ok xs ev \<Longrightarrow> fds_ok ys ev"
proof -
  assume m: "mset xs = mset ys" and ok: "fds_ok xs ev"
  have "mset (live_fds xs) = mset (live_fds ys)" using m by (simp add: live_fds_def)
  then have "distinct (live_fds xs) = distinct (live_fds ys)" "set (live_fds xs) = set (live_fds ys)"
    using mset_eq_imp_distinct_iff mset_eq_setD by blast+
  then show ?thesis using ok by (simp add: fds_ok_def)
qed

lemma live_fds_simps [simp]:
  "live_fds [] = []" "live_fds (e # es) = pfd_fd (snd e) # live_fds es" "live_fds (xs @ ys) = live_fds xs @ live_fds ys"
  by (simp_all add: live_fds_def)

lemma fds_ok_remove:
  assumes "fds_ok (as @ (s, p) # bs) ev" "\<not> ss_is_listener s"
  shows "fds_ok (as @ bs) (ev @ [Close (pfd_fd p)])"
  using assms by (auto simp: fds_ok_def open_fds_emit)

lemma replace_ok:
  assumes "server_ok sv" "live sv = as @ (s, p) # bs"
  defines "i \<equiv> length as" and "lst \<equiv> sv_n sv - 1"
  shows "\<exists>sv1. (if i < lst then do {
       pl \<leftarrow> nth_opt (sv_pollfd sv) lst; sl \<leftarrow> nth_opt (sv_socket sv) lst;
       Some (sv\<lparr>sv_pollfd := (sv_pollfd sv)[i := pl], sv_socket := (sv_socket sv)[i := sl]\<rparr>) } else Some sv) = Some sv1 \<and>
     server_ok (sv1\<lparr>sv_n := sv_n sv1 - 1\<rparr>) \<and> live (sv1\<lparr>sv_n := sv_n sv1 - 1\<rparr>) = as @ last_first bs \<and> sv_n sv1 = sv_n sv"
proof (cases bs rule: rev_cases)
  case Nil
  have n: "sv_n sv = Suc i" using length_live [OF assms(1)] assms(2) Nil by (simp add: i_def)
  have "live (sv\<lparr>sv_n := sv_n sv - 1\<rparr>) = take i (live sv)" using n by (simp add: live_def take_zip min_def)
  then show ?thesis using n assms(1,2) Nil by (auto simp: lst_def i_def server_ok_def last_first_def)
next
  case (snoc cs y)
  have n: "sv_n sv = Suc (Suc (i + length cs))" using length_live [OF assms(1)] assms(2) snoc by (simp add: i_def)
  have b: "lst < length (sv_pollfd sv)" "lst < length (sv_socket sv)" "i < lst" using n assms(1) by (auto simp: lst_def server_ok_def)
  let ?sv = "sv\<lparr>sv_pollfd := (sv_pollfd sv)[i := sv_pollfd sv ! lst], sv_socket := (sv_socket sv)[i := sv_socket sv ! lst]\<rparr>"
  have y: "y = (sv_socket sv ! lst, sv_pollfd sv ! lst)"
    using live_nth [OF assms(1), of lst] n assms(2) snoc by (simp add: lst_def i_def nth_append)
  have "live (?sv\<lparr>sv_n := sv_n ?sv - 1\<rparr>) = take lst ((live sv)[i := y])"
    using b n y assms(1) by (simp add: live_def lst_def take_zip take_update_swap min_def server_ok_def flip: zip_update)
  also have "\<dots> = as @ last_first bs" using n assms(2) snoc by (simp add: lst_def i_def last_first_def list_update_append)
  finally show ?thesis using b n assms(1) by (auto simp: server_ok_def)
qed

lemma clear_ok:
  assumes "server_ok sv" "i < sv_n sv"
  defines "sv1 \<equiv> sv\<lparr>sv_pollfd := (sv_pollfd sv)[i := (sv_pollfd sv ! i)\<lparr>pfd_revents := 0\<rparr>]\<rparr>"
  shows "server_ok sv1" "sv_n sv1 = sv_n sv" "quieter (live sv) (live sv1)" "drop (i + 1) (live sv1) = drop (i + 1) (live sv)"
  using assms(1,2) by (auto simp: sv1_def server_ok_def quieter_def calmer_def list_all2_conv_all_nth live_def nth_list_update drop_zip
    drop_update_swap take_update_swap)

lemma revents_fds: "map pfd_fd (store_revents revs pfds) = map pfd_fd pfds"
  by (induction revs pfds rule: list_induct2') (auto simp: store_revents_def)

lemma revents_ok:
  fixes revs
  assumes "server_ok sv"
  defines "sv1 \<equiv> sv\<lparr>sv_pollfd := store_revents revs (sv_pollfd sv)\<rparr>"
  shows "server_ok sv1" "sv_n sv1 = sv_n sv" "conn_data (live sv1) = conn_data (live sv)" "fds_ok (live sv) ev \<Longrightarrow> fds_ok (live sv1) ev"
proof -
  have len: "length (store_revents revs (sv_pollfd sv)) = length (sv_pollfd sv)" by (metis length_map revents_fds)
  then show ok: "server_ok sv1" "sv_n sv1 = sv_n sv" using assms(1) by (simp_all add: sv1_def server_ok_def)
  have same: "map fst (live sv1) = map fst (live sv)" using len assms(1) by (simp add: live_def sv1_def server_ok_def)
  have fds: "live_fds (live sv') = take (sv_n sv') (map pfd_fd (sv_pollfd sv'))" if "server_ok sv'" for sv' :: "'a server"
  proof -
    have "map snd (live sv') = take (sv_n sv') (sv_pollfd sv')" using that by (simp add: live_def server_ok_def)
    then show ?thesis unfolding live_fds_def by (metis map_map take_map)
  qed
  have "live_fds (live sv1) = live_fds (live sv)" using fds [OF ok(1)] fds [OF assms(1)] revents_fds by (simp add: sv1_def)
  then show "conn_data (live sv1) = conn_data (live sv)" "fds_ok (live sv) ev \<Longrightarrow> fds_ok (live sv1) ev"
    using same_conn [OF same] same_fds_ok by blast+
qed

lemma close_delete_eq:
  assumes "nth_opt (sv_socket sv) i = Some s" "nth_opt (sv_pollfd sv) i = Some p" "\<not> ss_is_listener s"
    "(if k_close K (events w) (pfd_fd p) = -1 then map_option snd (server_on_error ctx (emit (Close (pfd_fd p)) w)
      (lit ''['' @ listener_peername K (emit (Close (pfd_fd p)) w) (ss_listener s) (pfd_fd p) @ lit ''] close: '' @ strerror K (emit (Close (pfd_fd p)) w)))
      else Some (emit (Close (pfd_fd p)) w)) = Some w2"
    "cls w2 (ss_data s) (ss_listener s) = Some w3"
    "(if i < sv_n sv - 1 then do {
       pl \<leftarrow> nth_opt (sv_pollfd sv) (sv_n sv - 1); sl \<leftarrow> nth_opt (sv_socket sv) (sv_n sv - 1);
       Some (sv\<lparr>sv_pollfd := (sv_pollfd sv)[i := pl], sv_socket := (sv_socket sv)[i := sl]\<rparr>) } else Some sv) = Some sv1"
    "(if max_sockets ctx \<noteq> 0 \<and> sv_n (sv1\<lparr>sv_n := sv_n sv1 - 1\<rparr>) = max_sockets ctx - 1
      then server_listen_enable True (sv1\<lparr>sv_n := sv_n sv1 - 1\<rparr>) else Some (sv1\<lparr>sv_n := sv_n sv1 - 1\<rparr>)) = Some sv3"
    "server_resize K ctx (sv_n sv3) sv3 w3 = Some (r, sv4, w4)" "ctx_on_close ctx = Some cls"
  shows "close_delete_socket K ctx i sv w = Some (sv4, w4)"
  by (simp only: close_delete_socket_def Let_def sys_close_def assms Option.bind.simps if_False prod.case option.case)

subsection \<open>What an application promises\<close>

text \<open>
  The upcalls of a server.  \<open>good D\<close> is the application's state when \<open>D\<close> are the contexts of its open
  connections with their descriptors; \<open>dying d D\<close> is its state after it has given up the connection
  \<open>d\<close>, which the server then closes.  An upcall opens and closes no
  descriptor, and reads at most from the one it is called for.
\<close>

locale server_app =
  fixes K :: kernel and ctx :: "('w net_scheme, 'c) server_context"
    and acc :: "'w net_scheme \<Rightarrow> int \<Rightarrow> listener option \<Rightarrow> ('c option \<times> 'w net_scheme) option"
    and cls :: "'w net_scheme \<Rightarrow> 'c option \<Rightarrow> listener option \<Rightarrow> 'w net_scheme option"
    and good :: "('c option \<times> int) multiset \<Rightarrow> 'w net_scheme \<Rightarrow> bool"
    and dying :: "'c option \<times> int \<Rightarrow> ('c option \<times> int) multiset \<Rightarrow> 'w net_scheme \<Rightarrow> bool"
  assumes upcalls: "ctx_on_accept ctx = Some acc" "ctx_on_close ctx = Some cls"
    and fresh: "good D w \<Longrightarrow> fresh_accept K"
    and accepts: "good D w \<Longrightarrow> fd \<notin> snd ` set_mset D \<Longrightarrow> received (events w) fd = 0 \<Longrightarrow>
      \<exists>d w'. acc w fd l = Some (d, w') \<and> good (add_mset (d, fd) D) w' \<and> continues {} (events w) (events w')"
    and ready: "good D w \<Longrightarrow> (d, fd) \<in># D \<Longrightarrow> \<exists>r w'. ctx_on_ready ctx w d fd = Some (r, w') \<and>
      (if 0 < r then good D w' else dying (d, fd) D w') \<and> continues {fd} (events w) (events w')"
    and closes: "dying (d, fd) D w \<Longrightarrow> \<exists>w'. cls w d l = Some w' \<and> good (D - {#(d, fd)#}) w' \<and> continues {} (events w) (events w')"
    and good_error: "good D w \<Longrightarrow> \<exists>w'. server_on_error ctx w msg = Some (-1, w') \<and> good D w' \<and> continues {} (events w) (events w')"
    and dying_error: "dying x D w \<Longrightarrow> \<exists>w'. server_on_error ctx w msg = Some (-1, w') \<and> dying x D w' \<and> continues {} (events w) (events w')"
    and good_emit: "good D w \<Longrightarrow> (\<And>fd bs. e \<noteq> Read fd bs) \<Longrightarrow> (\<And>l fd. e = Accept l fd \<Longrightarrow> fd \<notin> snd ` set_mset D) \<Longrightarrow> good D (emit e w)"
    and gives_up: "good D w \<Longrightarrow> x \<in># D \<Longrightarrow> dying x D w"
    and dying_close: "dying x D w \<Longrightarrow> dying x D (emit (Close fd) w)"
begin

lemma add_fd_ok:
  assumes "server_ok sv" "fds_ok (live sv) (events w)" "good (conn_data (live sv)) w"
    "0 \<le> fd \<and> fd < OPEN_MAX" "fd \<notin> set (live_fds (live sv))" "fd \<in> open_fds (events w)" "received (events w) fd = 0"
  shows "\<exists>r sv' w'. server_add_fd K ctx fd l sv w = Some (r, sv', w') \<and> server_ok sv' \<and> fds_ok (live sv') (events w') \<and>
    good (conn_data (live sv')) w' \<and> continues {} (events w) (events w') \<and> (r = -1 \<longrightarrow> live sv' = live sv) \<and>
    sv_n sv \<le> sv_n sv' \<and> sv_n sv' \<le> sv_n sv + 1 \<and> (\<forall>i. pending (drop i (live sv')) \<le> pending (drop i (live sv)))"
proof -
  let ?P = "\<lambda>w'. good (conn_data (live sv)) w' \<and> continues {} (events w) (events w')"
  let ?s = "\<lparr>ss_data = None, ss_listener = None, ss_is_listener = False\<rparr> :: 'c server_socket"
  let ?p = "\<lparr>pfd_fd = fd, pfd_events = POLLIN, pfd_revents = 0\<rparr>"
  have emit: "?P (emit (Nonblock fd) v)" if "?P v" for v
    using that good_emit [of "conn_data (live sv)" v "Nonblock fd"] continues_trans [OF conjunct2 [OF that] continues_emit [of "{}" "Nonblock fd"]] by simp
  obtain i sv1 w1 where 1: "server_add_socket K ctx fd sv w = Some (i, sv1, w1)" "server_ok sv1" "?P w1"
    "if i = -1 then live sv1 = live sv else i = int (sv_n sv) \<and> sv_n sv1 = sv_n sv + 1 \<and> quieter (live sv @ [(?s, ?p)]) (live sv1)"
    using add_socket_ok [where P = ?P, OF assms(1) table_bound [OF assms(1,2)] _ _ emit, of w ctx K] assms(3) good_error [OF assms(3)] by auto
  show ?thesis
  proof (cases "i = -1")
    case True
    then have "live sv1 = live sv" "sv_n sv1 = sv_n sv" using 1(2,4) length_live [OF assms(1)] length_live [OF 1(2)] by auto
    then show ?thesis using True 1(1-3) assms(4) continues_open [of "{}" "events w" "events w1"] fds_ok_mono [OF assms(2), of "events w1"] by (simp add: server_add_fd_def)
  next
    case False
    then have q: "i = int (sv_n sv)" "sv_n sv1 = sv_n sv + 1" "quieter (live sv @ [(?s, ?p)]) (live sv1)" using 1(4) by auto
    obtain es s p where l1: "live sv1 = es @ [(s, p)]" "quieter (live sv) es" "calmer (?s, ?p) (s, p)"
      using q(3) unfolding quieter_def by (auto simp: list_all2_append1 list_all2_Cons1)
    then have sp: "s = ?s" "pfd_fd p = fd" "pfd_revents p = 0" by (auto simp: calmer_def)
    note es = quieter_conn [OF l1(2)]
    have new: "fd \<notin> snd ` set_mset (conn_data (live sv))" using assms(5) conn_data_fds [of "live sv"] by blast
    obtain d w2 where a: "acc w1 fd l = Some (d, w2)" "good (add_mset (d, fd) (conn_data (live sv))) w2" "continues {} (events w1) (events w2)"
      using accepts [OF conjunct1 [OF 1(3)] new, of l] continues_received [OF conjunct2 [OF 1(3)], of fd] assms(7) by auto
    have cont: "continues {} (events w) (events w2)" using continues_trans 1(3) a(3) by blast
    have opn: "open_fds (events w2) = open_fds (events w)" using continues_open [OF cont] .
    obtain sv2 where 2: "add_fd_scan (sv_n sv1) 0 fd d l sv1 = Some sv2" "server_ok sv2" "sv_n sv2 = sv_n sv1"
      "live sv2 = es @ [(s\<lparr>ss_data := d, ss_listener := l\<rparr>, p)]"
      using fd_scan_last [OF 1(2) l1(1) sp(2), of 0 "sv_n sv1" d l] assms(5) es by auto
    have "conn_data (live sv2) = add_mset (d, fd) (conn_data (live sv))" using 2(4) sp es by (simp add: conn_data_def)
    moreover have "fds_ok (live sv2) (events w2)"
      using quieter_fds_ok [OF l1(2) assms(2)] opn 2(4) sp es assms(4-6) by (auto simp: fds_ok_def)
    moreover have "pending (drop j (live sv2)) \<le> pending (drop j (live sv))" for j
    proof -
      have "pending (drop j [(s\<lparr>ss_data := d, ss_listener := l\<rparr>, p)]) = 0" for j using sp by (cases j) (auto simp: pending_def)
      then have "pending (drop j (live sv2)) = pending (drop j es)" using 2(4) by (simp add: pending_def)
      then show ?thesis using quieter_pending [OF quieter_drop [OF l1(2)], of j] by simp
    qed
    moreover have "server_add_fd K ctx fd l sv w = Some (0, sv2, w2)"
      using False 1(1) a(1) 2(1) assms(4) upcalls(1) by (simp add: server_add_fd_def del: add_fd_scan.simps)
    ultimately show ?thesis using a(2) 2(2,3) q(2) cont by (intro exI [of _ 0] exI [of _ sv2] exI [of _ w2]) auto
  qed
qed

lemma accept_ok:
  assumes "server_ok sv" "fds_ok (live sv) (events w)" "good (conn_data (live sv)) w"
  shows "\<exists>sv' w'. server_accept K ctx lfd l sv w = Some (sv', w') \<and> server_ok sv' \<and> fds_ok (live sv') (events w') \<and>
    good (conn_data (live sv')) w' \<and> sv_n sv \<le> sv_n sv' \<and> sv_n sv' \<le> sv_n sv + 1 \<and> (\<forall>i. pending (drop i (live sv')) \<le> pending (drop i (live sv))) \<and>
    length (events w) \<le> length (events w')"
proof -
  define fd where "fd = k_accept K (events w) lfd"
  define w1 where "w1 = emit (Accept lfd fd) w"
  have sys: "sys_accept K lfd w = (fd, w1)" by (simp add: sys_accept_def fd_def w1_def Let_def)
  have fd: "fd = -1 \<or> fd \<notin> open_fds (events w) \<and> 0 \<le> fd \<and> fd < OPEN_MAX" using fresh [OF assms(3)] by (auto simp: fresh_accept_def fd_def)
  then have new: "fd \<notin> set (live_fds (live sv))" using assms(2) by (auto simp: fds_ok_def)
  then have "fd \<notin> snd ` set_mset (conn_data (live sv))" using conn_data_fds [of "live sv"] by blast
  then have g1: "good (conn_data (live sv)) w1" unfolding w1_def by (intro good_emit [OF assms(3)]) auto
  have f1: "fds_ok (live sv) (events w1)" "fd \<in> open_fds (events w1)" "received (events w1) fd = 0"
    using fds_ok_mono [OF assms(2), of "events w1"] by (auto simp: w1_def open_fds_emit received_emit)
  show ?thesis
  proof (cases "fd = -1")
    case True
    obtain w2 where w2: "server_on_error ctx w1 (lit ''['' @ (case l of None \<Rightarrow> lit ''(null)'' | Some l \<Rightarrow> l_name l) @ lit ''] accept: '' @ strerror K w1) = Some (-1, w2)"
      "good (conn_data (live sv)) w2" "continues {} (events w1) (events w2)" using good_error [OF g1] by blast
    have "fds_ok (live sv) (events w2)" "length (events w) \<le> length (events w2)"
      using fds_ok_mono [OF f1(1)] continues_open [OF w2(3)] continues_length [OF w2(3)] by (simp_all add: w1_def)
    then show ?thesis using sys True assms(1) w2 by (simp add: server_accept_def)
  next
    case False
    then have range: "0 \<le> fd \<and> fd < OPEN_MAX" using fd by simp
    obtain r sv2 w2 where 2: "server_add_fd K ctx fd l sv w1 = Some (r, sv2, w2)" "server_ok sv2" "fds_ok (live sv2) (events w2)"
      "good (conn_data (live sv2)) w2" "r = -1 \<longrightarrow> live sv2 = live sv" "sv_n sv \<le> sv_n sv2" "sv_n sv2 \<le> sv_n sv + 1"
      "\<forall>i. pending (drop i (live sv2)) \<le> pending (drop i (live sv))" "length (events w1) \<le> length (events w2)"
      using continues_length add_fd_ok [OF assms(1) f1(1) g1 range new f1(2,3), of l] by blast
    show ?thesis
    proof (cases "r = -1")
      case True
      define w3 where "w3 = emit (Close fd) w2"
      have g3: "good (conn_data (live sv2)) w3" unfolding w3_def by (rule good_emit [OF 2(4)]) simp_all
      have f3: "fds_ok (live sv2) (events w3)" using 2(3,5) True new by (auto simp: fds_ok_def w3_def open_fds_emit)
      obtain w4 where w4: "server_on_error ctx w3 (lit ''['' @ listener_peername K w3 l fd @ lit ''] close: '' @ strerror K w3) = Some (-1, w4)"
        "good (conn_data (live sv2)) w4" "continues {} (events w3) (events w4)" using good_error [OF g3] by blast
      have f4: "fds_ok (live sv2) (events w4)" using fds_ok_mono [OF f3] continues_open [OF w4(3)] by simp
      have len: "length (events w) \<le> length (events w3)" "length (events w3) \<le> length (events w4)"
        using 2(9) continues_length [OF w4(3)] by (simp_all add: w1_def w3_def)
      show ?thesis using sys False True 2 g3 f3 f4 w4 len
        by (cases "k_close K (events w2) fd = -1") (simp_all add: server_accept_def sys_close_def w3_def [symmetric])
    next
      case r: False
      have "length (events w) \<le> length (events w2)" using 2(9) by (simp add: w1_def)
      then show ?thesis using sys False r 2 by (simp add: server_accept_def)
    qed
  qed
qed

lemma delete_ok:
  assumes "server_ok sv" "live sv = as @ (s, p) # bs" "\<not> ss_is_listener s" "fds_ok (live sv) (events w)"
    "dying (ss_data s, pfd_fd p) (conn_data (live sv)) w"
  shows "\<exists>sv' w'. close_delete_socket K ctx (length as) sv w = Some (sv', w') \<and> server_ok sv' \<and> fds_ok (live sv') (events w') \<and>
    good (conn_data (live sv')) w' \<and> sv_n sv' + 1 = sv_n sv \<and> quieter (as @ last_first bs) (live sv') \<and> length (events w) \<le> length (events w')"
proof -
  let ?i = "length as"
  have n: "sv_n sv = length as + 1 + length bs" using length_live [OF assms(1)] assms(2) by simp
  have at: "?i < length (sv_socket sv)" "?i < length (sv_pollfd sv)" "sv_socket sv ! ?i = s" "sv_pollfd sv ! ?i = p"
    using live_nth [OF assms(1), of ?i] n assms(1,2) by (auto simp: server_ok_def)
  define w1 where "w1 = emit (Close (pfd_fd p)) w"
  have d1: "dying (ss_data s, pfd_fd p) (conn_data (live sv)) w1" using dying_close [OF assms(5)] by (simp add: w1_def)
  have "\<exists>w2. (if k_close K (events w) (pfd_fd p) = -1 then map_option snd (server_on_error ctx w1
      (lit ''['' @ listener_peername K w1 (ss_listener s) (pfd_fd p) @ lit ''] close: '' @ strerror K w1)) else Some w1) = Some w2 \<and>
      dying (ss_data s, pfd_fd p) (conn_data (live sv)) w2 \<and> continues {} (events w1) (events w2)"
    using dying_error [OF d1, of "lit ''['' @ listener_peername K w1 (ss_listener s) (pfd_fd p) @ lit ''] close: '' @ strerror K w1"] d1 by auto
  then obtain w2 where w2: "(if k_close K (events w) (pfd_fd p) = -1 then map_option snd (server_on_error ctx w1
      (lit ''['' @ listener_peername K w1 (ss_listener s) (pfd_fd p) @ lit ''] close: '' @ strerror K w1)) else Some w1) = Some w2"
      "dying (ss_data s, pfd_fd p) (conn_data (live sv)) w2" "continues {} (events w1) (events w2)" by blast
  obtain w3 where w3: "cls w2 (ss_data s) (ss_listener s) = Some w3" "good (conn_data (live sv) - {#(ss_data s, pfd_fd p)#}) w3" "continues {} (events w2) (events w3)"
    using closes [OF w2(2)] by blast
  obtain sv1 where 1: "(if ?i < sv_n sv - 1 then do {
       pl \<leftarrow> nth_opt (sv_pollfd sv) (sv_n sv - 1); sl \<leftarrow> nth_opt (sv_socket sv) (sv_n sv - 1);
       Some (sv\<lparr>sv_pollfd := (sv_pollfd sv)[?i := pl], sv_socket := (sv_socket sv)[?i := sl]\<rparr>) } else Some sv) = Some sv1"
     "server_ok (sv1\<lparr>sv_n := sv_n sv1 - 1\<rparr>)" "live (sv1\<lparr>sv_n := sv_n sv1 - 1\<rparr>) = as @ last_first bs" "sv_n sv1 = sv_n sv"
    using replace_ok [OF assms(1,2)] by blast
  define sv2 where "sv2 = sv1\<lparr>sv_n := sv_n sv1 - 1\<rparr>"
  have ok2: "server_ok sv2" using 1(2) by (simp add: sv2_def)
  obtain sv3 where 3: "(if max_sockets ctx \<noteq> 0 \<and> sv_n sv2 = max_sockets ctx - 1 then server_listen_enable True sv2 else Some sv2) = Some sv3"
    "server_ok sv3" "sv_n sv3 = sv_n sv2" "quieter (live sv2) (live sv3)"
    using listen_enable_ok [OF ok2, of True] ok2 by (cases "max_sockets ctx \<noteq> 0 \<and> sv_n sv2 = max_sockets ctx - 1") auto
  have conn: "conn_data (live sv3) = conn_data (live sv) - {#(ss_data s, pfd_fd p)#}"
    using quieter_conn [OF 3(4)] 1(3) assms(2,3) conn_data_mset [of "last_first bs" bs] by (simp add: sv2_def conn_data_def)
  have "fds_ok (as @ bs) (events w1)" using fds_ok_remove [OF assms(4) [unfolded assms(2)] assms(3)] by (simp add: w1_def)
  then have "fds_ok (live sv2) (events w1)" using fds_ok_mset [of "as @ bs" "as @ last_first bs"] 1(3) by (simp add: sv2_def)
  then have f3: "fds_ok (live sv3) (events w3)" using quieter_fds_ok [OF 3(4)] fds_ok_mono continues_open w2(3) w3(3) by (metis order_refl)
  let ?P = "\<lambda>w'. good (conn_data (live sv3)) w' \<and> continues {} (events w3) (events w')"
  have "?P w3" using w3(2) conn by simp
  moreover have "\<exists>w'. server_on_error ctx w3 msg = Some (-1, w') \<and> ?P w'" for msg using good_error calculation by blast
  moreover have "sv_n sv3 < 2 ^ 32 - 16" using 3(3) 1(4) table_bound [OF assms(1,4)] by (simp add: sv2_def)
  ultimately obtain r sv4 w4 where 4: "server_resize K ctx (sv_n sv3) sv3 w3 = Some (r, sv4, w4)" "server_ok sv4" "sv_n sv4 = sv_n sv3"
    "live sv4 = live sv3" "?P w4" using resize_ok [OF 3(2) order_refl, of ?P w3 ctx K] by blast
  have "close_delete_socket K ctx ?i sv w = Some (sv4, w4)"
    by (rule close_delete_eq [OF _ _ assms(3) w2(1) [unfolded w1_def] w3(1) 1(1) 3(1) [unfolded sv2_def] 4(1) upcalls(2)]) (use at in simp_all)
  moreover have "length (events w) \<le> length (events w4)"
    using continues_length [OF w2(3)] continues_length [OF w3(3)] continues_length [OF conjunct2 [OF 4(5)]] by (simp add: w1_def)
  moreover have "fds_ok (live sv4) (events w4)" using 4(4) fds_ok_mono [OF f3] continues_open [OF conjunct2 [OF 4(5)]] by simp
  ultimately show ?thesis using 4 3(3,4) 1(3,4) n by (auto simp: sv2_def)
qed

text \<open>What a pass of the poll loop needs and keeps.\<close>

lemma serve_ok:
  assumes "server_ok sv" "fds_ok (live sv) (events w)" "good (conn_data (live sv)) w" "i < sv_n sv"
  shows "\<exists>adv sv' w'. serve_socket K ctx i sv w = Some (adv, sv', w') \<and> server_ok sv' \<and> fds_ok (live sv') (events w') \<and>
    good (conn_data (live sv')) w' \<and>
    pending (drop (if adv then i + 1 else i) (live sv')) \<le> pending (drop (i + 1) (live sv)) \<and> sv_n sv' \<le> sv_n sv + 1 \<and> (adv \<or> sv_n sv' < sv_n sv) \<and>
    length (events w) \<le> length (events w')"
proof -
  define s where "s = sv_socket sv ! i"
  define p where "p = sv_pollfd sv ! i"
  have at: "i < length (sv_socket sv)" "i < length (sv_pollfd sv)" using assms(1,4) by (auto simp: server_ok_def)
  have sp: "live sv ! i = (s, p)" using live_nth [OF assms(1,4)] by (simp add: s_def p_def)
  have split: "live sv = take i (live sv) @ (s, p) # drop (i + 1) (live sv)" "length (take i (live sv)) = i"
    using id_take_nth_drop [of i "live sv"] sp assms(1,4) length_live [OF assms(1)] by auto
  show ?thesis
  proof (cases "ss_is_listener s")
    case True
    obtain sv' w' where "server_accept K ctx (pfd_fd p) (ss_listener s) sv w = Some (sv', w')" "server_ok sv'" "fds_ok (live sv') (events w')"
      "good (conn_data (live sv')) w'" "sv_n sv' \<le> sv_n sv + 1" "\<forall>i. pending (drop i (live sv')) \<le> pending (drop i (live sv))" "length (events w) \<le> length (events w')"
      using accept_ok [OF assms(1-3), of "pfd_fd p" "ss_listener s"] by auto
    then show ?thesis using True at by (intro exI [of _ True] exI [of _ sv'] exI [of _ w']) (auto simp: serve_socket_def simp flip: s_def p_def)
  next
    case False
    have "(s, p) \<in> set (live sv)" using split(1) by (metis in_set_conv_decomp)
    then have "(ss_data s, pfd_fd p) \<in># conn_data (live sv)" using False by (force simp: conn_data_def)
    then obtain r w1 where r: "ctx_on_ready ctx w (ss_data s) (pfd_fd p) = Some (r, w1)" "if 0 < r then good (conn_data (live sv)) w1 else dying (ss_data s, pfd_fd p) (conn_data (live sv)) w1"
      "continues {pfd_fd p} (events w) (events w1)" using ready [OF assms(3)] by blast
    have f1: "fds_ok (live sv) (events w1)" "length (events w) \<le> length (events w1)"
      using fds_ok_mono [OF assms(2)] continues_open [OF r(3)] continues_length [OF r(3)] by simp_all
    show ?thesis
    proof (cases "0 < r")
      case pos: True
      then show ?thesis using False r at f1 assms(1) by (intro exI [of _ True] exI [of _ sv] exI [of _ w1]) (auto simp: serve_socket_def simp flip: s_def p_def)
    next
      case neg: False
      let ?msg = "lit ''['' @ listener_peername K w1 (ss_listener s) (pfd_fd p) @ lit ''] on_ready: '' @ strerror K w1"
      have "\<exists>w2. (if r = 0 then Some w1 else map_option snd (server_on_error ctx w1 ?msg)) = Some w2 \<and>
        dying (ss_data s, pfd_fd p) (conn_data (live sv)) w2 \<and> continues {} (events w1) (events w2)"
        using dying_error [of "(ss_data s, pfd_fd p)" "conn_data (live sv)" w1 ?msg] r(2) neg by auto
      then obtain w2 where w2: "(if r = 0 then Some w1 else map_option snd (server_on_error ctx w1 ?msg)) = Some w2"
        "dying (ss_data s, pfd_fd p) (conn_data (live sv)) w2" "continues {} (events w1) (events w2)" by blast
      obtain sv' w' where d: "close_delete_socket K ctx i sv w2 = Some (sv', w')" "server_ok sv'" "fds_ok (live sv') (events w')"
        "good (conn_data (live sv')) w'" "sv_n sv' + 1 = sv_n sv" "quieter (take i (live sv) @ last_first (drop (i + 1) (live sv))) (live sv')" "length (events w2) \<le> length (events w')"
        using delete_ok [OF assms(1) split(1) False fds_ok_mono [OF f1(1)] w2(2)] continues_open [OF w2(3)] split(2) by auto
      have "pending (drop i (live sv')) \<le> pending (drop (i + 1) (live sv))"
        using quieter_pending [OF quieter_drop [OF d(6), of i]] split(2) pending_mset [of "last_first (drop (i + 1) (live sv))"] by simp
      moreover have "serve_socket K ctx i sv w = Some (False, sv', w')"
        using False neg r(1) w2(1) d(1) at by (auto simp: serve_socket_def simp flip: s_def p_def)
      moreover have "length (events w) \<le> length (events w')" using f1(2) continues_length [OF w2(3)] d(7) by simp
      ultimately show ?thesis using d by (intro exI [of _ False] exI [of _ sv'] exI [of _ w']) auto
    qed
  qed
qed

lemma poll_loop_ok:
  assumes "server_ok sv" "fds_ok (live sv) (events w)" "good (conn_data (live sv)) w" "pending (drop i (live sv)) \<le> m"
  shows "\<exists>sv' w'. server_poll_loop K ctx i sv w = Some (sv', w') \<and> server_ok sv' \<and> fds_ok (live sv') (events w') \<and>
    good (conn_data (live sv')) w' \<and> length (events w) \<le> length (events w')"
  using assms
proof (induction "2 * m + (sv_n sv - i)" arbitrary: m i sv w rule: less_induct)
  case less
  show ?case
  proof (cases "sv_n sv \<le> i")
    case True
    then show ?thesis using less.prems by (subst server_poll_loop.simps) auto
  next
    case False
    then have i: "i < sv_n sv" "i < length (sv_pollfd sv)" using less.prems(1) by (auto simp: server_ok_def)
    have "drop i (live sv) = (sv_socket sv ! i, sv_pollfd sv ! i) # drop (i + 1) (live sv)"
      using live_nth [OF less.prems(1) i(1)] length_live [OF less.prems(1)] i(1) by (metis Cons_nth_drop_Suc Suc_eq_plus1)
    then have pend: "pending (drop i (live sv)) = (if pfd_revents (sv_pollfd sv ! i) \<noteq> 0 then 1 else 0) + pending (drop (i + 1) (live sv))"
      by (simp add: pending_def)
    show ?thesis
    proof (cases "pfd_revents (sv_pollfd sv ! i) = 0")
      case True
      have "server_poll_loop K ctx i sv w = server_poll_loop K ctx (i + 1) sv w"
        using False i True by (subst server_poll_loop.simps) simp
      then show ?thesis using less.hyps [OF _ less.prems(1-3), of m "i + 1"] less.prems(4) pend True i(1) by simp
    next
      case busy: False
      then obtain m' where m: "m = Suc m'" using less.prems(4) pend by (cases m) auto
      define sv1 where "sv1 = sv\<lparr>sv_pollfd := (sv_pollfd sv)[i := (sv_pollfd sv ! i)\<lparr>pfd_revents := 0\<rparr>]\<rparr>"
      have 1: "server_ok sv1" "sv_n sv1 = sv_n sv" "quieter (live sv) (live sv1)" "drop (i + 1) (live sv1) = drop (i + 1) (live sv)"
        using clear_ok [OF less.prems(1) i(1)] by (simp_all add: sv1_def)
      obtain adv sv' w' where 2: "serve_socket K ctx i sv1 w = Some (adv, sv', w')" "server_ok sv'" "fds_ok (live sv') (events w')"
        "good (conn_data (live sv')) w'"
        "pending (drop (if adv then i + 1 else i) (live sv')) \<le> pending (drop (i + 1) (live sv1))" "sv_n sv' \<le> sv_n sv1 + 1" "adv \<or> sv_n sv' < sv_n sv1" "length (events w) \<le> length (events w')"
        using serve_ok [OF 1(1) quieter_fds_ok [OF 1(3) less.prems(2)], of i] less.prems(3) quieter_conn [OF 1(3)] 1(2) i(1) m by auto
      have "server_poll_loop K ctx i sv w = server_poll_loop K ctx (if adv then i + 1 else i) sv' w'"
        using False i busy 2(1) by (subst server_poll_loop.simps) (simp flip: sv1_def)
      moreover have "2 * m' + (sv_n sv' - (if adv then i + 1 else i)) < 2 * m + (sv_n sv - i)" using 2(6,7) 1(2) m i(1) by auto
      moreover have "pending (drop (if adv then i + 1 else i) (live sv')) \<le> m'" using 2(5) 1(4) pend less.prems(4) busy m by auto
      ultimately show ?thesis using less.hyps [of m' sv' "if adv then i + 1 else i" w'] 2(2-4,8) by fastforce
    qed
  qed
qed

lemma poll_ok:
  assumes "server_ok sv" "fds_ok (live sv) (events w)" "good (conn_data (live sv)) w"
  shows "\<exists>r sv' w'. server_poll K ctx sv w = Some (r, sv', w') \<and> server_ok sv' \<and> fds_ok (live sv') (events w') \<and>
    good (conn_data (live sv')) w' \<and> (0 < r \<longrightarrow> length (events w) < length (events w'))"
proof (cases "sv_n sv = 0")
  case True
  then show ?thesis using assms by (simp add: server_poll_def)
next
  case False
  obtain r revs w1 where w1: "sys_poll K (map (\<lambda>p. (pfd_fd p, pfd_events p)) (take (sv_n sv) (sv_pollfd sv))) w = (r, revs, w1)"
    by (metis prod_cases3)
  then obtain e where e: "w1 = emit (Poll e revs) w" by (auto simp: sys_poll_def Let_def split: prod.splits)
  have 1: "fds_ok (live sv) (events w1)" "good (conn_data (live sv)) w1"
    using assms(2,3) good_emit by (auto simp: e intro: fds_ok_mono simp: open_fds_emit)
  have len: "\<not> length (sv_pollfd sv) < sv_n sv" using assms(1) by (auto simp: server_ok_def)
  define sv1 where "sv1 = sv\<lparr>sv_pollfd := store_revents (take (sv_n sv) revs) (sv_pollfd sv)\<rparr>"
  have s: "server_ok sv1" "sv_n sv1 = sv_n sv" "conn_data (live sv1) = conn_data (live sv)" "fds_ok (live sv1) (events w1)"
    using revents_ok [OF assms(1), where revs = "take (sv_n sv) revs"] 1(1) by (simp_all add: sv1_def)
  have "pending (drop 0 (live sv1)) \<le> sv_n sv1" using length_live [OF s(1)] by (simp add: pending_def) (metis length_filter_le)
  then have "\<exists>sv' w'. server_poll_loop K ctx 0 sv1 w1 = Some (sv', w') \<and> server_ok sv' \<and> fds_ok (live sv') (events w') \<and>
    good (conn_data (live sv')) w' \<and> length (events w1) \<le> length (events w')"
    using poll_loop_ok [OF s(1,4), of 0 "sv_n sv1"] 1(2) s(2,3) by simp
  then show ?thesis using False len w1 1 assms(1) by (cases "r \<le> 0") (auto simp: server_poll_def e simp flip: sv1_def)
qed

text \<open>Freeing the server closes every connection, and then the listeners.\<close>

lemma free_conns_ok:
  assumes "server_ok sv" "i + k = sv_n sv" "good (conn_data (drop i (live sv))) w"
  shows "\<exists>w'. free_loop K ctx False k i sv w = Some w' \<and> good {#} w'"
  using assms(2,3)
proof (induction k arbitrary: i w)
  case 0
  then show ?case using length_live [OF assms(1)] by (simp add: conn_data_def)
next
  case (Suc k)
  then have i: "i < sv_n sv" "i < length (sv_socket sv)" "i < length (sv_pollfd sv)" using assms(1) by (auto simp: server_ok_def)
  define s where "s = sv_socket sv ! i"
  define p where "p = sv_pollfd sv ! i"
  have d: "drop i (live sv) = (s, p) # drop (i + 1) (live sv)"
    using live_nth [OF assms(1) i(1)] length_live [OF assms(1)] i(1) unfolding s_def p_def by (metis Cons_nth_drop_Suc Suc_eq_plus1)
  show ?case
  proof (cases "ss_is_listener s")
    case True
    then show ?thesis using Suc.IH [of "i + 1" w] Suc.prems i d by (simp add: s_def [symmetric] conn_data_def)
  next
    case False
    let ?D = "conn_data (drop (i + 1) (live sv))" and ?x = "(ss_data s, pfd_fd p)"
    have D: "conn_data (drop i (live sv)) = add_mset ?x ?D" using d False by (simp add: conn_data_def)
    have "dying ?x (add_mset ?x ?D) (emit (Close (pfd_fd p)) w)" using gives_up [OF Suc.prems(2)] D by (intro dying_close) simp
    then obtain w2 where w2: "cls (emit (Close (pfd_fd p)) w) (ss_data s) (ss_listener s) = Some w2" "good ?D w2" using closes by (metis add_mset_remove_trivial)
    then show ?thesis using Suc.IH [of "i + 1" w2] Suc.prems(1) i False upcalls(2) by (simp add: s_def [symmetric] p_def [symmetric] sys_close_def)
  qed
qed

lemma free_listeners_ok:
  assumes "server_ok sv" "i + k = sv_n sv" "good D w" "ctx_on_listener_close ctx = None"
  shows "\<exists>w'. free_loop K ctx True k i sv w = Some w' \<and> good D w'"
  using assms(2,3)
proof (induction k arbitrary: i w)
  case (Suc k)
  then have i: "i < length (sv_socket sv)" "i < length (sv_pollfd sv)" using assms(1) by (auto simp: server_ok_def)
  have "good D (emit (Close (pfd_fd (sv_pollfd sv ! i))) w)" by (rule good_emit [OF Suc.prems(2)]) simp_all
  then show ?case using Suc.IH [of "i + 1"] Suc.prems i assms(4) by (simp add: sys_close_def)
qed simp

lemma free_ok:
  assumes "server_ok sv" "good (conn_data (live sv)) w" "ctx_on_listener_close ctx = None"
  shows "\<exists>w'. server_free K ctx sv w = Some w' \<and> good {#} w'"
proof -
  obtain w1 where "free_loop K ctx False (sv_n sv) 0 sv w = Some w1" "good {#} w1" using free_conns_ok [OF assms(1), of 0] assms(2) by auto
  moreover obtain w2 where "free_loop K ctx True (sv_n sv) 0 sv w1 = Some w2" "good {#} w2"
    using free_listeners_ok [OF assms(1) _ calculation(2) assms(3), of 0] by auto
  ultimately show ?thesis by (simp add: server_free_def)
qed

end

end
