(* ===== verification/Server_Limit.thy ===== *)
theory Server_Limit
  imports Server_Safe
begin

text \<open>
  The limit on the number of sockets.  While the table is full every listener is disabled, so that \<^verbatim>\<open>poll\<close> reports no
  new connection, and a round of \<^verbatim>\<open>server_poll\<close> never takes the table beyond \<^verbatim>\<open>max_sockets\<close>, even when several
  listeners are ready at once.  
\<close>

subsection \<open>Definitions\<close>

text \<open>Every listener among the first \<open>k\<close> sockets is disabled, with no event pending.\<close>

definition silent :: "nat \<Rightarrow> 'c server \<Rightarrow> bool" where
  "silent k sv \<longleftrightarrow> (\<forall>i<k. \<forall>s p. nth_opt (sv_socket sv) i = Some s \<longrightarrow> nth_opt (sv_pollfd sv) i = Some p \<longrightarrow> ss_is_listener s \<longrightarrow>
     pfd_events p = 0 \<and> pfd_revents p = 0)"

definition limited :: "nat \<Rightarrow> 'c server \<Rightarrow> bool" where
  "limited m sv \<longleftrightarrow> sv_n sv \<le> m \<and> (sv_n sv = m \<longrightarrow> silent m sv)"

text \<open>\<^verbatim>\<open>poll\<close> reports only events that were asked for, as it does for sockets without an error condition.\<close>

definition asked_only :: "kernel \<Rightarrow> bool" where
  "asked_only K \<longleftrightarrow> (\<forall>ev fds i. i < length fds \<longrightarrow> i < length (snd (k_poll K ev fds)) \<longrightarrow> snd (fds ! i) = 0 \<longrightarrow> snd (k_poll K ev fds) ! i = 0)"

subsection \<open>The number of sockets\<close>

lemma resize_n: "server_resize K ctx n0 sv w = Some (r, sv', w') \<Longrightarrow> sv_n sv' = sv_n sv"
  by (auto simp: server_resize_def Let_def bind_eq_Some_conv split: if_splits)

lemma listen_enable_frame:
  "listen_enable_loop k i enable sv = Some sv' \<Longrightarrow> sv_n sv' = sv_n sv \<and> sv_socket sv' = sv_socket sv \<and>
     (\<forall>j<i. nth_opt (sv_pollfd sv') j = nth_opt (sv_pollfd sv) j)"
proof (induction k arbitrary: i sv)
  case (Suc k)
  then obtain l where l: "is_listener sv i = Some l" by (auto simp: bind_eq_Some_conv)
  show ?case
  proof (cases l)
    case True
    with Suc.prems l obtain p where p: "nth_opt (sv_pollfd sv) i = Some p" by (auto simp: bind_eq_Some_conv)
    from Suc.IH [of "i + 1"] Suc.prems l True p show ?thesis by (auto simp: Let_def nth_opt_def split: if_splits)
  next
    case False
    then show ?thesis using Suc.IH [of "i + 1" sv] Suc.prems l by auto
  qed
qed simp

lemma disable_silent:
  "listen_enable_loop k i False sv = Some sv' \<Longrightarrow> silent i sv \<Longrightarrow> silent (i + k) sv'"
proof (induction k arbitrary: i sv)
  case (Suc k)
  then obtain l where l: "is_listener sv i = Some l" by (auto simp: bind_eq_Some_conv)
  then obtain s where s: "nth_opt (sv_socket sv) i = Some s" "ss_is_listener s = l" by (auto simp: is_listener_def)
  show ?case
  proof (cases l)
    case True
    with Suc.prems l obtain p where p: "nth_opt (sv_pollfd sv) i = Some p" by (auto simp: bind_eq_Some_conv)
    let ?sv = "sv\<lparr>sv_pollfd := (sv_pollfd sv)[i := p\<lparr>pfd_revents := 0, pfd_events := 0\<rparr>]\<rparr>"
    have "silent (i + 1) ?sv" using Suc.prems(2) p by (auto simp: silent_def nth_opt_def less_Suc_eq split: if_splits)
    then show ?thesis using Suc.IH [of "i + 1" ?sv] Suc.prems(1) l True p by simp
  next
    case False
    then have "silent (i + 1) sv" using Suc.prems(2) s by (auto simp: silent_def less_Suc_eq)
    then show ?thesis using Suc.IH [of "i + 1" sv] Suc.prems(1) l False by simp
  qed
qed simp

lemma add_socket_limit:
  assumes "server_add_socket K ctx fd sv w = Some (i, sv', w')" "sv_n sv < max_sockets ctx"
  shows "limited (max_sockets ctx) sv'"
proof -
  obtain r sv1 w1 where 1: "server_resize K ctx (sv_n sv + 1) sv w = Some (r, sv1, w1)" using assms(1) by (auto simp: server_add_socket_def bind_eq_Some_conv Let_def)
  note n = resize_n [OF 1]
  show ?thesis
  proof (cases "r = -1")
    case True
    then show ?thesis using assms 1 n by (auto simp: server_add_socket_def limited_def)
  next
    case False
    then obtain pfd soc where e: "(if max_sockets ctx \<noteq> 0 \<and> max_sockets ctx \<le> Suc (sv_n sv)
        then server_listen_enable False (sv1\<lparr>sv_pollfd := pfd, sv_socket := soc, sv_n := Suc (sv_n sv)\<rparr>)
        else Some (sv1\<lparr>sv_pollfd := pfd, sv_socket := soc, sv_n := Suc (sv_n sv)\<rparr>)) = Some sv'"
      using assms(1) 1 n by (auto simp: server_add_socket_def bind_eq_Some_conv Let_def)
    define sv2 where "sv2 = sv1\<lparr>sv_pollfd := pfd, sv_socket := soc, sv_n := Suc (sv_n sv)\<rparr>"
    have "sv_n sv2 = sv_n sv + 1" "(if max_sockets ctx \<le> sv_n sv2 then server_listen_enable False sv2 else Some sv2) = Some sv'"
      using e assms(2) by (auto simp: sv2_def)
    then have 2: "sv_n sv2 = sv_n sv + 1" "if max_sockets ctx \<le> sv_n sv2 then server_listen_enable False sv2 = Some sv' else sv' = sv2" by (auto split: if_splits)
    show ?thesis
    proof (cases "max_sockets ctx \<le> sv_n sv2")
      case True
      then have "listen_enable_loop (sv_n sv2) 0 False sv2 = Some sv'" using 2(2) by (simp add: server_listen_enable_def)
      from listen_enable_frame [OF this] disable_silent [OF this] have "sv_n sv' = sv_n sv2" "silent (sv_n sv2) sv'" by (simp_all add: silent_def)
      moreover have "sv_n sv2 = max_sockets ctx" using True 2(1) assms(2) by simp
      ultimately show ?thesis by (simp add: limited_def)
    next
      case False
      then show ?thesis using 2(2) by (simp add: limited_def)
    qed
  qed
qed

lemma scan_limit: "add_fd_scan k i fd data l sv = Some sv' \<Longrightarrow> limited m sv \<Longrightarrow> limited m sv'"
proof (induction k arbitrary: i)
  case (Suc k)
  then obtain p where p: "nth_opt (sv_pollfd sv) i = Some p" by (auto simp: bind_eq_Some_conv)
  show ?case
  proof (cases "pfd_fd p = fd")
    case True
    with Suc.prems p obtain s where s: "nth_opt (sv_socket sv) i = Some s" "sv' = sv\<lparr>sv_socket := (sv_socket sv)[i := s\<lparr>ss_data := data, ss_listener := l\<rparr>]\<rparr>"
      by (auto simp: bind_eq_Some_conv)
    then have "silent m sv \<Longrightarrow> silent m sv'" by (auto simp: silent_def nth_opt_def nth_list_update split: if_splits)
    then show ?thesis using Suc.prems(2) s(2) by (simp add: limited_def)
  next
    case False
    then show ?thesis using Suc.IH [of "i + 1"] Suc.prems p by simp
  qed
qed simp

lemma add_fd_limit:
  assumes "server_add_fd K ctx fd l sv w = Some (r, sv', w')" "sv_n sv < max_sockets ctx"
  shows "limited (max_sockets ctx) sv'"
proof (cases "fd = -1")
  case True
  then show ?thesis using assms by (simp add: server_add_fd_def limited_def)
next
  case False
  then obtain i sv1 w1 where 1: "server_add_socket K ctx fd sv w = Some (i, sv1, w1)" using assms(1) by (auto simp: server_add_fd_def bind_eq_Some_conv)
  have "sv' = sv1 \<or> (\<exists>data. add_fd_scan (sv_n sv1) 0 fd data l sv1 = Some sv')"
    using assms(1) False 1 by (auto simp: server_add_fd_def bind_eq_Some_conv split: if_splits option.splits)
  then show ?thesis using add_socket_limit [OF 1 assms(2)] scan_limit by blast
qed

lemma accept_limit:
  assumes "server_accept K ctx lfd l sv w = Some (sv', w')" "sv_n sv < max_sockets ctx"
  shows "limited (max_sockets ctx) sv'"
proof -
  have "sv' = sv \<or> (\<exists>r w1 w2. server_add_fd K ctx (k_accept K (events w) lfd) l sv w1 = Some (r, sv', w2))"
    using assms(1) by (auto simp: server_accept_def sys_accept_def sys_close_def Let_def bind_eq_Some_conv split: if_splits)
  moreover have "limited (max_sockets ctx) sv" using assms(2) by (simp add: limited_def)
  ultimately show ?thesis using add_fd_limit assms(2) by blast
qed

lemma delete_steps:
  assumes "close_delete_socket K ctx i sv w = Some (sv', w')"
  shows "\<exists>w3 sv1 sv3 x. (if i < sv_n sv - 1 then do {
       pl \<leftarrow> nth_opt (sv_pollfd sv) (sv_n sv - 1); sl \<leftarrow> nth_opt (sv_socket sv) (sv_n sv - 1);
       Some (sv\<lparr>sv_pollfd := (sv_pollfd sv)[i := pl], sv_socket := (sv_socket sv)[i := sl]\<rparr>) } else Some sv) = Some sv1 \<and>
    (if max_sockets ctx \<noteq> 0 \<and> sv_n (sv1\<lparr>sv_n := sv_n sv1 - 1\<rparr>) = max_sockets ctx - 1
      then server_listen_enable True (sv1\<lparr>sv_n := sv_n sv1 - 1\<rparr>) else Some (sv1\<lparr>sv_n := sv_n sv1 - 1\<rparr>)) = Some sv3 \<and>
    server_resize K ctx (sv_n sv3) sv3 w3 = Some x \<and> snd x = (sv', w')"
proof -
  have elim: "Option.bind m f = Some y \<Longrightarrow> (\<And>x. m = Some x \<Longrightarrow> f x = Some y \<Longrightarrow> P) \<Longrightarrow> P" for m :: "'x option" and f :: "'x \<Rightarrow> 'y option" and y P
    by (cases m) auto
  have snd: "(case x of (r, b) \<Rightarrow> Some b) = Some y \<longleftrightarrow> snd x = y" for x :: "int \<times> 'b server \<times> 'a net_scheme" and y by (cases x) auto
  obtain soc pfd where at: "nth_opt (sv_socket sv) i = Some soc" "nth_opt (sv_pollfd sv) i = Some pfd"
    using assms by (auto simp: close_delete_socket_def bind_eq_Some_conv Let_def)
  have "\<not> ss_is_listener soc" using assms at by (auto simp: close_delete_socket_def)
  with assms at show ?thesis unfolding close_delete_socket_def Let_def sys_close_def
    by (simp only: Option.bind.simps if_False prod.case) (erule elim, erule elim, erule elim, erule elim, erule elim, simp only: case_prod_beta prod.collapse option.inject snd, blast)
qed

lemma delete_n:
  assumes "close_delete_socket K ctx i sv w = Some (sv', w')"
  shows "sv_n sv' = sv_n sv - 1"
proof -
  obtain w3 sv1 sv3 x where 1: "(if i < sv_n sv - 1 then do {
       pl \<leftarrow> nth_opt (sv_pollfd sv) (sv_n sv - 1); sl \<leftarrow> nth_opt (sv_socket sv) (sv_n sv - 1);
       Some (sv\<lparr>sv_pollfd := (sv_pollfd sv)[i := pl], sv_socket := (sv_socket sv)[i := sl]\<rparr>) } else Some sv) = Some sv1"
    "(if max_sockets ctx \<noteq> 0 \<and> sv_n (sv1\<lparr>sv_n := sv_n sv1 - 1\<rparr>) = max_sockets ctx - 1
      then server_listen_enable True (sv1\<lparr>sv_n := sv_n sv1 - 1\<rparr>) else Some (sv1\<lparr>sv_n := sv_n sv1 - 1\<rparr>)) = Some sv3"
    "server_resize K ctx (sv_n sv3) sv3 w3 = Some x" "snd x = (sv', w')" using delete_steps [OF assms] by blast
  have "sv_n sv1 = sv_n sv" using 1(1) by (auto simp: bind_eq_Some_conv split: if_splits)
  then have "sv_n sv3 = sv_n sv - 1"
    using 1(2) listen_enable_frame [of _ 0 True "sv1\<lparr>sv_n := sv_n sv1 - 1\<rparr>" sv3] by (auto simp: server_listen_enable_def split: if_splits)
  then show ?thesis using resize_n [of K ctx _ sv3 w3 "fst x" sv' w'] 1(3,4) by (cases x) auto
qed

lemma serve_limit:
  assumes "serve_socket K ctx i sv w = Some (a, sv', w')" "limited (max_sockets ctx) sv" "i < sv_n sv"
    "\<And>s. nth_opt (sv_socket sv) i = Some s \<Longrightarrow> ss_is_listener s \<Longrightarrow> sv_n sv < max_sockets ctx"
  shows "limited (max_sockets ctx) sv'"
proof -
  obtain s p where sp: "nth_opt (sv_socket sv) i = Some s" "nth_opt (sv_pollfd sv) i = Some p" using assms(1) by (auto simp: serve_socket_def bind_eq_Some_conv)
  show ?thesis
  proof (cases "ss_is_listener s")
    case True
    then have "server_accept K ctx (pfd_fd p) (ss_listener s) sv w = Some (sv', w')" using assms(1) sp by (auto simp: serve_socket_def bind_eq_Some_conv)
    then show ?thesis using accept_limit assms(4) sp(1) True by blast
  next
    case False
    then have "sv' = sv \<or> (\<exists>w2. close_delete_socket K ctx i sv w2 = Some (sv', w'))"
      using assms(1) sp by (auto simp: serve_socket_def bind_eq_Some_conv split: if_splits)
    then show ?thesis using assms(2,3) delete_n by (fastforce simp: limited_def)
  qed
qed

lemma pass_limit:
  assumes "limited (max_sockets ctx) sv" "i < sv_n sv" "nth_opt (sv_pollfd sv) i = Some p" "pfd_revents p \<noteq> 0"
    "serve_socket K ctx i (sv\<lparr>sv_pollfd := (sv_pollfd sv)[i := p\<lparr>pfd_revents := 0\<rparr>]\<rparr>) w = Some (a, sv', w')"
  shows "limited (max_sockets ctx) sv'"
proof (rule serve_limit [OF assms(5)])
  show "limited (max_sockets ctx) (sv\<lparr>sv_pollfd := (sv_pollfd sv)[i := p\<lparr>pfd_revents := 0\<rparr>]\<rparr>)"
    using assms(1,3) by (auto simp: limited_def silent_def nth_opt_def nth_list_update split: if_splits)
  show "i < sv_n (sv\<lparr>sv_pollfd := (sv_pollfd sv)[i := p\<lparr>pfd_revents := 0\<rparr>]\<rparr>)" using assms(2) by simp
  fix s assume "nth_opt (sv_socket (sv\<lparr>sv_pollfd := (sv_pollfd sv)[i := p\<lparr>pfd_revents := 0\<rparr>]\<rparr>)) i = Some s" "ss_is_listener s"
  then have "\<not> silent (sv_n sv) sv" using assms(2-4) by (auto simp: silent_def)
  then show "sv_n (sv\<lparr>sv_pollfd := (sv_pollfd sv)[i := p\<lparr>pfd_revents := 0\<rparr>]\<rparr>) < max_sockets ctx"
    using assms(1) by (cases "sv_n sv = max_sockets ctx") (auto simp: limited_def)
qed

lemma poll_loop_limit: "server_poll_loop K ctx i sv w = Some r \<Longrightarrow> limited (max_sockets ctx) sv \<longrightarrow> limited (max_sockets ctx) (fst r)"
proof (rule server_poll_loop.raw_induct [where P = "\<lambda>K ctx i sv w r. limited (max_sockets ctx) sv \<longrightarrow> limited (max_sockets ctx) (fst r)"])
  fix f K ctx i sv w r
  assume 1: "\<And>K ctx i sv w r. f K ctx i sv w = Some r \<Longrightarrow> limited (max_sockets ctx) sv \<longrightarrow> limited (max_sockets ctx) (fst r)"
    "(if sv_n sv \<le> i then Some (sv, w) else Option.bind (nth_opt (sv_pollfd sv) i) (\<lambda>pfd. if pfd_revents pfd = 0 then f K ctx (i + 1) sv w
      else Option.bind (serve_socket K ctx i (sv\<lparr>sv_pollfd := (sv_pollfd sv)[i := pfd\<lparr>pfd_revents := 0\<rparr>]\<rparr>) w)
        (\<lambda>(advance, sv1, w1). f K ctx (if advance then i + 1 else i) sv1 w1))) = Some r"
  show "limited (max_sockets ctx) sv \<longrightarrow> limited (max_sockets ctx) (fst r)"
  proof (cases "sv_n sv \<le> i")
    case False
    then obtain p where p: "nth_opt (sv_pollfd sv) i = Some p" using 1(2) by (auto simp: bind_eq_Some_conv)
    show ?thesis
    proof (cases "pfd_revents p = 0")
      case True
      then show ?thesis using 1 False p by simp
    next
      case rev: False
      then obtain a sv1 w1 where s: "serve_socket K ctx i (sv\<lparr>sv_pollfd := (sv_pollfd sv)[i := p\<lparr>pfd_revents := 0\<rparr>]\<rparr>) w = Some (a, sv1, w1)"
        "f K ctx (if a then i + 1 else i) sv1 w1 = Some r" using 1(2) False p by (auto simp: bind_eq_Some_conv)
      show ?thesis using 1(1) [OF s(2)] pass_limit [OF _ _ p rev s(1)] False by simp
    qed
  qed (use 1(2) in auto)
qed

lemma poll_limit:
  assumes "server_poll K ctx sv w = Some (r, sv', w')" "limited (max_sockets ctx) sv" "asked_only K"
  shows "limited (max_sockets ctx) sv'"
proof (cases "sv' = sv")
  case False
  let ?fds = "map (\<lambda>p. (pfd_fd p, pfd_events p)) (take (sv_n sv) (sv_pollfd sv))"
  define revs where "revs = take (sv_n sv) (snd (k_poll K (events w) ?fds))"
  define sv1 where "sv1 = sv\<lparr>sv_pollfd := store_revents revs (sv_pollfd sv)\<rparr>"
  obtain w1 w2 where w1: "server_poll_loop K ctx 0 sv1 w1 = Some (sv', w2)"
    using assms(1) False by (auto simp: server_poll_def sys_poll_def Let_def bind_eq_Some_conv sv1_def revs_def split: if_splits prod.splits)
  have "pfd_events p = 0 \<and> pfd_revents p = 0"
    if "silent m sv" "i < m" "m = sv_n sv" "nth_opt (sv_socket sv) i = Some s" "nth_opt (sv_pollfd sv1) i = Some p" "ss_is_listener s" for i m s p
  proof -
    have i: "i < length (sv_pollfd sv)" using that(5) by (auto simp: nth_opt_def sv1_def store_revents_def split: if_splits)
    then have p: "p = (if i < length revs then (sv_pollfd sv ! i)\<lparr>pfd_revents := revs ! i\<rparr> else sv_pollfd sv ! i)"
      using that(5) by (auto simp: nth_opt_def sv1_def store_revents_def nth_append split: if_splits)
    have "pfd_events (sv_pollfd sv ! i) = 0" "pfd_revents (sv_pollfd sv ! i) = 0" using that i by (auto simp: silent_def)
    moreover have "revs ! i = 0" if "i < length revs"
      using assms(3) that i \<open>i < m\<close> \<open>m = sv_n sv\<close> calculation(1) by (auto simp: asked_only_def revs_def)
    ultimately show ?thesis using p by auto
  qed
  moreover have "sv_socket sv1 = sv_socket sv" "sv_n sv1 = sv_n sv" by (simp_all add: sv1_def)
  ultimately have "silent (sv_n sv) sv \<Longrightarrow> silent (sv_n sv) sv1" unfolding silent_def [of _ sv1] by (metis (no_types))
  then have "limited (max_sockets ctx) sv1" using assms(2) \<open>sv_n sv1 = sv_n sv\<close> by (auto simp: limited_def)
  then show ?thesis using poll_loop_limit [OF w1] by simp
qed (use assms(2) in simp)

lemma resize_exact:
  assumes "server_ok sv" "sv_n sv \<le> n" "n < 2 ^ 32 - 16" "\<And>sz. os_realloc (k_os K) sz"
  shows "\<exists>sv'. server_resize K ctx n sv w = Some (0, sv', w) \<and> server_ok sv' \<and> live sv' = live sv \<and> n \<le> sv_nmax sv' \<and> sv_nmax sv' < n + INCREMENT"
proof -
  define n1 where "n1 = (if n mod INCREMENT \<noteq> 0 then n + (INCREMENT - n mod INCREMENT) else n)"
  have n1: "n \<le> n1" "INCREMENT dvd n1" "n1 < 2 ^ 32" "n1 < n + 16" using roundup_increment [OF n1_def] assms(3) by auto
  have ok: "sv_n sv \<le> sv_nmax sv" "sv_nmax sv \<le> length (sv_socket sv)" "sv_nmax sv \<le> length (sv_pollfd sv)"
    "INCREMENT dvd sv_nmax sv" "sv_nmax sv < 2 ^ 32" using assms(1) by (auto simp: server_ok_def)
  have keep: "sv_n sv \<le> n1" using assms(2) n1(1) by simp
  have "sub32 (sv_nmax sv) 1 \<noteq> n1" using no_hysteresis [OF ok(4) n1(2) ok(5) n1(3)] .
  then have "\<exists>sv'. server_resize K ctx n sv w = Some (0, sv', w) \<and> server_ok sv' \<and> live sv' = live sv \<and> sv_nmax sv' = n1"
    using assms(2,4) ok keep n1(2,3) unfolding server_resize_def n1_def [symmetric] Let_def
    by (cases "sv_nmax sv = n1") (auto simp: server_ok_def live_def take_realloc)
  then show ?thesis using n1 by (auto simp: INCREMENT_def)
qed

end
