(* ===== verification/Infod_Safe.thy ===== *)
theory Infod_Safe
  imports Infod_Correct Infod_Main Proto_Safe Server_Limit
begin

text \<open>
  The daemon as a whole: the poll loop, the translators and the message handler together.  With peers that
  do not use the text protocol a round of the loop never faults, whatever they send and whatever the
  network does, and it keeps the invariant \<open>daemon_ok\<close>.  The contracts of the translator and
  of the server are met by the daemon's own callbacks.
\<close>

subsection \<open>Definitions\<close>

text \<open>
  What is assumed of the system: no connection starts with a byte of the text protocol, none brings
  4 GiB, and there is memory for a client record.  Replies in the text protocol can overflow the output buffer,
  \<open>2 ^ 32\<close> nested \<^verbatim>\<open>BEGIN\<close>s wrap around, and the upcalls dereference a missing client record.
\<close>

definition binary_peers :: "kernel \<Rightarrow> bool" where
  "binary_peers K \<longleftrightarrow> (\<forall>ev fd b bs. received ev fd = 0 \<longrightarrow> k_read K ev fd = Some (b # bs) \<longrightarrow> autodetect b \<noteq> PROTO_MODE_TEXT)"

definition short_connections :: "kernel \<Rightarrow> bool" where
  "short_connections K \<longleftrightarrow> (\<forall>ev fd bs. k_read K ev fd = Some bs \<longrightarrow> received ev fd + length (take PROTO_RECVSZ bs) < 2 ^ 32)"

definition kernel_ok :: "kernel \<Rightarrow> bool" where
  "kernel_ok K \<longleftrightarrow> os_sane (k_os K) \<and> os_realloc (k_os K) 80 \<and> os_realloc (k_os K) 152 \<and> fresh_accept K \<and> binary_peers K \<and> short_connections K"

text \<open>
  A client record: the counter of the subscriptions is right and bounded, at most \<open>n\<close> \<^verbatim>\<open>BEGIN\<close>s are open, and
  the tail pointer of the buffered commands is in place while there are any.
\<close>

definition client_ok :: "nat \<Rightarrow> client \<Rightarrow> bool" where
  "client_ok n cl \<longleftrightarrow> c_nsubs cl = length (c_subs cl) \<and> length (c_subs cl) \<le> MAX_SUBS + 1 \<and> c_nbufcmds cl = 0 \<and> c_begins cl \<le> n \<and>
     (if c_begins cl = 0 then c_bufcmds cl = []
      else c_bufcmd_tail cl = Some (length (c_bufcmds cl)) \<and> list_all (\<lambda>b. plain_cmd (bc_msg b, bc_data b)) (c_bufcmds cl))"

definition link_ok :: "event list \<Rightarrow> client \<Rightarrow> bool" where
  "link_ok ev cl \<longleftrightarrow> proto_ok (c_proto cl) \<and>
     (p_mode (c_proto cl) = PROTO_MODE_BINARY \<or> p_mode (c_proto cl) = PROTO_MODE_FRAMED \<or>
      p_mode (c_proto cl) = PROTO_MODE_UNKNOWN \<and> c_subs cl = [] \<and> received ev (c_fd cl) = 0)"

text \<open>The state of the daemon with connections \<open>D\<close>; of the clients in \<open>X\<close> only the record must be there.\<close>

definition daemon_ok :: "kernel \<Rightarrow> nat set \<Rightarrow> (nat option \<times> int) multiset \<Rightarrow> infod \<Rightarrow> bool" where
  "daemon_ok K X D w \<longleftrightarrow> kernel_ok K \<and> (\<exists>kvs. store_holds (the_store w) kvs) \<and> distinct (all_clients w) \<and>
     D = image_mset (\<lambda>c. (Some c, c_fd (the (i_heap w c)))) (mset (all_clients w)) \<and>
     inj_on (\<lambda>c. c_fd (the (i_heap w c))) (set (all_clients w)) \<and>
     (\<forall>c\<in>set (all_clients w). c < i_brk w \<and> (\<exists>cl. i_heap w c = Some cl \<and>
        (c \<notin> X \<longrightarrow> client_ok (received (events w) (c_fd cl)) cl \<and> link_ok (events w) cl)))"

text \<open>The daemon while client \<open>c\<close> is served, with \<open>n\<close> more bytes to decode; \<open>ev\<close> is the history at the start.\<close>

definition serving :: "kernel \<Rightarrow> (nat option \<times> int) multiset \<Rightarrow> event list \<Rightarrow> nat \<Rightarrow> infod \<Rightarrow> bool" where
  "serving K D ev c w \<longleftrightarrow> daemon_ok K {c} D w \<and> continues {} ev (events w)"

text \<open>What a message of client \<open>c\<close>, whose record was \<open>cl\<close>, leaves behind; after a positive result at most \<open>n\<close> \<^verbatim>\<open>BEGIN\<close>s are open.\<close>

definition served :: "kernel \<Rightarrow> (nat option \<times> int) multiset \<Rightarrow> event list \<Rightarrow> nat \<Rightarrow> client \<Rightarrow> nat \<Rightarrow> infod \<Rightarrow> int \<Rightarrow> infod \<Rightarrow> bool" where
  "served K D ev c cl n w r w' \<longleftrightarrow> serving K D ev c w' \<and> all_clients w' = all_clients w \<and>
     received (events w') (c_fd cl) = received (events w) (c_fd cl) \<and>
     (\<exists>cl'. i_heap w' c = Some cl' \<and> c_proto cl' = c_proto cl \<and> c_fd cl' = c_fd cl \<and> (0 < r \<longrightarrow> client_ok n cl'))"

definition listening :: "kernel \<Rightarrow> (nat option \<times> int) multiset \<Rightarrow> event list \<Rightarrow> nat \<Rightarrow> nat \<Rightarrow> infod \<Rightarrow> bool" where
  "listening K D ev c n w \<longleftrightarrow> serving K D ev c w \<and> c \<in> set (all_clients w) \<and> (\<exists>cl. i_heap w c = Some cl \<and>
     (\<exists>k. k + n \<le> received (events w) (c_fd cl) \<and> received (events w) (c_fd cl) < 2 ^ 32 \<and> client_ok k cl) \<and> (c_subs cl \<noteq> [] \<longrightarrow> talks cl))"

definition no_text :: "int \<Rightarrow> bool" where
  "no_text mode \<longleftrightarrow> mode = PROTO_MODE_BINARY \<or> mode = PROTO_MODE_FRAMED"

definition closing :: "kernel \<Rightarrow> nat option \<times> int \<Rightarrow> (nat option \<times> int) multiset \<Rightarrow> infod \<Rightarrow> bool" where
  "closing K d D w \<longleftrightarrow> (\<exists>c. fst d = Some c \<and> d \<in># D \<and> daemon_ok K {c} D w)"

text \<open>A busy system, in which every descriptor is always ready for what it is polled for and each connection sends a \<^verbatim>\<open>PING\<close>; a server with one listener.\<close>

definition busy_kernel :: kernel where
  "busy_kernel = sample_kernel\<lparr>k_accept := (\<lambda>ev l. if 4 \<in> open_fds ev then -1 else 4),
     k_poll := (\<lambda>ev fds. (int (length fds), map snd fds)),
     k_read := (\<lambda>ev fd. if received ev fd = 0 then Some [CMD_PING, 0, 1, 65] else None)\<rparr>"

definition listening_server :: infod_server where
  "listening_server = \<lparr>sv_n = 1, sv_nmax = 16,
     sv_socket = replicate 16 \<lparr>ss_data = None, ss_listener = Some tcp_listener, ss_is_listener = True\<rparr>,
     sv_pollfd = replicate 16 \<lparr>pfd_fd = 3, pfd_events = POLLIN, pfd_revents = 0\<rparr>\<rparr>"

definition idle_infod :: infod where
  "idle_infod = sample_infod\<lparr>events := [Socket 2 3], i_heap := (\<lambda>_. None), all_clients := []\<rparr>"

subsection \<open>Steps that keep the invariant\<close>

lemma client_ok_mono: "client_ok n cl \<Longrightarrow> n \<le> m \<Longrightarrow> client_ok m cl"
  by (auto simp: client_ok_def)

lemma daemon_ok_weaken: "daemon_ok K X D w \<Longrightarrow> X \<subseteq> Y \<Longrightarrow> daemon_ok K Y D w"
  by (fastforce simp: daemon_ok_def)

text \<open>Only the history, the store and the record of \<open>c\<close> change.\<close>

lemma daemon_ok_step:
  assumes "daemon_ok K X D w" "i_heap w c = Some cl" "i_heap w' = (i_heap w)(c := Some cl')" "c_fd cl' = c_fd cl" "c \<in> X"
    "all_clients w' = all_clients w" "i_brk w' = i_brk w" "\<exists>kvs. store_holds (the_store w') kvs"
    "\<And>c' cl. c' \<in> set (all_clients w) \<Longrightarrow> c' \<notin> X \<Longrightarrow> i_heap w c' = Some cl \<Longrightarrow> received (events w') (c_fd cl) = received (events w) (c_fd cl)"
  shows "daemon_ok K X D w'"
proof -
  have fd: "c_fd (the (i_heap w' c')) = c_fd (the (i_heap w c'))" for c' using assms(2-4) by simp
  have "\<exists>cl. i_heap w' c' = Some cl \<and> (c' \<notin> X \<longrightarrow> client_ok (received (events w') (c_fd cl)) cl \<and> link_ok (events w') cl)"
    if "c' \<in> set (all_clients w)" for c'
    using that assms(1,3,5) assms(9) [OF that] by (cases "c' = c") (auto simp: daemon_ok_def link_ok_def)
  then show ?thesis using assms(1,6-8) unfolding daemon_ok_def fd by auto
qed

lemma output_continues: "output_only w w' \<Longrightarrow> continues {} (events w) (events w')"
proof -
  have "quiet_event e \<Longrightarrow> harmless {} e" for e by (cases e) auto
  then show "output_only w w' \<Longrightarrow> continues {} (events w) (events w')" by (auto simp: output_only_def continues_def list_all_iff)
qed

lemma output_received: "output_only w w' \<Longrightarrow> received (events w') fd = received (events w) fd"
  using continues_received [OF output_continues] by simp

lemma daemon_ok_output:
  assumes "daemon_ok K X D w" "output_only w w'"
  shows "daemon_ok K X D w'"
  using assms(1) output_only_simps [OF assms(2)] output_received [OF assms(2)] by (simp add: daemon_ok_def link_ok_def)

lemma handled_received: "handled c cl w w' \<Longrightarrow> received (events w') fd = received (events w) fd"
  by (auto simp: handled_def set_client_def dest!: output_received)

lemma handled_continues: "handled c cl w w' \<Longrightarrow> continues {} (events w) (events w')"
  by (auto simp: handled_def set_client_def dest!: output_continues)

lemma handled_simps:
  assumes "handled c cl' w w'"
  shows "i_heap w' = (i_heap w)(c := Some cl')" "all_clients w' = all_clients w" "i_brk w' = i_brk w" "\<exists>kvs. store_holds (the_store w') kvs" "i_options w' = i_options w"
proof -
  obtain s kvs where s: "store_holds s kvs" "output_only (set_client c cl' (w\<lparr>the_store := s\<rparr>)) w'" using assms by (auto simp: handled_def)
  from output_only_simps [OF s(2)] s(1) show "i_heap w' = (i_heap w)(c := Some cl')" "all_clients w' = all_clients w" "i_brk w' = i_brk w"
    "\<exists>kvs. store_holds (the_store w') kvs" "i_options w' = i_options w" by (auto simp: set_client_def)
qed

lemma handled_after:
  assumes "output_only w w1" "handled c cl w1 w'"
  shows "handled c cl w w'"
proof -
  obtain es where es: "w1 = w\<lparr>events := events w @ es\<rparr>" "list_all quiet_event es" using assms(1) by (auto simp: output_only_def)
  obtain s kvs where s: "store_holds s kvs" "output_only (set_client c cl (w1\<lparr>the_store := s\<rparr>)) w'" using assms(2) by (auto simp: handled_def)
  have "output_only (set_client c cl (w\<lparr>the_store := s\<rparr>)) (set_client c cl (w1\<lparr>the_store := s\<rparr>))"
    unfolding output_only_def using es by (intro exI [of _ es]) (cases w; simp add: set_client_def)
  then show ?thesis using s output_only_trans by (auto simp: handled_def)
qed

lemma daemon_ok_handled:
  assumes "daemon_ok K X D w" "i_heap w c = Some cl" "c \<in> X" "c_fd cl' = c_fd cl" "handled c cl' w w'"
  shows "daemon_ok K X D w'"
  using handled_simps [OF assms(5)] handled_received [OF assms(5)] by (intro daemon_ok_step [OF assms(1,2) _ assms(4,3)]) auto

lemma daemon_ok_set:
  assumes "daemon_ok K X D w" "i_heap w c = Some cl" "c \<in> X" "c_fd cl' = c_fd cl"
  shows "daemon_ok K X D (set_client c cl' w)"
  using assms(1) by (intro daemon_ok_step [OF assms(1,2) _ assms(4,3)]) (auto simp: set_client_def daemon_ok_def)

lemma daemon_listens:
  assumes "daemon_ok K {c} D w" "i_heap w c = Some cl" "c_subs cl \<noteq> [] \<longrightarrow> talks cl"
  shows "clients_listen w"
proof -
  have "\<exists>cl. i_heap w c' = Some cl \<and> (c_subs cl \<noteq> [] \<longrightarrow> talks cl)" if c': "c' \<in> set (all_clients w)" for c'
  proof (cases "c' = c")
    case True
    then show ?thesis using assms by simp
  next
    case False
    then obtain cl' where "i_heap w c' = Some cl'" "link_ok (events w) cl'" using assms(1) c' by (auto simp: daemon_ok_def)
    then show ?thesis by (auto simp: link_ok_def talks_def proto_ok_def ptrs_ok_def)
  qed
  then show ?thesis by (simp add: clients_listen_def)
qed

subsection \<open>The message handler\<close>

lemma log_input_ok: "i_heap w c = Some cl \<Longrightarrow> \<exists>w1. log_input K c m d w = Some w1 \<and> output_only w w1"
proof -
  have "\<exists>line. log_input_verbose K cl m d w = log_msgf line w" unfolding log_input_verbose_def Let_def by (rule exI, rule refl)
  then have "output_only w (log_input_verbose K cl m d w)" using output_only_log [OF output_only_refl] by auto
  then show "i_heap w c = Some cl \<Longrightarrow> \<exists>w1. log_input K c m d w = Some w1 \<and> output_only w w1" by (simp add: log_input_def)
qed

lemma depth_command:
  assumes "daemon_ok K {c} D w" "i_heap w c = Some cl" "talks cl" "c_begins cl = 0" "c_nsubs cl = length (c_subs cl)" "length (c_subs cl) \<le> MAX_SUBS + 1"
    "plain_cmd (m, d)"
  shows "\<exists>r w' subs. on_app_input_depth (Suc k) K c m d w = Some (r, w') \<and> length subs \<le> MAX_SUBS + 1 \<and>
    handled c (cl\<lparr>c_subs := subs, c_nsubs := length subs\<rparr>) w w'"
proof -
  have md: "m \<noteq> CMD_BEGIN" "m \<noteq> MSG_EOF" "length d < 65536" using assms(7) by (simp_all add: plain_cmd_def)
  obtain w1 where w1: "log_input K c m d w = Some w1" "output_only w w1" using log_input_ok [OF assms(2)] by blast
  have h1: "i_heap w1 c = Some cl" using output_only_simps(2) [OF w1(2)] assms(2) by simp
  have d1: "daemon_ok K {c} D w1" using daemon_ok_output [OF assms(1) w1(2)] .
  then obtain kvs where kvs: "store_holds (the_store w1) kvs" and sane: "os_sane (k_os K)" by (auto simp: daemon_ok_def kernel_ok_def)
  have "app_command K c m d w1 = command K c cl m d w1"
    using app_command_eq [OF h1 assms(3) daemon_listens [OF d1 h1] md(3) sane kvs] assms(3) by simp
  moreover obtain r w' subs where "command K c cl m d w1 = Some (r, w')" "length subs \<le> MAX_SUBS + 1" "handled c (cl\<lparr>c_subs := subs, c_nsubs := length subs\<rparr>) w1 w'"
    using command_handled [OF h1 md(3) sane kvs md(1) assms(5,6)] by blast
  ultimately show ?thesis using w1 h1 md assms(4) handled_after [OF w1(2)] by auto
qed

text \<open>The state of the client at the end of a playback.\<close>

lemma playback_ok:
  assumes "daemon_ok K {c} D w" "i_heap w c = Some cl" "talks cl" "c_begins cl = 0" "c_nsubs cl = length (c_subs cl)" "length (c_subs cl) \<le> MAX_SUBS + 1"
    "list_all (\<lambda>b. plain_cmd (bc_msg b, bc_data b)) (c_bufcmds cl)" "c_nbufcmds cl = 0" "continues {} ev (events w)"
    and H: "H = on_app_input_depth 1 K c"
  shows "\<exists>r w'. playback H (length (c_bufcmds cl) + 1) c w = Some (r, w') \<and> served K D ev c cl 0 w r w'"
  using assms(1-9)
proof (induction "c_bufcmds cl" arbitrary: w cl)
  case Nil
  have "c_bufcmds cl = []" using Nil.hyps by simp
  then show ?case using Nil.prems by (intro exI [of _ 1] exI [of _ w]) (simp add: served_def serving_def client_ok_def)
next
  case (Cons b bs)
  have buf: "c_bufcmds cl = b # bs" using Cons.hyps(2) by simp
  define cl1 where "cl1 = cl\<lparr>c_bufcmds := bs\<rparr>"
  define w1 where "w1 = set_client c cl1 w"
  have h1: "i_heap w1 c = Some cl1" by (simp add: w1_def set_client_def)
  have d1: "daemon_ok K {c} D w1" using daemon_ok_set [OF Cons.prems(1,2), of cl1] by (simp add: w1_def cl1_def)
  have t1: "talks cl1" "c_begins cl1 = 0" "c_nsubs cl1 = length (c_subs cl1)" "length (c_subs cl1) \<le> MAX_SUBS + 1" using Cons.prems by (simp_all add: cl1_def talks_def)
  have "plain_cmd (bc_msg b, bc_data b)" and bs: "list_all (\<lambda>b. plain_cmd (bc_msg b, bc_data b)) bs" using Cons.prems(7) by (simp_all add: buf)
  from depth_command [OF d1 h1 t1 this(1), of 0] obtain r w2 subs where w2: "H (bc_msg b) (bc_data b) w1 = Some (r, w2)"
    "length subs \<le> MAX_SUBS + 1" "handled c (cl1\<lparr>c_subs := subs, c_nsubs := length subs\<rparr>) w1 w2"
    unfolding H One_nat_def by blast
  define cl2 where "cl2 = cl1\<lparr>c_subs := subs, c_nsubs := length subs\<rparr>"
  note hs = handled_simps [OF w2(3) [folded cl2_def]]
  have h2: "i_heap w2 c = Some cl2" using hs(1) by simp
  have d2: "daemon_ok K {c} D w2" using daemon_ok_handled [OF d1 h1, of cl2] w2(3) by (simp add: cl2_def)
  have rec: "received (events w2) fd = received (events w) fd" for fd using handled_received [OF w2(3)] by (simp add: w1_def set_client_def)
  have ev: "continues {} ev (events w2)" using continues_trans [OF Cons.prems(9)] handled_continues [OF w2(3)] by (simp add: w1_def set_client_def)
  show ?case
  proof (cases "0 < r")
    case True
    have b2: "bs = c_bufcmds cl2" by (simp add: cl2_def cl1_def)
    have "talks cl2" "c_begins cl2 = 0" "c_nsubs cl2 = length (c_subs cl2)" "length (c_subs cl2) \<le> MAX_SUBS + 1" "c_nbufcmds cl2 = 0"
      using t1 w2(2) Cons.prems(8) by (simp_all add: cl2_def cl1_def talks_def)
    then obtain r' w' where IH: "playback H (length (c_bufcmds cl2) + 1) c w2 = Some (r', w')" "served K D ev c cl2 0 w2 r' w'"
      using Cons.hyps(1) [OF b2 d2 h2 _ _ _ _ _ _ ev] bs b2 by blast
    have "playback H (length (c_bufcmds cl) + 1) c w = playback H (length bs + 1) c w2"
      using playback_step [OF Cons.prems(2) buf _ True, of H w2 "length bs + 1"] w2(1)
      by (simp add: w1_def cl1_def buf del: playback.simps)
    then show ?thesis using IH hs(2) rec by (intro exI [of _ r'] exI [of _ w']) (simp add: served_def cl2_def cl1_def w1_def set_client_def del: playback.simps)
  next
    case False
    then have "playback H (length (c_bufcmds cl) + 1) c w = Some (r, w2)"
      using Cons.prems(2) w2(1) by (simp add: w1_def cl1_def buf)
    then show ?thesis using False d2 h2 ev rec hs(2)
      by (intro exI [of _ r] exI [of _ w2]) (simp add: served_def serving_def cl2_def cl1_def w1_def set_client_def del: playback.simps)
  qed
qed

lemma served_handled:
  assumes "daemon_ok K {c} D w" "continues {} ev (events w)" "i_heap w c = Some cl" "handled c cl' w w'" "c_proto cl' = c_proto cl" "c_fd cl' = c_fd cl"
    "0 < r \<Longrightarrow> client_ok n cl'"
  shows "served K D ev c cl n w r w'"
  using daemon_ok_handled [OF assms(1,3) _ assms(6,4)] continues_trans [OF assms(2) handled_continues [OF assms(4)]] handled_simps [OF assms(4)]
    handled_received [OF assms(4)] assms(5-7) by (simp add: served_def serving_def)

lemma handled_set: "store_holds (the_store w) kvs \<Longrightarrow> handled c cl' w (set_client c cl' w)"
  by (auto simp: handled_def intro!: exI [of _ "the_store w"])

lemma buffer_ok:
  assumes "daemon_ok K {c} D w" "continues {} ev (events w)" "i_heap w c = Some cl" "talks cl" "client_ok k cl" "k + 1 < 2 ^ 32" "length d < 65536"
    "c_begins cl \<noteq> 0" "m \<noteq> MSG_EOF"
  shows "\<exists>r w'. buffer_command K (on_app_input_depth 1 K c) c m d w = Some (r, w') \<and> served K D ev c cl (k + 1) w r w'"
proof -
  obtain kvs where kvs: "store_holds (the_store w) kvs" using assms(1) by (auto simp: daemon_ok_def)
  have ok: "c_nsubs cl = length (c_subs cl)" "length (c_subs cl) \<le> MAX_SUBS + 1" "c_nbufcmds cl = 0" "c_begins cl \<le> k"
    "c_bufcmd_tail cl = Some (length (c_bufcmds cl))" "list_all (\<lambda>b. plain_cmd (bc_msg b, bc_data b)) (c_bufcmds cl)"
    using assms(5,8) by (simp_all add: client_ok_def)
  note sv = served_handled [OF assms(1-3)]
  consider (nest) "m = CMD_BEGIN" | (commit) "m = CMD_COMMIT" | (other) "m \<noteq> CMD_BEGIN" "m \<noteq> CMD_COMMIT" by blast
  then show ?thesis
  proof cases
    case nest
    have b: "add32 (c_begins cl) 1 = c_begins cl + 1" using ok(4) assms(6) by (intro add32_id) simp
    have "served K D ev c cl (k + 1) w 1 (set_client c (cl\<lparr>c_begins := c_begins cl + 1\<rparr>) w)"
      using ok assms(8) by (intro sv [OF handled_set [OF kvs]]) (simp_all add: client_ok_def)
    then show ?thesis using nest b assms(3) by (simp add: buffer_command_def)
  next
    case commit
    define cl1 where "cl1 = cl\<lparr>c_begins := c_begins cl - 1\<rparr>"
    have "1 \<le> c_begins cl" "c_begins cl < 2 ^ 32" using ok(4) assms(6,8) by linarith+
    from sub32_id [OF this] have b: "sub32 (c_begins cl) 1 = c_begins cl - 1" .
    have s1: "served K D ev c cl (k + 1) w 1 (set_client c cl1 w)" if "c_begins cl1 \<noteq> 0"
      using ok that by (intro sv [OF handled_set [OF kvs]]) (simp_all add: client_ok_def cl1_def)
    have d1: "daemon_ok K {c} D (set_client c cl1 w)" using daemon_ok_set [OF assms(1,3), of cl1] by (simp add: cl1_def)
    have "\<exists>r w'. playback (on_app_input_depth 1 K c) (length (c_bufcmds cl1) + 1) c (set_client c cl1 w) = Some (r, w') \<and>
        served K D ev c cl1 0 (set_client c cl1 w) r w'" if "c_begins cl1 = 0"
      using that assms(2,4) ok by (intro playback_ok [OF d1 _ _ that]) (simp_all add: cl1_def set_client_def talks_def)
    then have s2: "\<exists>r w'. playback (on_app_input_depth 1 K c) (length (c_bufcmds cl) + 1) c (set_client c cl1 w) = Some (r, w') \<and>
        served K D ev c cl (k + 1) w r w'" if "c_begins cl1 = 0"
      using that by (fastforce simp: served_def cl1_def set_client_def client_ok_def)
    have "CMD_COMMIT \<noteq> CMD_BEGIN" by (simp add: cmd_simps)
    then have "buffer_command K (on_app_input_depth 1 K c) c m d w =
        (if c_begins cl1 \<noteq> 0 then Some (1, set_client c cl1 w) else playback (on_app_input_depth 1 K c) (length (c_bufcmds cl) + 1) c (set_client c cl1 w))"
      using commit assms(3) b by (simp add: buffer_command_def cl1_def Let_def del: playback.simps)
    then show ?thesis using s1 s2 by (cases "c_begins cl1 = 0") auto
  next
    case other
    define cl1 where "cl1 = cl\<lparr>c_bufcmds := c_bufcmds cl @ [\<lparr>bc_msg = m, bc_data = d\<rparr>], c_bufcmd_tail := Some (length (c_bufcmds cl) + 1)\<rparr>"
    have "served K D ev c cl (k + 1) w 1 (set_client c cl1 w)"
      using ok assms(7-9) other by (intro sv [OF handled_set [OF kvs]]) (simp_all add: client_ok_def cl1_def plain_cmd_def)
    moreover have "served K D ev c cl (k + 1) w (-1) (snd (fail K cl code msg w))" for code msg
      using handled_output [OF kvs assms(3) output_only_reply] by (intro sv) (simp_all add: fail_def)
    ultimately show ?thesis using other assms(3) ok output_fail [OF assms(3,4)]
      by (auto simp: buffer_command_def MAX_BUFCMDS_def bufcmd_new_def bufcmd_append_def cl1_def fail_def)
  qed
qed

lemma app_begin_served:
  assumes "daemon_ok K {c} D w" "continues {} ev (events w)" "i_heap w c = Some cl" "client_ok k cl" "c_begins cl = 0"
  shows "\<exists>w'. app_begin c w = Some (1, w') \<and> served K D ev c cl (k + 1) w 1 w'"
proof -
  obtain kvs where kvs: "store_holds (the_store w) kvs" using assms(1) by (auto simp: daemon_ok_def)
  have "served K D ev c cl (k + 1) w 1 (set_client c (cl\<lparr>c_bufcmd_tail := Some 0, c_begins := 1\<rparr>) w)"
    using assms(4,5) by (intro served_handled [OF assms(1-3) handled_set [OF kvs]]) (simp_all add: client_ok_def)
  then show ?thesis using assms(3) by (simp add: app_begin_def)
qed

lemma input_ok:
  assumes "daemon_ok K {c} D w" "continues {} ev (events w)" "i_heap w c = Some cl" "talks cl" "client_ok k cl" "k + 1 < 2 ^ 32" "length d < 65536"
  shows "\<exists>r w'. on_app_input K c m d w = Some (r, w') \<and> served K D ev c cl (k + 1) w r w'"
proof -
  obtain w1 where w1: "log_input K c m d w = Some w1" "output_only w w1" using log_input_ok [OF assms(3)] by blast
  have h1: "i_heap w1 c = Some cl" "all_clients w1 = all_clients w" using output_only_simps(2,3) [OF w1(2)] assms(3) by simp_all
  have d1: "daemon_ok K {c} D w1" using daemon_ok_output [OF assms(1) w1(2)] .
  have e1: "continues {} ev (events w1)" using continues_trans [OF assms(2) output_continues [OF w1(2)]] .
  have up: "served K D ev c cl n w r w'" if "served K D ev c cl n w1 r w'" for n r w'
    using that h1(2) output_received [OF w1(2)] by (simp add: served_def)
  obtain kvs where kvs: "store_holds (the_store w1) kvs" and sane: "os_sane (k_os K)" using d1 by (auto simp: daemon_ok_def kernel_ok_def)
  consider (eof) "m = MSG_EOF" | (buffered) "m \<noteq> MSG_EOF" "c_begins cl \<noteq> 0" | (starts) "m \<noteq> MSG_EOF" "c_begins cl = 0" "m = CMD_BEGIN"
    | (command) "m \<noteq> MSG_EOF" "c_begins cl = 0" "m \<noteq> CMD_BEGIN" by blast
  then show ?thesis
  proof cases
    case eof
    have "served K D ev c cl (k + 1) w1 0 w1" by (rule served_handled [OF d1 e1 h1(1) handled_output [OF kvs h1(1) output_only_refl]]) simp_all
    then show ?thesis using eof w1(1) up by (auto simp: on_app_input_eq)
  next
    case buffered
    then show ?thesis using buffer_ok [OF d1 e1 h1(1) assms(4-7) buffered(2,1)] w1(1) h1(1) up by (auto simp: on_app_input_eq)
  next
    case starts
    have "app_command K c m d w1 = app_begin c w1" using starts(3) by (simp add: app_command_def cmd_simps)
    then show ?thesis using app_begin_served [OF d1 e1 h1(1) assms(5) starts(2)] starts w1(1) h1(1) up by (auto simp: on_app_input_eq)
  next
    case command
    have ok: "c_nsubs cl = length (c_subs cl)" "length (c_subs cl) \<le> MAX_SUBS + 1" "c_nbufcmds cl = 0" "c_bufcmds cl = []"
      using assms(5) command(2) by (simp_all add: client_ok_def)
    obtain r w' subs where c: "command K c cl m d w1 = Some (r, w')" "length subs \<le> MAX_SUBS + 1" "handled c (cl\<lparr>c_subs := subs, c_nsubs := length subs\<rparr>) w1 w'"
      using command_handled [OF h1(1) assms(7) sane kvs command(3) ok(1,2)] by blast
    have "served K D ev c cl (k + 1) w1 r w'"
      using ok c(2) command(2) by (intro served_handled [OF d1 e1 h1(1) c(3)]) (simp_all add: client_ok_def)
    moreover have "app_command K c m d w1 = Some (r, w')"
      using app_command_eq [OF h1(1) assms(4) daemon_listens [OF d1 h1(1)] assms(7) sane kvs, of m] c(1) assms(4) by simp
    ultimately show ?thesis using command w1(1) h1(1) up by (auto simp: on_app_input_eq)
  qed
qed

subsection \<open>The translator of a client\<close>

lemma client_cb_simps:
  "cb_sendv (client_cb K c) p w bs = on_net_sendv K (Some c) w bs" "cb_error (client_cb K c) p w msg = Some (log_msg msg w)"
  "cb_input (client_cb K c) p w m d = do { cl \<leftarrow> i_heap w c; (r, w1) \<leftarrow> on_app_input K c m d (set_client c (cl\<lparr>c_proto := p\<rparr>) w);
     cl1 \<leftarrow> i_heap w1 c; Some (r, c_proto cl1, w1) }"
  by (simp_all add: client_cb_def out_cb_def on_proto_error_def)

lemma log_output: "output_only w (log_msg msg w)"
  by (auto simp: log_msg_def intro!: output_only_emit)

lemma listening_output:
  assumes "listening K D ev c n w" "output_only w w'"
  shows "listening K D ev c n w'"
  using assms(1) output_only_simps [OF assms(2)] output_received [OF assms(2)] daemon_ok_output [OF _ assms(2)] continues_trans [OF _ output_continues [OF assms(2)]]
  by (auto simp: listening_def serving_def)

lemma eof_ok:
  assumes "listening K D ev c n w" "ptrs_ok p"
  shows "\<exists>r p' w'. cb_input (client_cb K c) p w MSG_EOF [] = Some (r, p', w') \<and> serving K D ev c w'"
proof -
  obtain cl where cl: "i_heap w c = Some cl" "daemon_ok K {c} D w" "continues {} ev (events w)" using assms(1) by (auto simp: listening_def serving_def)
  let ?cl = "cl\<lparr>c_proto := p\<rparr>" and ?w = "set_client c (cl\<lparr>c_proto := p\<rparr>) w"
  have w: "i_heap ?w c = Some ?cl" "daemon_ok K {c} D ?w" "continues {} ev (events ?w)"
    using daemon_ok_set [OF cl(2,1), of ?cl] cl(3) by (simp_all add: set_client_def)
  obtain w1 where w1: "log_input K c MSG_EOF [] ?w = Some w1" "output_only ?w w1" using log_input_ok [OF w(1)] by blast
  have "i_heap w1 c = Some ?cl" using output_only_simps(2) [OF w1(2)] w(1) by simp
  then have "cb_input (client_cb K c) p w MSG_EOF [] = Some (0, p, w1)" using cl(1) w1(1) by (simp add: client_cb_simps on_app_input_eq)
  moreover have "serving K D ev c w1"
    using daemon_ok_output [OF w(2) w1(2)] continues_trans [OF w(3) output_continues [OF w1(2)]] by (simp add: serving_def)
  ultimately show ?thesis by blast
qed

lemma takes_ok:
  assumes "listening K D ev c (Suc n) w" "ptrs_ok p" "no_text (p_mode p)" "length d < 65536"
  shows "\<exists>r p' w'. cb_input (client_cb K c) p w m d = Some (r, p', w') \<and> serving K D ev c w' \<and> (0 < r \<longrightarrow> listening K D ev c n w' \<and> p' = p)"
proof -
  obtain cl k where cl: "i_heap w c = Some cl" "daemon_ok K {c} D w" "continues {} ev (events w)" "c \<in> set (all_clients w)"
    "k + Suc n \<le> received (events w) (c_fd cl)" "received (events w) (c_fd cl) < 2 ^ 32" "client_ok k cl"
    using assms(1) by (auto simp: listening_def serving_def)
  let ?cl = "cl\<lparr>c_proto := p\<rparr>" and ?w = "set_client c (cl\<lparr>c_proto := p\<rparr>) w"
  have w: "i_heap ?w c = Some ?cl" "daemon_ok K {c} D ?w" "continues {} ev (events ?w)"
    using daemon_ok_set [OF cl(2,1), of ?cl] cl(3) by (simp_all add: set_client_def)
  have t: "talks ?cl" "client_ok k ?cl" "k + 1 < 2 ^ 32"
    using assms(2,3) cl(5-7) by (simp_all add: talks_def ptrs_ok_def no_text_def client_ok_def)
  obtain r w' where i: "on_app_input K c m d ?w = Some (r, w')" "served K D ev c ?cl (k + 1) ?w r w'" using input_ok [OF w(2,3,1) t assms(4)] by blast
  then obtain cl' where cl': "i_heap w' c = Some cl'" "c_proto cl' = p" "c_fd cl' = c_fd cl" "0 < r \<longrightarrow> client_ok (k + 1) cl'" "serving K D ev c w'"
    "all_clients w' = all_clients w" "received (events w') (c_fd cl) = received (events w) (c_fd cl)" by (auto simp: served_def set_client_def)
  have "listening K D ev c n w'" if "0 < r"
    unfolding listening_def using that cl' cl(4-6) t(1) by (auto simp: talks_def intro!: exI [of _ "k + 1"])
  then show ?thesis using i(1) cl(1) cl'(1,2,5) by (simp add: client_cb_simps)
qed

interpretation client_link: proto_app "client_cb K c" "listening K D ev c" "serving K D ev c" no_text "\<lambda>d. length d < 65536" for K D ev c
proof
  show "\<exists>r p' w'. cb_input (client_cb K c) p w m d = Some (r, p', w') \<and> serving K D ev c w' \<and> (0 < r \<longrightarrow> listening K D ev c n w' \<and> p' = p)"
    if "listening K D ev c (Suc n) w" "ptrs_ok p" "no_text (p_mode p)" "length d < 65536" for n w p d m using takes_ok that by blast
  show "\<exists>r p' w'. cb_input (client_cb K c) p w MSG_EOF [] = Some (r, p', w') \<and> serving K D ev c w'"
    if "listening K D ev c n w" "ptrs_ok p" for n w p using eof_ok that by blast
  show "\<exists>r w'. cb_sendv (client_cb K c) p w bs = Some (r, w') \<and> listening K D ev c n w'" if l: "listening K D ev c n w" for n w p bs
  proof -
    obtain cl where "i_heap w c = Some cl" using l by (auto simp: listening_def)
    moreover have "output_only w (emit (Writev (c_fd cl) bs r) w)" for r by (simp add: output_only_emit)
    ultimately show ?thesis using listening_output [OF l] by (simp add: client_cb_simps on_net_sendv_def sys_writev_def Let_def)
  qed
  show "\<exists>w'. cb_error (client_cb K c) p w msg = Some w' \<and> listening K D ev c n w'" if "listening K D ev c n w" for n w p msg
    using listening_output [OF that log_output] by (simp add: client_cb_simps)
  show "listening K D ev c n w" if "listening K D ev c (Suc n) w" for n w using that by (auto simp: listening_def intro: Suc_leD)
qed (simp_all add: listening_def)

subsection \<open>The upcalls of the server\<close>

text \<open>A client is its connection.\<close>

lemma connection_client:
  assumes "daemon_ok K X D w" "(d, fd) \<in># D"
  obtains c cl where "d = Some c" "c \<in> set (all_clients w)" "i_heap w c = Some cl" "c_fd cl = fd"
proof -
  from assms obtain c where "c \<in> set (all_clients w)" "(d, fd) = (Some c, c_fd (the (i_heap w c)))" by (auto simp: daemon_ok_def)
  moreover obtain cl where "i_heap w c = Some cl" using assms(1) calculation(1) by (auto simp: daemon_ok_def)
  ultimately show thesis using that by simp
qed

lemma received_keep:
  assumes "\<And>fd bs. e \<noteq> Read fd bs" "\<And>l. e \<noteq> Accept l fd"
  shows "received (ev @ [e]) fd = received ev fd"
  using assms by (auto simp: received_emit split: event.splits)

lemma daemon_ok_emit:
  assumes "daemon_ok K X D w" "\<And>fd bs. e \<noteq> Read fd bs" "\<And>l fd. e = Accept l fd \<Longrightarrow> fd \<notin> snd ` set_mset D"
  shows "daemon_ok K X D (emit e w)"
proof -
  have rec: "received (events w @ [e]) (c_fd cl) = received (events w) (c_fd cl)" if c: "c \<in> set (all_clients w)" "i_heap w c = Some cl" for c cl
  proof (rule received_keep [OF assms(2)])
    have "(Some c, c_fd cl) \<in># D" using assms(1) c by (force simp: daemon_ok_def)
    then show "e \<noteq> Accept l (c_fd cl)" for l using assms(3) by force
  qed
  have "\<exists>cl. i_heap w c = Some cl \<and> (c \<notin> X \<longrightarrow> client_ok (received (events w @ [e]) (c_fd cl)) cl \<and> link_ok (events w @ [e]) cl)"
    if "c \<in> set (all_clients w)" for c using that assms(1) rec [OF that] by (auto simp: daemon_ok_def link_ok_def)
  then show ?thesis using assms(1) by (simp add: daemon_ok_def emit_def)
qed

lemma error_upcall:
  "server_on_error (infod_context K) w msg = Some (-1, log_msg (take 2047 msg) w)"
  by (simp add: server_on_error_def infod_context_def on_net_error_def)

lemma new_client_ok:
  assumes "daemon_ok K {} D w" "fd \<notin> snd ` set_mset D" "received (events w) fd = 0" "c_fd cl = fd" "client_ok 0 cl" "c_subs cl = []" "proto_ok (c_proto cl)"
    "p_mode (c_proto cl) = PROTO_MODE_FRAMED \<or> p_mode (c_proto cl) = PROTO_MODE_UNKNOWN"
  shows "daemon_ok K {} (add_mset (Some (i_brk w), fd) D) ((set_client (i_brk w) cl w)\<lparr>i_brk := i_brk w + 1, all_clients := i_brk w # all_clients w\<rparr>)"
proof -
  let ?c = "i_brk w" and ?H = "(i_heap w)(i_brk w := Some cl)"
  have new: "?c \<notin> set (all_clients w)" using assms(1) by (auto simp: daemon_ok_def)
  then have same: "\<And>c. c \<in> set (all_clients w) \<Longrightarrow> ?H c = i_heap w c" by auto
  have fds: "image_mset (\<lambda>c. (Some c, c_fd (the (?H c)))) (mset (all_clients w)) = D"
    using assms(1) same by (auto simp: daemon_ok_def intro!: image_mset_cong)
  define f where "f = (\<lambda>c. c_fd (the (?H c)))"
  have "inj_on f (set (all_clients w))" using assms(1) same by (auto simp: daemon_ok_def inj_on_def f_def)
  moreover have "f ?c \<notin> f ` set (all_clients w)" using assms(2,4) same unfolding fds [symmetric] f_def by force
  ultimately have "inj_on f (insert ?c (set (all_clients w)))" using new by (simp add: inj_on_insert)
  note inj = this [unfolded f_def]
  have "link_ok (events w) cl" using assms(3,4,6-8) by (auto simp: link_ok_def)
  then show ?thesis using assms(1,3-5) new fds inj same unfolding daemon_ok_def
    by (auto simp: set_client_def)
qed

lemma proto_fresh_ok:
  assumes "proto_new os = Some p" "p1 = (if b then snd (proto_set_mode PROTO_MODE_FRAMED p) else p)"
    "p2 = proto_set_on_input Set (proto_set_on_sendv Set (proto_set_on_error Set p1))"
  shows "proto_ok p2" "p_mode p2 = PROTO_MODE_FRAMED \<or> p_mode p2 = PROTO_MODE_UNKNOWN"
  using assms by (auto simp: proto_new_def proto_set_mode_def proto_set_on_input_def proto_set_on_sendv_def proto_set_on_error_def proto_ok_def ptrs_ok_def mode_defs
    split: if_splits)

lemma accept_upcall:
  assumes "daemon_ok K {} D w" "fd \<notin> snd ` set_mset D" "received (events w) fd = 0"
  shows "\<exists>d w'. on_net_accept K w fd l = Some (d, w') \<and> daemon_ok K {} (add_mset (d, fd) D) w' \<and> continues {} (events w) (events w')"
proof -
  define w1 where "w1 = (if o_verbose (i_options w) \<noteq> 0 then log_msgf (lit ''['' @ listener_peername K w l fd @ lit ''] connected'') w else w)"
  have w1: "output_only w w1" by (simp add: w1_def output_only_log)
  have "os_realloc (k_os K) 80" "os_realloc (k_os K) 152" using assms(1) by (simp_all add: daemon_ok_def kernel_ok_def)
  then obtain p where p: "proto_new (k_os K) = Some p" "os_realloc (k_os K) 80" by (simp add: proto_new_def)
  define p1 where "p1 = (if l = Some unix_listener then snd (proto_set_mode PROTO_MODE_FRAMED p) else p)"
  define p2 where "p2 = proto_set_on_input Set (proto_set_on_sendv Set (proto_set_on_error Set p1))"
  define cl where "cl = \<lparr>c_fd = fd, c_proto = p2, c_nsubs = 0, c_nbufcmds = 0, c_begins = 0, c_subs = [], c_bufcmds = [], c_bufcmd_tail = None, c_listener = l\<rparr>"
  define w2 where "w2 = (set_client (i_brk w1) cl w1)\<lparr>i_brk := i_brk w1 + 1, all_clients := i_brk w1 # all_clients w1\<rparr>"
  have "client_new K fd w1 = (Some (i_brk w1), (set_client (i_brk w1) (cl\<lparr>c_proto := p, c_listener := None\<rparr>) w1)\<lparr>i_brk := i_brk w1 + 1\<rparr>)"
    using p by (simp add: client_new_def Let_def cl_def)
  then have "on_net_accept K w fd l = Some (Some (i_brk w1), w2)"
    unfolding on_net_accept_def Let_def w1_def [symmetric] by (simp add: set_client_def cl_def w2_def p2_def p1_def)
  moreover have "daemon_ok K {} (add_mset (Some (i_brk w1), fd) D) w2" unfolding w2_def
    using proto_fresh_ok [OF p(1) p1_def p2_def] daemon_ok_output [OF assms(1) w1] output_received [OF w1] assms(2,3)
    by (intro new_client_ok) (simp_all add: cl_def client_ok_def)
  moreover have "continues {} (events w) (events w2)" using output_continues [OF w1] by (simp add: w2_def set_client_def)
  ultimately show ?thesis by blast
qed

lemma close_upcall:
  assumes "closing K (d, fd) D w"
  shows "\<exists>w'. on_net_close K w d l = Some w' \<and> daemon_ok K {} (D - {#(d, fd)#}) w' \<and> continues {} (events w) (events w')"
proof -
  obtain c where c: "d = Some c" "(d, fd) \<in># D" "daemon_ok K {c} D w" using assms by (auto simp: closing_def)
  then obtain cl where cl: "c \<in> set (all_clients w)" "i_heap w c = Some cl" "c_fd cl = fd" by (metis connection_client option.inject)
  define w1 where "w1 = (if o_verbose (i_options w) \<noteq> 0 then log_msgf (lit ''['' @ listener_peername K w l (c_fd cl) @ lit ''] closed'') w else w)"
  have w1: "output_only w w1" by (simp add: w1_def output_only_log)
  note o = output_only_simps [OF w1]
  define w2 where "w2 = w1\<lparr>all_clients := remove1 c (all_clients w1), i_heap := (i_heap w1)(c := None)\<rparr>"
  have run: "on_net_close K w d l = Some w2" unfolding on_net_close_def c(1) Option.bind.simps cl(2) Let_def w1_def [symmetric]
    using o(2) cl(2) by (simp add: client_free_def w2_def)
  have d1: "daemon_ok K {c} D w1" using daemon_ok_output [OF c(3) w1] .
  then have dist: "distinct (all_clients w1)" by (simp add: daemon_ok_def)
  then have set2: "set (all_clients w2) = set (all_clients w1) - {c}" by (simp add: w2_def)
  have same: "\<And>c'. c' \<in> set (all_clients w2) \<Longrightarrow> i_heap w2 c' = i_heap w1 c'" using set2 by (auto simp: w2_def)
  have "D = image_mset (\<lambda>c. (Some c, c_fd (the (i_heap w1 c)))) (mset (all_clients w1))" using d1 by (simp add: daemon_ok_def)
  moreover have "mset (all_clients w1) = add_mset c (mset (all_clients w2))" using cl(1) o(3) by (simp add: w2_def)
  ultimately have "D - {#(d, fd)#} = image_mset (\<lambda>c. (Some c, c_fd (the (i_heap w1 c)))) (mset (all_clients w2))" using c(1) cl(2,3) o(2) by simp
  also have "\<dots> = image_mset (\<lambda>c. (Some c, c_fd (the (i_heap w2 c)))) (mset (all_clients w2))" using same by (intro image_mset_cong) simp
  finally have D2: "D - {#(d, fd)#} = image_mset (\<lambda>c. (Some c, c_fd (the (i_heap w2 c)))) (mset (all_clients w2))" .
  have "inj_on (\<lambda>c. c_fd (the (i_heap w2 c))) (set (all_clients w2))" using d1 same set2 by (auto simp: daemon_ok_def inj_on_def)
  moreover have "\<forall>c'\<in>set (all_clients w2). c' < i_brk w2 \<and> (\<exists>cl. i_heap w2 c' = Some cl \<and>
      (c' \<notin> {} \<longrightarrow> client_ok (received (events w2) (c_fd cl)) cl \<and> link_ok (events w2) cl))"
    using d1 same set2 by (auto simp: daemon_ok_def w2_def)
  moreover have "the_store w2 = the_store w1" "distinct (all_clients w2)" using dist by (simp_all add: w2_def)
  ultimately have "daemon_ok K {} (D - {#(d, fd)#}) w2" using d1 D2 by (simp add: daemon_ok_def)
  moreover have "continues {} (events w) (events w2)" using output_continues [OF w1] by (simp add: w2_def)
  ultimately show ?thesis using run by blast
qed

lemma read_ok:
  assumes "daemon_ok K {} D w" "c \<in> set (all_clients w)" "i_heap w c = Some cl" "c_fd cl = fd"
  shows "daemon_ok K {c} D (emit (Read fd x) w)"
proof (rule daemon_ok_step [OF daemon_ok_weaken [OF assms(1)] assms(3), where cl' = cl])
  have inj: "inj_on (\<lambda>c. c_fd (the (i_heap w c))) (set (all_clients w))" using assms(1) by (simp add: daemon_ok_def)
  show "received (events (emit (Read fd x) w)) (c_fd cl') = received (events w) (c_fd cl')"
    if c': "c' \<in> set (all_clients w)" "c' \<notin> {c}" "i_heap w c' = Some cl'" for c' cl'
  proof -
    have "c_fd cl' \<noteq> fd" using inj_onD [OF inj, of c' c] assms(2-4) c' by auto
    then show ?thesis by (simp add: received_emit split: option.splits)
  qed
  show "i_heap (emit (Read fd x) w) = (i_heap w)(c := Some cl)" using assms(3) by (simp add: emit_def fun_upd_idem)
  show "\<exists>kvs. store_holds (the_store (emit (Read fd x) w)) kvs" using assms(1) by (simp add: daemon_ok_def emit_def)
qed (simp_all add: emit_def)

lemma ready_upcall:
  assumes "daemon_ok K {} D w" "(d, fd) \<in># D"
  shows "\<exists>r w'. on_net_ready K w d fd = Some (r, w') \<and> (if 0 < r then daemon_ok K {} D w' else closing K (d, fd) D w') \<and> continues {fd} (events w) (events w')"
proof -
  obtain c cl where c: "d = Some c" "c \<in> set (all_clients w)" "i_heap w c = Some cl" "c_fd cl = fd" using connection_client [OF assms] .
  define x where "x = map_option (take PROTO_RECVSZ) (k_read K (events w) fd)"
  define w1 where "w1 = emit (Read fd x) w"
  have rd: "sys_read K fd PROTO_RECVSZ w = (x, w1)" by (simp add: sys_read_def Let_def x_def w1_def)
  have d1: "daemon_ok K {c} D w1" using read_ok [OF assms(1) c(2-4)] by (simp add: w1_def)
  have h1: "i_heap w1 c = Some cl" "all_clients w1 = all_clients w" using c(3) by (simp_all add: w1_def emit_def)
  have e1: "continues {fd} (events w) (events w1)" by (simp add: w1_def continues_emit)
  have ok: "client_ok (received (events w) fd) cl" "link_ok (events w) cl" using assms(1) c by (auto simp: daemon_ok_def)
  show ?thesis
  proof (cases x)
    case None
    then show ?thesis using rd e1 d1 c(1) assms(2) by (auto simp: on_net_ready_def closing_def)
  next
    case (Some net)
    then obtain bs where bs: "k_read K (events w) fd = Some bs" "net = take PROTO_RECVSZ bs" by (auto simp: x_def)
    have K: "binary_peers K" "short_connections K" using assms(1) by (simp_all add: daemon_ok_def kernel_ok_def)
    have rec: "received (events w1) fd = received (events w) fd + length net" using Some by (simp add: w1_def received_emit)
    have lim: "received (events w1) fd < 2 ^ 32" "length net \<le> 65536" using K(2) bs rec by (auto simp: short_connections_def PROTO_RECVSZ_def)
    have sub: "c_subs cl \<noteq> [] \<longrightarrow> talks cl" using ok(2) by (auto simp: link_ok_def talks_def proto_ok_def ptrs_ok_def)
    have l1: "listening K D (events w1) c (length net + 0) w1"
      unfolding listening_def serving_def using d1 h1 c(2,4) rec lim(1) ok(1) sub by auto
    have mode: "no_text (if p_mode (c_proto cl) = PROTO_MODE_UNKNOWN then autodetect (hd net) else p_mode (c_proto cl))" if net: "net \<noteq> []"
    proof (cases "p_mode (c_proto cl) = PROTO_MODE_UNKNOWN")
      case True
      then have "received (events w) fd = 0" using ok(2) c(4) by (auto simp: link_ok_def mode_defs)
      moreover obtain b bs' where "bs = b # bs'" "hd net = b" using net bs(2) by (cases bs) (auto simp: PROTO_RECVSZ_def)
      ultimately have "autodetect (hd net) \<noteq> PROTO_MODE_TEXT" using K(1) bs(1) unfolding binary_peers_def by blast
      then show ?thesis using True by (auto simp: no_text_def autodetect_def)
    next
      case False
      then show ?thesis using ok(2) by (auto simp: link_ok_def no_text_def)
    qed
    have p: "proto_ok (c_proto cl)" using ok(2) by (simp add: link_ok_def)
    have "length (tl net) < 65536" if "net \<noteq> []" using that lim(2) by (cases net) simp_all
    from client_link.recv_total [OF l1 p mode this, of "k_os K"] obtain r p' w2 where
      r: "proto_recv (k_os K) (client_cb K c) (c_proto cl) w1 net 0 = Some (r, p', w2)" "serving K D (events w1) c w2"
        "0 < r \<longrightarrow> listening K D (events w1) c 0 w2 \<and> proto_ok p' \<and>
          p_mode p' = (if p_mode (c_proto cl) = PROTO_MODE_UNKNOWN then autodetect (hd net) else p_mode (c_proto cl))" by blast
    have d2: "daemon_ok K {c} D w2" "continues {} (events w1) (events w2)" using r(2) by (simp_all add: serving_def)
    obtain cl2 where cl2: "i_heap w2 c = Some cl2" "c_fd cl2 = fd" "c \<in> set (all_clients w2)"
      using connection_client [OF d2(1) assms(2)] c(1) by (metis option.inject)
    let ?cl = "cl2\<lparr>c_proto := p'\<rparr>"
    define w3 where "w3 = set_client c ?cl w2"
    have run: "on_net_ready K w d fd = Some (r, w3)" using rd Some c(1) h1(1) r(1) cl2(1) by (simp add: on_net_ready_def w3_def)
    have d3: "daemon_ok K {c} D w3" using daemon_ok_set [OF d2(1) cl2(1), of ?cl] by (simp add: w3_def)
    have e3: "continues {fd} (events w) (events w3)"
      using continues_trans [OF e1 continues_mono [OF d2(2)]] by (simp add: w3_def set_client_def)
    have "daemon_ok K {} D w3" if pos: "0 < r"
    proof -
      have net: "net \<noteq> []" using pos r(1) by (auto simp: proto_recv_def split: bind_splits)
      have "p_mode p' = PROTO_MODE_BINARY \<or> p_mode p' = PROTO_MODE_FRAMED" "proto_ok p'" using mode [OF net] r(3) pos by (auto simp: no_text_def)
      then have "link_ok (events w3) ?cl" by (auto simp: link_ok_def)
      moreover obtain k where "k \<le> received (events w2) fd" "client_ok k cl2" using r(3) pos cl2(1,2) by (auto simp: listening_def)
      then have "client_ok (received (events w3) fd) ?cl" by (auto simp: client_ok_def w3_def set_client_def)
      ultimately show ?thesis using d3 cl2 unfolding daemon_ok_def by (auto simp: w3_def set_client_def)
    qed
    then show ?thesis using run e3 d3 c(1) assms(2) by (auto simp: closing_def)
  qed
qed

interpretation daemon: server_app K "infod_context K" "on_net_accept K" "on_net_close K" "daemon_ok K {}" "closing K" for K
proof
  show "ctx_on_accept (infod_context K) = Some (on_net_accept K)" "ctx_on_close (infod_context K) = Some (on_net_close K)"
    by (simp_all add: infod_context_def)
  show "fresh_accept K" if "daemon_ok K {} D w" for D w using that by (simp add: daemon_ok_def kernel_ok_def)
  show "\<exists>d w'. on_net_accept K w fd l = Some (d, w') \<and> daemon_ok K {} (add_mset (d, fd) D) w' \<and> continues {} (events w) (events w')"
    if "daemon_ok K {} D w" "fd \<notin> snd ` set_mset D" "received (events w) fd = 0" for D w fd l using accept_upcall [OF that] .
  show "\<exists>r w'. ctx_on_ready (infod_context K) w d fd = Some (r, w') \<and> (if 0 < r then daemon_ok K {} D w' else closing K (d, fd) D w') \<and>
      continues {fd} (events w) (events w')" if "daemon_ok K {} D w" "(d, fd) \<in># D" for D w d fd using ready_upcall [OF that] by (simp add: infod_context_def)
  show "\<exists>w'. on_net_close K w d l = Some w' \<and> daemon_ok K {} (D - {#(d, fd)#}) w' \<and> continues {} (events w) (events w')"
    if "closing K (d, fd) D w" for d fd D w l using close_upcall [OF that] .
  show "\<exists>w'. server_on_error (infod_context K) w msg = Some (-1, w') \<and> daemon_ok K {} D w' \<and> continues {} (events w) (events w')"
    if "daemon_ok K {} D w" for D w msg using daemon_ok_output [OF that log_output] output_continues [OF log_output] by (simp add: error_upcall)
  show "\<exists>w'. server_on_error (infod_context K) w msg = Some (-1, w') \<and> closing K x D w' \<and> continues {} (events w) (events w')"
    if "closing K x D w" for x D w msg using that daemon_ok_output [OF _ log_output] output_continues [OF log_output] by (auto simp: error_upcall closing_def)
  show "daemon_ok K {} D (emit e w)" if "daemon_ok K {} D w" "\<And>fd bs. e \<noteq> Read fd bs" "\<And>l fd. e = Accept l fd \<Longrightarrow> fd \<notin> snd ` set_mset D" for D w e
    using daemon_ok_emit [OF that] .
  show "closing K x D w" if "daemon_ok K {} D w" "x \<in># D" for D w x
    using that connection_client [OF that(1), of "fst x" "snd x"] daemon_ok_weaken [OF that(1)] by (auto simp: closing_def)
  show "closing K x D (emit (Close fd) w)" if "closing K x D w" for x D w fd
    using that daemon_ok_emit [of K _ D w "Close fd"] by (auto simp: closing_def)
qed

subsection \<open>The main loop\<close>

lemma main_loop_ok:
  assumes "server_ok sv" "fds_ok (live sv) (events w)" "daemon_ok K {} (conn_data (live sv)) w" "\<And>ev. N \<le> length ev \<Longrightarrow> terminated ev"
  shows "\<exists>r sv' w'. main_loop K terminated sv w = Some (r, sv', w') \<and> server_ok sv' \<and> fds_ok (live sv') (events w') \<and> daemon_ok K {} (conn_data (live sv')) w'"
  using assms(1-3)
proof (induction "N - length (events w)" arbitrary: sv w rule: less_induct)
  case less
  obtain r sv1 w1 where 1: "server_poll K (infod_context K) sv w = Some (r, sv1, w1)" "server_ok sv1" "fds_ok (live sv1) (events w1)"
    "daemon_ok K {} (conn_data (live sv1)) w1" "0 < r \<longrightarrow> length (events w) < length (events w1)" using daemon.poll_ok [OF less.prems] by blast
  show ?case
  proof (cases "r \<le> 0 \<or> terminated (events w1)")
    case True
    then have "main_loop K terminated sv w = Some (r, sv1, w1)" using 1(1) by (subst main_loop.simps) simp
    then show ?thesis using 1(2-4) by blast
  next
    case False
    then have "\<not> N \<le> length (events w1)" using assms(4) by blast
    then have "N - length (events w1) < N - length (events w)" using 1(5) False by simp
    moreover have "main_loop K terminated sv w = main_loop K terminated sv1 w1" using 1(1) False by (subst main_loop.simps) simp
    ultimately show ?thesis using less.hyps [OF _ 1(2-4)] by simp
  qed
qed

lemma no_connections: "daemon_ok K {} {#} w \<Longrightarrow> all_clients w = []"
  by (auto simp: daemon_ok_def)

lemma main_end_ok:
  assumes "server_ok sv" "daemon_ok K {} (conn_data (live sv)) w"
  shows "\<exists>w'. main_end K terminated r sv w = Some (if terminated (events w) then 1 else 0, w') \<and> all_clients w' = []"
proof -
  define w2 where "w2 = (let w1 = (if r = 0 \<and> o_verbose (i_options w) \<noteq> 0 then log_msg (lit ''no listeners!'') w else w) in
    if \<not> terminated (events w) \<or> o_verbose (i_options w) \<noteq> 0 then log_msg (lit ''terminating'') w1 else w1)"
  have "output_only w w2" using log_output output_only_trans by (simp add: w2_def Let_def) blast
  then have "daemon_ok K {} (conn_data (live sv)) w2" using daemon_ok_output [OF assms(2)] by blast
  moreover have "ctx_on_listener_close (infod_context K) = None" by (simp add: infod_context_def)
  ultimately obtain w3 where "server_free K (infod_context K) sv w2 = Some w3" "all_clients w3 = []"
    using daemon.free_ok [OF assms(1)] no_connections by blast
  then show ?thesis by (auto simp: main_end_def on_net_error_def w2_def Let_def split: if_splits)
qed

subsection \<open>Properties\<close>

lemma busy_kernel_ok: "kernel_ok busy_kernel"
  using good_os_sane
  by (auto simp: kernel_ok_def busy_kernel_def sample_kernel_def fresh_accept_def OPEN_MAX_def binary_peers_def short_connections_def autodetect_def
    mode_defs CMD_PING_def PROTO_RECVSZ_def)

lemma listening_server_ok: "server_ok listening_server" "fds_ok (live listening_server) (events idle_infod)" "conn_data (live listening_server) = {#}"
  by (simp_all add: server_ok_def listening_server_def INCREMENT_def fds_ok_def live_def live_fds_def idle_infod_def open_fds_def OPEN_MAX_def conn_data_def)

lemma idle_infod_ok: "daemon_ok busy_kernel {} {#} idle_infod"
  using busy_kernel_ok sample_holds by (auto simp: daemon_ok_def idle_infod_def sample_infod_def)





text \<open>
  C17: No client ever has more than 17 subscriptions, and the counter \<^verbatim>\<open>nsubs\<close> is the number of them: every message, in a
  transaction or not, keeps the record of its sender well-formed.
\<close>

theorem client_record_invariant:
  assumes "daemon_ok K {c} D w" "i_heap w c = Some cl" "talks cl" "client_ok n cl" "n + 1 < 2 ^ 32" "length d < 65536"
    "on_app_input K c m d w = Some (r, w')" "0 < r"
  shows "\<exists>cl'. i_heap w' c = Some cl' \<and> client_ok (n + 1) cl' \<and> c_nsubs cl' = length (c_subs cl') \<and> length (c_subs cl') \<le> 17"
proof -
  have "served K D (events w) c cl (n + 1) w r w'" using input_ok [OF assms(1) continues_refl assms(2-6), of m] assms(7) by auto
  then obtain cl' where "i_heap w' c = Some cl'" "client_ok (n + 1) cl'" using assms(8) by (auto simp: served_def)
  then show ?thesis by (auto simp: client_ok_def MAX_SUBS_def)
qed

theorem client_record_invariant_witness:
  "\<exists>w' cl'. on_app_input sample_kernel 0 CMD_BEGIN [] sample_infod = Some (1, w') \<and> i_heap w' 0 = Some cl' \<and> client_ok 1 cl' \<and>
    c_nsubs cl' = length (c_subs cl') \<and> length (c_subs cl') \<le> 17"
proof -
  have "kernel_ok sample_kernel" using good_os_sane
    by (auto simp: kernel_ok_def sample_kernel_def fresh_accept_def binary_peers_def short_connections_def)
  then have "daemon_ok sample_kernel {0} {#(Some 1, 6), (Some 0, 5)#} sample_infod" using sample_holds
    by (auto simp: daemon_ok_def sample_infod_def sample_client_def client_ok_def link_ok_def proto_ok_def ptrs_ok_def fresh_proto_def mode_defs pkt_complete_def
      MAX_SUBS_def)
  moreover have h: "i_heap sample_infod 0 = Some (sample_client 5 [])" "talks (sample_client 5 [])" "client_ok 0 (sample_client 5 [])"
    by (simp_all add: sample_infod_def sample_client_def talks_def client_ok_def)
  moreover obtain w' where "on_app_input sample_kernel 0 CMD_BEGIN [] sample_infod = Some (1, w')"
    using input_session [OF sample_session, of "[]" CMD_BEGIN] h(1) by (simp add: command_def app_begin_def cmd_simps sample_client_def)
  ultimately show ?thesis using client_record_invariant [of sample_kernel 0 _ sample_infod "sample_client 5 []" 0 "[]" CMD_BEGIN 1 w'] by fastforce
qed



text \<open>
  C38: When memory is available a resize of the socket table always fits its arrays to the table: there is room for
  the sockets asked for, and fewer than 16 cells more, also when the table has become smaller by one step.  The
  hysteresis that the comment in \<^verbatim>\<open>server_resize\<close> promises is not there.
\<close>

theorem server_resize_tight:
  assumes "server_ok sv" "sv_n sv \<le> n" "n < 2 ^ 32 - 16" "\<And>sz. os_realloc (k_os K) sz"
  shows "\<exists>sv'. server_resize K (infod_context K) n sv w = Some (0, sv', w) \<and> server_ok sv' \<and> live sv' = live sv \<and>
    n \<le> sv_nmax sv' \<and> sv_nmax sv' < n + INCREMENT"
  using resize_exact [OF assms] .

theorem server_resize_tight_witness:
  "\<exists>sv'. server_resize sample_kernel (infod_context sample_kernel) 40 listening_server idle_infod = Some (0, sv', idle_infod) \<and> server_ok sv' \<and>
    live sv' = live listening_server \<and> 40 \<le> sv_nmax sv' \<and> sv_nmax sv' < 40 + INCREMENT"
  by (rule server_resize_tight [OF listening_server_ok(1)]) (simp_all add: listening_server_def sample_kernel_def)

end
