(* ===== verification/Libinfo.thy ===== *)
theory Libinfo
  imports Sock Proto_Input
begin

text \<open>
  The client library, \<^verbatim>\<open>src/lib/info.c\<close>.  Its static variables are the record \<open>info_lib\<close>, which an
  application may extend.  The application's callback is an argument of the operations that
  wait; it works on the whole state, so it may call the library.  The arrays and buffers that the
  caller passes in are part of \<^verbatim>\<open>waitret\<close> while the library uses them.
\<close>

subsection \<open>State\<close>

datatype errno = ENONE | EBUSY | ENOMEM | ENOENT | EPIPE | EIO | EBADF

text \<open>A \<^verbatim>\<open>struct info_bind\<close> that is read: the value is an offset into the buffer.\<close>

record rbind =
  b_key :: bytes
  b_value :: "nat option"
  b_valuesz :: nat

record waitret =
  wr_until :: byte
  wr_in_cb :: bool
  wr_done :: int
  wr_binds :: "rbind list option"
  wr_exists_key :: "bytes option"
  wr_exists_ret :: bool
  wr_buffer :: bytes
  wr_buflen :: nat
  wr_buffersz :: nat
  wr_info_cb :: bool

record info_lib = net +
  li_fd :: int
  li_last_error :: bytes
  li_proto :: "proto option"
  li_tx_begun :: bool
  li_errno :: errno
  li_retries :: nat
  li_wait :: waitret

type_synonym 'w info_cb_fn = "bytes \<Rightarrow> bytes option \<Rightarrow> 'w info_lib_scheme \<Rightarrow> (int \<times> 'w info_lib_scheme) option"

definition ONCE :: byte where
  "ONCE = MSG_EOF - 1"

definition waitret_zero :: waitret where
  "waitret_zero = \<lparr>wr_until = 0, wr_in_cb = False, wr_done = 0, wr_binds = None, wr_exists_key = None,
     wr_exists_ret = False, wr_buffer = [], wr_buflen = 0, wr_buffersz = 0, wr_info_cb = False\<rparr>"

definition set_errno :: "errno \<Rightarrow> 'w info_lib_scheme \<Rightarrow> 'w info_lib_scheme" where
  "set_errno e w = w\<lparr>li_errno := e\<rparr>"

text \<open>\<^verbatim>\<open>snprintf(last_error, sizeof last_error, ...)\<close>\<close>

definition set_last_error :: "bytes \<Rightarrow> 'w info_lib_scheme \<Rightarrow> 'w info_lib_scheme" where
  "set_last_error msg w = w\<lparr>li_last_error := take 1023 msg\<rparr>"

subsection \<open>Sending\<close>

definition on_sendv :: "kernel \<Rightarrow> 'w info_lib_scheme \<Rightarrow> bytes \<Rightarrow> int \<times> 'w info_lib_scheme" where
  "on_sendv K w bs = (let r = k_writev K (events w) (li_fd w) bs in (r, w\<lparr>events := events w @ [Writev (li_fd w) bs r]\<rparr>))"

text \<open>The callbacks for sending.  The library never sets \<^verbatim>\<open>on_error\<close>.\<close>

definition lib_out_cb :: "kernel \<Rightarrow> 'w info_lib_scheme cb" where
  "lib_out_cb K = \<lparr>cb_input = (\<lambda>p w msg data. None), cb_sendv = (\<lambda>p w bs. Some (on_sendv K w bs)),
     cb_error = (\<lambda>p w msg. None)\<rparr>"

text \<open>\<^verbatim>\<open>proto_output(proto, ...)\<close>, a fault without a connection.\<close>

definition lib_output :: "kernel \<Rightarrow> byte \<Rightarrow> bytes \<Rightarrow> arg list \<Rightarrow> 'w info_lib_scheme \<Rightarrow> (int \<times> 'w info_lib_scheme) option" where
  "lib_output K msg fmt ap w = do {
     p \<leftarrow> li_proto w;
     (r, p1, w1) \<leftarrow> proto_output (lib_out_cb K) p w msg fmt ap;
     Some (r, w1\<lparr>li_proto := Some p1\<rparr>)
   }"

definition cb_op :: "kernel \<Rightarrow> byte \<Rightarrow> bytes \<Rightarrow> 'w info_lib_scheme \<Rightarrow> (int \<times> 'w info_lib_scheme) option" where
  "cb_op K msg arg w = lib_output K msg (lit ''%s'') [ArgStr arg] w"

definition info_cb_read :: "kernel \<Rightarrow> bytes \<Rightarrow> 'w info_lib_scheme \<Rightarrow> (int \<times> 'w info_lib_scheme) option" where
  "info_cb_read K key w = cb_op K CMD_READ key w"

definition info_cb_sub :: "kernel \<Rightarrow> bytes \<Rightarrow> 'w info_lib_scheme \<Rightarrow> (int \<times> 'w info_lib_scheme) option" where
  "info_cb_sub K pattern w = cb_op K CMD_SUB pattern w"

definition info_cb_unsub :: "kernel \<Rightarrow> bytes \<Rightarrow> 'w info_lib_scheme \<Rightarrow> (int \<times> 'w info_lib_scheme) option" where
  "info_cb_unsub K pattern w = cb_op K CMD_UNSUB pattern w"

subsection \<open>Receiving\<close>

definition waitret_init :: "'w info_lib_scheme \<Rightarrow> int \<times> 'w info_lib_scheme" where
  "waitret_init w =
     (if wr_in_cb (li_wait w) then (-1, set_errno EBUSY w) else (0, w\<lparr>li_wait := waitret_zero\<rparr>))"

text \<open>The result is the return value, the binding and \<^verbatim>\<open>waitret\<close>.\<close>

definition waitret_bind :: "rbind \<Rightarrow> bytes \<Rightarrow> waitret \<Rightarrow> (int \<times> rbind \<times> waitret) option" where
  "waitret_bind b data wr =
     (let keylen = length (cstr data) in
      if keylen = length data then Some (0, b\<lparr>b_value := None, b_valuesz := 0\<rparr>, wr)
      else
        let value = drop (keylen + 1) data; valuesz = length data - (keylen + 1) in
        if wr_buffersz wr < valuesz + wr_buflen wr then Some (-1, b, wr)
        else do {
          buf \<leftarrow> poke (wr_buffer wr) (wr_buflen wr) value;
          Some (0, b\<lparr>b_value := Some (wr_buflen wr), b_valuesz := valuesz\<rparr>,
            wr\<lparr>wr_buffer := buf, wr_buflen := wr_buflen wr + valuesz\<rparr>)
        })"

text \<open>The first binding with the key of the message is filled in.\<close>

fun bind_first :: "rbind list \<Rightarrow> bytes \<Rightarrow> waitret \<Rightarrow> (int \<times> rbind list \<times> waitret) option" where
  "bind_first [] data wr = Some (0, [], wr)"
| "bind_first (b # bs) data wr =
     (if cstr data = cstr (b_key b) then do {
        (r, b1, wr1) \<leftarrow> waitret_bind b data wr;
        Some (r, b1 # bs, wr1)
      } else do {
        (r, bs1, wr1) \<leftarrow> bind_first bs data wr;
        Some (r, b # bs1, wr1)
      })"

definition input_exists :: "bytes \<Rightarrow> waitret \<Rightarrow> waitret" where
  "input_exists data wr =
     (case wr_exists_key wr of
        None \<Rightarrow> wr
      | Some key \<Rightarrow>
          if cstr key = cstr data
          then wr\<lparr>wr_exists_ret := (length (cstr key) \<noteq> length data), wr_done := wr_done wr + 1\<rparr>
          else wr)"

definition input_binds :: "bytes \<Rightarrow> 'w info_lib_scheme \<Rightarrow> (int \<times> 'w info_lib_scheme) option" where
  "input_binds data w =
     (case wr_binds (li_wait w) of
        None \<Rightarrow> Some (0, w)
      | Some bs \<Rightarrow> do {
          (r, bs1, wr) \<leftarrow> bind_first bs data (li_wait w);
          let w1 = w\<lparr>li_wait := wr\<lparr>wr_binds := Some bs1\<rparr>\<rparr>;
          Some (r, if r = -1 then set_errno ENOMEM w1 else w1)
        })"

definition input_callback :: "'w info_cb_fn \<Rightarrow> bytes \<Rightarrow> 'w info_lib_scheme \<Rightarrow> (int \<times> 'w info_lib_scheme) option" where
  "input_callback F data w =
     (if \<not> wr_info_cb (li_wait w) then Some (0, w)
      else do {
        let key = cstr data;
        let val = (if length key = length data then None else Some (drop (length key + 1) data));
        (cb_ret, w1) \<leftarrow> F key val (w\<lparr>li_wait := (li_wait w)\<lparr>wr_in_cb := True\<rparr>\<rparr>);
        let w2 = w1\<lparr>li_wait := (li_wait w1)\<lparr>wr_in_cb := False\<rparr>\<rparr>;
        let w3 = (if cb_ret = 0 \<and> wr_until (li_wait w2) = MSG_EOF
                  then w2\<lparr>li_wait := (li_wait w2)\<lparr>wr_done := wr_done (li_wait w2) + 1\<rparr>\<rparr> else w2);
        Some (if cb_ret = -1 then -1 else 0, w3)
      })"

definition on_input :: "'w info_cb_fn \<Rightarrow> byte \<Rightarrow> bytes \<Rightarrow> 'w info_lib_scheme \<Rightarrow> (int \<times> 'w info_lib_scheme) option" where
  "on_input F msg data w0 =
     (let w = (if wr_until (li_wait w0) = msg
               then w0\<lparr>li_wait := (li_wait w0)\<lparr>wr_done := wr_done (li_wait w0) + 1\<rparr>\<rparr> else w0) in
      if msg = MSG_EOF then Some (0, set_last_error (lit ''Connection closed'') w)
      else if msg = MSG_INFO then do {
        (r, w1) \<leftarrow> input_binds data (w\<lparr>li_wait := input_exists data (li_wait w)\<rparr>);
        if r = -1 then Some (-1, w1)
        else do {
          (r2, w2) \<leftarrow> input_callback F data w1;
          Some (if r2 = -1 then -1 else 1, w2)
        }
      } else if msg = MSG_ERROR then Some (0, set_last_error (lit ''(server) '' @ prec_s (length data) data) w)
      else Some (1, w))"

text \<open>The translator that receives is the static \<^verbatim>\<open>proto\<close>.\<close>

definition lib_cb :: "kernel \<Rightarrow> 'w info_cb_fn \<Rightarrow> 'w info_lib_scheme cb" where
  "lib_cb K F = (lib_out_cb K)\<lparr>cb_input := (\<lambda>p w msg data. do {
     (r, w1) \<leftarrow> on_input F msg data (w\<lparr>li_proto := Some p\<rparr>);
     p1 \<leftarrow> li_proto w1;
     Some (r, p1, w1)
   })\<rparr>"

partial_function (option) wait_loop ::
  "kernel \<Rightarrow> 'w info_cb_fn \<Rightarrow> byte \<Rightarrow> 'w info_lib_scheme \<Rightarrow> (int \<times> 'w info_lib_scheme) option" where
  [code]: "wait_loop K F msg w =
     (case sys_read K (li_fd w) PROTO_RECVSZ w of
        (None, w1) \<Rightarrow> Some (-1, w1)
      | (Some net, w1) \<Rightarrow>
          if net = [] then Some (-1, set_errno EPIPE (set_last_error (lit ''connection closed by server'') w1))
          else
            Option.bind (li_proto w1) (\<lambda>p.
            Option.bind (proto_recv (k_os K) (lib_cb K F) p w1 net 0) (\<lambda>(r, p1, w2).
            let w3 = w2\<lparr>li_proto := Some p1\<rparr> in
            if r = 0 then Some (-1, set_errno EPIPE w3)
            else if r < 0 then Some (r, w3)
            else if msg \<noteq> ONCE \<and> wr_done (li_wait w3) = 0 then wait_loop K F msg w3
            else Some (wr_done (li_wait w3), w3))))"

definition wait_until :: "kernel \<Rightarrow> 'w info_cb_fn \<Rightarrow> byte \<Rightarrow> 'w info_lib_scheme \<Rightarrow> (int \<times> 'w info_lib_scheme) option" where
  "wait_until K F msg w = wait_loop K F msg (w\<lparr>li_wait := (li_wait w)\<lparr>wr_until := msg, wr_done := 0\<rparr>\<rparr>)"

subsection \<open>Connecting\<close>

definition info_close :: "kernel \<Rightarrow> 'w info_lib_scheme \<Rightarrow> int \<times> 'w info_lib_scheme" where
  "info_close K w =
     (if wr_in_cb (li_wait w) then (-1, set_errno EBUSY w)
      else
        let w1 = w\<lparr>li_proto := None\<rparr>;
            w2 = (if li_fd w1 \<noteq> -1 then (snd (sys_close K (li_fd w1) w1))\<lparr>li_fd := -1\<rparr> else w1)
        in (0, w2\<lparr>li_tx_begun := False\<rparr>))"

text \<open>\<^verbatim>\<open>goto fail\<close>\<close>

definition info_fail :: "kernel \<Rightarrow> 'w info_lib_scheme \<Rightarrow> int \<times> 'w info_lib_scheme" where
  "info_fail K w = (-1, snd (info_close K w))"

text \<open>The loop over the addresses; it goes on after a connection was made.\<close>

fun open_tcp_loop :: "kernel \<Rightarrow> (int \<times> bytes) list \<Rightarrow> int \<Rightarrow> bytes \<Rightarrow> 'w info_lib_scheme \<Rightarrow> int \<times> bytes \<times> 'w info_lib_scheme" where
  "open_tcp_loop K [] s reason w = (s, reason, w)"
| "open_tcp_loop K ((family, addr) # ais) s reason w =
     (let (s1, w1) = sys_socket K family w in
      if s1 = -1 then open_tcp_loop K ais (-1) (lit ''socket'') w1
      else let (r, w2) = sys_connect K s1 addr w1 in
        if r = -1 then open_tcp_loop K ais (-1) (lit ''connect'') (snd (sys_close K s1 w2))
        else open_tcp_loop K ais s1 reason w2)"

definition open_tcp :: "kernel \<Rightarrow> bytes option \<Rightarrow> 'w info_lib_scheme \<Rightarrow> (int \<times> 'w info_lib_scheme) option" where
  "open_tcp K hostport w =
     (let target = (case hostport of None \<Rightarrow> lit ''localhost:'' @ INFOD3_PORT | Some h \<Rightarrow> h) in do {
        ais \<leftarrow> tcp_client_addrinfo K hostport w;
        case ais of
          Inl err \<Rightarrow> Some (-1, set_last_error (target @ lit '': '' @ err) w)
        | Inr ais \<Rightarrow>
            let (s, reason, w1) = open_tcp_loop K ais (-1) (lit ''?'') w in
            if s = -1 then Some (-1, set_last_error (reason @ lit '' '' @ target @ lit '': '' @ strerror K w1) w1)
            else Some (s, w1)
      })"

text \<open>The result has the mode of the connection when it was made.\<close>

definition try_connect :: "kernel \<Rightarrow> bytes option \<Rightarrow> int \<Rightarrow> 'w info_lib_scheme \<Rightarrow> (int \<times> int \<times> 'w info_lib_scheme) option" where
  "try_connect K hostport mode w =
     (case hostport of
        Some h \<Rightarrow> do {
          (s, w1) \<leftarrow> open_tcp K hostport w;
          let w2 = w1\<lparr>li_fd := s\<rparr>;
          Some (if s = -1 then (-1, mode, w2) else (0, PROTO_MODE_BINARY, w2))
        }
      | None \<Rightarrow>
          let (s, w1) = sockunix_connect K w; w2 = w1\<lparr>li_fd := s\<rparr> in
          Some (if s = -1 then (-1, mode, set_last_error (lit ''sockunix_connect: '' @ strerror K w2) w2)
                else (0, PROTO_MODE_FRAMED, w2)))"

text \<open>The retries: \<open>k\<close> are left.\<close>

fun retry_loop :: "kernel \<Rightarrow> bytes option \<Rightarrow> nat \<Rightarrow> nat \<Rightarrow> int \<Rightarrow> 'w info_lib_scheme \<Rightarrow> (int \<times> 'w info_lib_scheme) option" where
  "retry_loop K hostport 0 retry mode w = Some (mode, w)"
| "retry_loop K hostport (Suc k) retry mode w = do {
     (r, mode1, w1) \<leftarrow> try_connect K hostport mode (emit (Sleep retry) w);
     if r = 0 then Some (mode1, w1) else retry_loop K hostport k (retry + 1) mode1 w1
   }"

definition info_open :: "kernel \<Rightarrow> bytes option \<Rightarrow> 'w info_lib_scheme \<Rightarrow> (int \<times> 'w info_lib_scheme) option" where
  "info_open K hostport w =
     (if li_fd w \<noteq> -1 \<and> li_proto w \<noteq> None then Some (0, w)
      else let (r, w1) = waitret_init w in
        if r = -1 then Some (-1, w1)
        else do {
          let w2 = snd (info_close K (w1\<lparr>li_last_error := []\<rparr>));
          (r3, mode, w3) \<leftarrow> try_connect K hostport PROTO_MODE_UNKNOWN w2;
          (mode4, w4) \<leftarrow> (if r3 = -1 then retry_loop K hostport (li_retries w3) 0 mode w3 else Some (mode, w3));
          if li_fd w4 = -1 then Some (-1, w4)
          else case proto_new (k_os K) of
            None \<Rightarrow> Some (info_fail K w4)
          | Some p \<Rightarrow>
              Some (0, w4\<lparr>li_proto := Some (proto_set_on_sendv Set (proto_set_on_input Set (snd (proto_set_mode mode4 p))))\<rparr>)
        })"

definition info_cb_close :: "'w info_lib_scheme \<Rightarrow> 'w info_lib_scheme" where
  "info_cb_close w = (if li_fd w \<noteq> -1 then emit (Shutdown_read (li_fd w)) w else w)"

definition info_fileno :: "'w info_lib_scheme \<Rightarrow> int" where
  "info_fileno w = li_fd w"

definition info_get_last_error :: "'w info_lib_scheme \<Rightarrow> bytes" where
  "info_get_last_error w = li_last_error w"

end
