(* ===== verification/Libinfo_Ops.thy ===== *)
theory Libinfo_Ops
  imports Libinfo
begin

text \<open>
  The operations that \<^verbatim>\<open>src/lib/info.h\<close> offers to applications.  Keys and patterns are C strings;
  a value is its bytes, with \<open>None\<close> for \<^verbatim>\<open>NULL\<close>.
\<close>

text \<open>Operations without a callback leave \<^verbatim>\<open>waitret.info_cb\<close> \<^verbatim>\<open>NULL\<close>.\<close>

definition no_cb :: "'w info_cb_fn" where
  "no_cb key val w = None"

text \<open>\<^verbatim>\<open>if (proto_output(...) == -1) goto fail;\<close> for a list of messages.\<close>

fun lib_outputs :: "kernel \<Rightarrow> (byte \<times> bytes \<times> arg list) list \<Rightarrow> 'w info_lib_scheme \<Rightarrow> (int \<times> 'w info_lib_scheme) option" where
  "lib_outputs K [] w = Some (0, w)"
| "lib_outputs K ((msg, fmt, ap) # ms) w = do {
     (r, w1) \<leftarrow> lib_output K msg fmt ap w;
     if r = -1 then Some (-1, w1) else lib_outputs K ms w1
   }"

subsection \<open>Reading\<close>

text \<open>\<^verbatim>\<open>binds\<close> is the array up to the entry without a key.\<close>

definition readv_outputs :: "rbind list \<Rightarrow> (byte \<times> bytes \<times> arg list) list" where
  "readv_outputs binds =
     (case binds of
        [b] \<Rightarrow> [(CMD_READ, lit ''%s'', [ArgStr (b_key b)])]
      | _ \<Rightarrow> [(CMD_BEGIN, [], [])] @ map (\<lambda>b. (CMD_READ, lit ''%s'', [ArgStr (b_key b)])) binds @
          [(CMD_PING, [], []), (CMD_COMMIT, [], [])])"

text \<open>The result has the bindings and the buffer as the operation left them.\<close>

definition info_readv ::
  "kernel \<Rightarrow> rbind list \<Rightarrow> bytes \<Rightarrow> nat \<Rightarrow> 'w info_lib_scheme \<Rightarrow> (int \<times> rbind list \<times> bytes \<times> 'w info_lib_scheme) option" where
  "info_readv K binds0 buffer bufsz w =
     (if binds0 = [] then Some (0, [], buffer, w)
      else
        let binds = map (\<lambda>b. b\<lparr>b_value := None, b_valuesz := 0\<rparr>) binds0; (r, w1) = waitret_init w in
        if r = -1 then Some (-1, binds, buffer, w1)
        else do {
          (r2, w2) \<leftarrow> info_open K None w1;
          if r2 = -1 then Some (-1, binds, buffer, w2)
          else do {
            (r3, w3) \<leftarrow> lib_outputs K (readv_outputs binds) w2;
            if r3 = -1 then
              let (r4, w4) = info_fail K w3 in Some (r4, binds, buffer, w4)
            else do {
              let w4 = w3\<lparr>li_wait := (li_wait w3)\<lparr>wr_binds := Some binds, wr_buffer := buffer, wr_buffersz := bufsz\<rparr>\<rparr>;
              (r5, w5) \<leftarrow> wait_until K no_cb (if length binds = 1 then MSG_INFO else MSG_PONG) w4;
              bs \<leftarrow> wr_binds (li_wait w5);
              let buf = wr_buffer (li_wait w5);
              if r5 = -1 then
                let (r6, w6) = info_fail K w5 in Some (r6, bs, buf, w6)
              else Some (0, bs, buf, w5)
            }
          }
        })"

text \<open>A binding with only a key.\<close>

definition key_bind :: "bytes \<Rightarrow> rbind" where
  "key_bind key = \<lparr>b_key = key, b_value = None, b_valuesz = 0\<rparr>"

definition info_read :: "kernel \<Rightarrow> bytes \<Rightarrow> bytes \<Rightarrow> nat \<Rightarrow> 'w info_lib_scheme \<Rightarrow> (int \<times> bytes \<times> 'w info_lib_scheme) option" where
  "info_read K key buf bufsz w = do {
     (r, bs, buf1, w1) \<leftarrow> info_readv K [key_bind key] buf bufsz w;
     if r = -1 then Some (-1, buf1, w1)
     else do {
       b \<leftarrow> nth_opt bs 0;
       case b_value b of
         None \<Rightarrow> Some (-1, buf1, set_errno ENOENT w1)
       | Some off \<Rightarrow> do {
           val \<leftarrow> peek buf1 off (b_valuesz b);
           buf2 \<leftarrow> poke buf1 0 val;
           Some (int (b_valuesz b), buf2, w1)
         }
     }
   }"

text \<open>The pointer is an offset into the buffer, \<open>None\<close> for \<^verbatim>\<open>NULL\<close>.\<close>

definition info_reads :: "kernel \<Rightarrow> bytes \<Rightarrow> bytes \<Rightarrow> nat \<Rightarrow> 'w info_lib_scheme \<Rightarrow> (nat option \<times> bytes \<times> 'w info_lib_scheme) option" where
  "info_reads K key buf bufsz w =
     (if bufsz = 0 then Some (None, buf, set_errno ENOMEM w)
      else do {
        (r, bs, buf1, w1) \<leftarrow> info_readv K [key_bind key] buf (bufsz - 1) w;
        if r = -1 then Some (None, buf1, w1)
        else do {
          b \<leftarrow> nth_opt bs 0;
          case b_value b of
            None \<Rightarrow> Some (None, buf1, set_errno ENOENT w1)
          | Some off \<Rightarrow> do {
              buf2 \<leftarrow> poke buf1 (off + b_valuesz b) [0];
              Some (Some off, buf2, w1)
            }
        }
      })"

definition info_exists :: "kernel \<Rightarrow> bytes \<Rightarrow> 'w info_lib_scheme \<Rightarrow> (int \<times> 'w info_lib_scheme) option" where
  "info_exists K key w =
     (let (r, w1) = waitret_init w in
      if r = -1 then Some (-1, w1)
      else do {
        (r2, w2) \<leftarrow> info_open K None w1;
        if r2 = -1 then Some (-1, w2)
        else do {
          (r3, w3) \<leftarrow> lib_output K CMD_READ (lit ''%s'') [ArgStr key] w2;
          if r3 = -1 then Some (info_fail K w3)
          else do {
            (r4, w4) \<leftarrow> wait_until K no_cb MSG_EOF (w3\<lparr>li_wait := (li_wait w3)\<lparr>wr_exists_key := Some key\<rparr>\<rparr>);
            if r4 = -1 then Some (info_fail K w4)
            else Some (if wr_exists_ret (li_wait w4) then 1 else 0, w4)
          }
        }
      })"

subsection \<open>Writing\<close>

definition write_output :: "bytes \<times> bytes option \<Rightarrow> byte \<times> bytes \<times> arg list" where
  "write_output = (\<lambda>(key, val). case val of
       Some v \<Rightarrow> (CMD_WRITE, lit ''%s%c%*s'', [ArgStr key, ArgInt 0, ArgInt (int (length v)), ArgStr v])
     | None \<Rightarrow> (CMD_WRITE, lit ''%s'', [ArgStr key]))"

definition writev_outputs :: "(bytes \<times> bytes option) list \<Rightarrow> (byte \<times> bytes \<times> arg list) list" where
  "writev_outputs binds =
     (let multi = (1 < length binds) in
      (if multi then [(CMD_BEGIN, [], [])] else []) @ map write_output binds @
      (if multi then [(CMD_COMMIT, [], [])] else []))"

definition info_writev :: "kernel \<Rightarrow> (bytes \<times> bytes option) list \<Rightarrow> 'w info_lib_scheme \<Rightarrow> (int \<times> 'w info_lib_scheme) option" where
  "info_writev K binds w =
     (if binds = [] then Some (0, w)
      else do {
        (r, w1) \<leftarrow> info_open K None w;
        if r = -1 then Some (-1, w1)
        else do {
          (r2, w2) \<leftarrow> lib_outputs K (writev_outputs binds) w1;
          if r2 = -1 then Some (info_fail K w2) else Some (0, w2)
        }
      })"

definition info_write :: "kernel \<Rightarrow> bytes \<Rightarrow> bytes option \<Rightarrow> 'w info_lib_scheme \<Rightarrow> (int \<times> 'w info_lib_scheme) option" where
  "info_write K key val w = info_writev K [(key, val)] w"

definition info_writes :: "kernel \<Rightarrow> bytes \<Rightarrow> bytes option \<Rightarrow> 'w info_lib_scheme \<Rightarrow> (int \<times> 'w info_lib_scheme) option" where
  "info_writes K key value_str w = info_write K key (map_option cstr value_str) w"

definition info_delete :: "kernel \<Rightarrow> bytes \<Rightarrow> 'w info_lib_scheme \<Rightarrow> (int \<times> 'w info_lib_scheme) option" where
  "info_delete K key w = info_write K key None w"

subsection \<open>Transactions\<close>

definition info_tx_begin :: "kernel \<Rightarrow> 'w info_lib_scheme \<Rightarrow> (int \<times> 'w info_lib_scheme) option" where
  "info_tx_begin K w =
     (if li_tx_begun w then Some (-1, set_errno EIO w)
      else do {
        (r, w1) \<leftarrow> info_open K None w;
        if r = -1 then Some (-1, w1)
        else do {
          (r2, w2) \<leftarrow> lib_output K CMD_BEGIN [] [] w1;
          if r2 = -1 then Some (info_fail K w2) else Some (0, w2\<lparr>li_tx_begun := True\<rparr>)
        }
      })"

text \<open>The common body of the operations inside a transaction.\<close>

definition tx_op :: "kernel \<Rightarrow> byte \<Rightarrow> bytes \<Rightarrow> arg list \<Rightarrow> 'w info_lib_scheme \<Rightarrow> (int \<times> 'w info_lib_scheme) option" where
  "tx_op K msg fmt ap w =
     (if \<not> li_tx_begun w then Some (-1, set_errno EIO w)
      else do {
        (r, w1) \<leftarrow> lib_output K msg fmt ap w;
        if r = -1 then Some (info_fail K w1) else Some (0, w1)
      })"

definition info_tx_read :: "kernel \<Rightarrow> bytes \<Rightarrow> 'w info_lib_scheme \<Rightarrow> (int \<times> 'w info_lib_scheme) option" where
  "info_tx_read K key w = tx_op K CMD_READ (lit ''%s'') [ArgStr key] w"

definition info_tx_write :: "kernel \<Rightarrow> bytes \<Rightarrow> bytes \<Rightarrow> 'w info_lib_scheme \<Rightarrow> (int \<times> 'w info_lib_scheme) option" where
  "info_tx_write K key val w =
     tx_op K CMD_WRITE (lit ''%s%c%*s'') [ArgStr key, ArgInt 0, ArgInt (int (length val)), ArgStr val] w"

definition info_tx_delete :: "kernel \<Rightarrow> bytes \<Rightarrow> 'w info_lib_scheme \<Rightarrow> (int \<times> 'w info_lib_scheme) option" where
  "info_tx_delete K key w = tx_op K CMD_WRITE (lit ''%s'') [ArgStr key] w"

definition info_tx_sub :: "kernel \<Rightarrow> bytes \<Rightarrow> 'w info_lib_scheme \<Rightarrow> (int \<times> 'w info_lib_scheme) option" where
  "info_tx_sub K pattern w = tx_op K CMD_SUB (lit ''%s'') [ArgStr pattern] w"

definition info_tx_unsub :: "kernel \<Rightarrow> bytes \<Rightarrow> 'w info_lib_scheme \<Rightarrow> (int \<times> 'w info_lib_scheme) option" where
  "info_tx_unsub K pattern w = tx_op K CMD_UNSUB (lit ''%s'') [ArgStr pattern] w"

definition info_tx_commit :: "kernel \<Rightarrow> 'w info_cb_fn option \<Rightarrow> 'w info_lib_scheme \<Rightarrow> (int \<times> 'w info_lib_scheme) option" where
  "info_tx_commit K cb w =
     (if \<not> li_tx_begun w then Some (-1, set_errno EIO w)
      else let (r, w1) = waitret_init w in
        if r = -1 then Some (-1, w1)
        else do {
          (r2, w2) \<leftarrow> lib_outputs K [(CMD_PING, [], []), (CMD_COMMIT, [], [])] w1;
          if r2 = -1 then Some (info_fail K w2)
          else do {
            (r3, w3) \<leftarrow> wait_until K (case cb of None \<Rightarrow> no_cb | Some F \<Rightarrow> F) MSG_PONG
              (w2\<lparr>li_tx_begun := False, li_wait := (li_wait w2)\<lparr>wr_info_cb := (cb \<noteq> None)\<rparr>\<rparr>);
            if r3 = -1 then Some (info_fail K w3) else Some (r3, w3)
          }
        })"

subsection \<open>Loops\<close>

definition dispatch_until :: "kernel \<Rightarrow> byte \<Rightarrow> 'w info_cb_fn option \<Rightarrow> 'w info_lib_scheme \<Rightarrow> (int \<times> 'w info_lib_scheme) option" where
  "dispatch_until K msg cb w =
     (let (r, w1) = waitret_init w in
      if r = -1 then Some (-1, w1)
      else if li_fd w1 = -1 \<or> li_proto w1 = None then Some (-1, set_errno EBADF w1)
      else do {
        (ret, w2) \<leftarrow> wait_until K (case cb of None \<Rightarrow> no_cb | Some F \<Rightarrow> F) msg
          (w1\<lparr>li_wait := (li_wait w1)\<lparr>wr_info_cb := (cb \<noteq> None)\<rparr>\<rparr>);
        if ret = -1 then Some (-1, (snd (info_close K w2))\<lparr>li_errno := li_errno w2\<rparr>) else Some (ret, w2)
      })"

definition info_loop :: "kernel \<Rightarrow> 'w info_cb_fn option \<Rightarrow> 'w info_lib_scheme \<Rightarrow> (int \<times> 'w info_lib_scheme) option" where
  "info_loop K cb w = dispatch_until K MSG_EOF cb w"

definition info_recv1 :: "kernel \<Rightarrow> 'w info_cb_fn option \<Rightarrow> 'w info_lib_scheme \<Rightarrow> (int \<times> 'w info_lib_scheme) option" where
  "info_recv1 K cb w = dispatch_until K ONCE cb w"

end
