(* ===== verification/Libinfo_Correct.thy ===== *)
theory Libinfo_Correct
  imports Libinfo_Ops Infod_Correct
begin

text \<open>
  The client library on a connection to the daemon's unix socket, where each message is one packet: what
  its operations send, and what they make of the answer.
\<close>

subsection \<open>Definitions\<close>

text \<open>An open connection in the framed mode, outside of a callback.\<close>

definition on_line :: "'w info_lib_scheme \<Rightarrow> bool" where
  "on_line w \<longleftrightarrow> li_fd w \<noteq> -1 \<and> \<not> wr_in_cb (li_wait w) \<and>
     (\<exists>p. li_proto w = Some p \<and> p_mode p = PROTO_MODE_FRAMED \<and> p_on_sendv p = Set \<and> p_on_input p = Set)"

text \<open>A packet is handed to the system.\<close>

definition put_packet :: "kernel \<Rightarrow> bytes \<Rightarrow> 'w info_lib_scheme \<Rightarrow> int \<times> 'w info_lib_scheme" where
  "put_packet K bs w = sys_writev K (li_fd w) bs w"

text \<open>The library right after a connection was made, for the examples.\<close>

definition sample_lib :: info_lib where
  "sample_lib = \<lparr>events = [], li_fd = 3, li_last_error = [], li_proto = Some (fresh_proto PROTO_MODE_FRAMED), li_tx_begun = False,
     li_errno = ENONE, li_retries = 0, li_wait = waitret_zero\<rparr>"

text \<open>A system with a host of two addresses, the second of which refuses connections.\<close>

definition dual_kernel :: kernel where
  "dual_kernel = sample_kernel\<lparr>k_socket := (\<lambda>ev f. 4), k_getaddrinfo := (\<lambda>ev node port. Inr [(10, [1]), (2, [2])]), k_connect := (\<lambda>ev s a. if a = [1] then 0 else -1)\<rparr>"

subsection \<open>Sending\<close>

lemma lib_output_packet:
  assumes "on_line w" "\<And>p. \<exists>iov. to_binary_iov (lib_out_cb K) p w 7 8 fmt ap = Some (Some iov, w) \<and> iov_gather iov = Some d"
  shows "lib_output K msg fmt ap w = Some (put_packet K (msg # d) w)"
proof -
  obtain p where p: "li_proto w = Some p" "p_mode p = PROTO_MODE_FRAMED" "p_on_sendv p = Set" using assms(1) by (auto simp: on_line_def)
  obtain iov where iov: "to_binary_iov (lib_out_cb K) p w 7 8 fmt ap = Some (Some iov, w)" "iov_gather iov = Some d" using assms(2) by blast
  have "iov_gather (([msg], 1) # iov) = Some (msg # d)" using iov(2) by (simp add: peek_def)
  then have "sendv (lib_out_cb K) p w (([msg], 1) # iov) = Some (put_packet K (msg # d) w)"
    using p by (simp add: sendv_def lib_out_cb_def on_sendv_def put_packet_def sys_writev_def emit_def Let_def)
  then have "proto_output (lib_out_cb K) p w msg fmt ap = Some (fst (put_packet K (msg # d) w), p, snd (put_packet K (msg # d) w))"
    using p iov by (simp add: proto_output_def proto_outputv_def output_framed_def mode_defs Let_def case_prod_unfold)
  moreover have "(snd (put_packet K (msg # d) w))\<lparr>li_proto := Some p\<rparr> = snd (put_packet K (msg # d) w)"
    using p(1) by (cases w) (simp add: put_packet_def sys_writev_def emit_def Let_def)
  ultimately show ?thesis using p(1) by (simp add: lib_output_def)
qed

lemma lib_output_string:
  assumes "on_line w" "\<not> has_nul key"
  shows "lib_output K msg (lit ''%s'') [ArgStr key] w = Some (put_packet K (msg # key) w)"
  by (rule lib_output_packet [OF assms(1)]) (simp add: lit_def peek_def cstr_id [OF assms(2)])

lemma lib_output_keyvalue:
  assumes "on_line w" "\<not> has_nul key" "length val < 65536"
  shows "lib_output K msg (lit ''%s%c%*s'') [ArgStr key, ArgInt 0, ArgInt (int (length val)), ArgStr val] w = Some (put_packet K (msg # key @ 0 # val) w)"
proof (rule lib_output_packet [OF assms(1)])
  have "size_t (int (length val)) = length val" using assms(3) by (simp add: size_t_def)
  then show "\<exists>iov. to_binary_iov (lib_out_cb K) p w 7 8 (lit ''%s%c%*s'') [ArgStr key, ArgInt 0, ArgInt (int (length val)), ArgStr val] = Some (Some iov, w) \<and>
      iov_gather iov = Some (key @ 0 # val)" for p
    using assms(3) by (simp add: lit_def peek_def low_byte_def cstr_id [OF assms(2)])
qed

lemma info_open_line: "on_line w \<Longrightarrow> info_open K hostport w = Some (0, w)"
  by (auto simp: on_line_def info_open_def)

lemma write_packet:
  assumes "on_line w" "\<not> has_nul key" "length val < 65536"
  shows "info_write K key (Some val) w =
    Some (let (r, w1) = put_packet K (CMD_WRITE # key @ 0 # val) w in if r = -1 then info_fail K w1 else (0, w1))"
  using lib_output_keyvalue [OF assms, of K CMD_WRITE]
  by (simp add: info_write_def info_writev_def info_open_line [OF assms(1)] writev_outputs_def write_output_def Let_def case_prod_unfold)

subsection \<open>Reading a value\<close>

text \<open>An answer to a read of one key is put into its binding, if it is about that key.\<close>

lemma input_info:
  assumes "wr_binds (li_wait w) = Some [b]" "wr_exists_key (li_wait w) = None" "\<not> wr_info_cb (li_wait w)" "wr_until (li_wait w) = MSG_INFO" "wr_done (li_wait w) = 0"
    "bind_first [b] data ((li_wait w)\<lparr>wr_done := 1\<rparr>) = Some (r, bs, wr)" "\<not> wr_info_cb wr"
  shows "\<exists>w'. on_input no_cb MSG_INFO data w = Some (if r = -1 then -1 else 1, w') \<and> li_wait w' = wr\<lparr>wr_binds := Some bs\<rparr> \<and>
    li_errno w' = (if r = -1 then ENOMEM else li_errno w) \<and> events w' = events w \<and> li_fd w' = li_fd w \<and> li_proto w' = li_proto w"
  using assms
  by (simp add: on_input_def input_exists_def input_binds_def input_callback_def set_errno_def Let_def MSG_INFO_def MSG_EOF_def MSG_ERROR_def del: bind_first.simps)

lemma bind_one:
  assumes "b_key b = key" "\<not> has_nul key" "wr_buflen wr = 0" "wr_buffersz wr \<le> length (wr_buffer wr)" "\<not> wr_info_cb wr"
  shows "\<exists>r bs wr'. bind_first [b] data wr = Some (r, bs, wr') \<and> \<not> wr_info_cb wr' \<and> wr_done wr' = wr_done wr \<and> wr_in_cb wr' = wr_in_cb wr \<and>
    (if cstr data \<noteq> key then r = 0 \<and> bs = [b] \<and> wr_buffer wr' = wr_buffer wr
     else if length key = length data then r = 0 \<and> bs = [b\<lparr>b_value := None, b_valuesz := 0\<rparr>] \<and> wr_buffer wr' = wr_buffer wr
     else let val = drop (length key + 1) data in
       if wr_buffersz wr < length val then r = -1 \<and> bs = [b] \<and> wr_buffer wr' = wr_buffer wr
       else r = 0 \<and> bs = [b\<lparr>b_value := Some 0, b_valuesz := length val\<rparr>] \<and> wr_buffer wr' = val @ drop (length val) (wr_buffer wr))"
  using assms length_cstr_le [of data] by (auto simp: waitret_bind_def Let_def poke_def cstr_id)

lemma wait_info:
  assumes "on_line w" "wr_binds (li_wait w) = Some [b]" "b_key b = key" "\<not> has_nul key" "wr_exists_key (li_wait w) = None" "\<not> wr_info_cb (li_wait w)"
    "wr_buflen (li_wait w) = 0" "wr_buffersz (li_wait w) \<le> length (wr_buffer (li_wait w))"
    "k_read K (events w) (li_fd w) = Some (MSG_INFO # data)" "length data < PROTO_RECVSZ"
  shows "\<exists>r bs wr w'. bind_first [b] data ((li_wait w)\<lparr>wr_until := MSG_INFO, wr_done := 1\<rparr>) = Some (r, bs, wr) \<and>
    wait_until K no_cb MSG_INFO w = Some (if r = -1 then -1 else 1, w') \<and> li_wait w' = wr\<lparr>wr_binds := Some bs\<rparr> \<and>
    li_errno w' = (if r = -1 then ENOMEM else li_errno w) \<and> events w' = events w @ [Read (li_fd w) (Some (MSG_INFO # data))] \<and> li_fd w' = li_fd w"
proof -
  obtain p where p: "li_proto w = Some p" "p_mode p = PROTO_MODE_FRAMED" "p_on_input p = Set" using assms(1) by (auto simp: on_line_def)
  define w0 where "w0 = w\<lparr>li_wait := (li_wait w)\<lparr>wr_until := MSG_INFO, wr_done := 0\<rparr>\<rparr>"
  define w1 where "w1 = (emit (Read (li_fd w) (Some (MSG_INFO # data))) w0)\<lparr>li_proto := Some p\<rparr>"
  have lw: "li_wait w1 = (li_wait w)\<lparr>wr_until := MSG_INFO, wr_done := 0\<rparr>" by (simp add: w1_def w0_def emit_def)
  obtain r bs wr where b: "bind_first [b] data ((li_wait w)\<lparr>wr_until := MSG_INFO, wr_done := 1\<rparr>) = Some (r, bs, wr)" "\<not> wr_info_cb wr" "wr_done wr = 1"
    using bind_one [of b key "(li_wait w)\<lparr>wr_until := MSG_INFO, wr_done := 1\<rparr>" data] assms(3-8) by auto
  have "\<exists>w'. on_input no_cb MSG_INFO data w1 = Some (if r = -1 then -1 else 1, w') \<and> li_wait w' = wr\<lparr>wr_binds := Some bs\<rparr> \<and>
    li_errno w' = (if r = -1 then ENOMEM else li_errno w1) \<and> events w' = events w1 \<and> li_fd w' = li_fd w1 \<and> li_proto w' = li_proto w1"
    by (rule input_info [where b = b]) (use assms(2,5,6) b lw in \<open>simp_all del: bind_first.simps\<close>)
  then obtain w' where i: "on_input no_cb MSG_INFO data w1 = Some (if r = -1 then -1 else 1, w')" "li_wait w' = wr\<lparr>wr_binds := Some bs\<rparr>"
    "li_errno w' = (if r = -1 then ENOMEM else li_errno w1)" "events w' = events w1" "li_fd w' = li_fd w1" "li_proto w' = Some p" by (auto simp: w1_def)
  have net: "sys_read K (li_fd w0) PROTO_RECVSZ w0 = (Some (MSG_INFO # data), emit (Read (li_fd w) (Some (MSG_INFO # data))) w0)"
    using assms(9,10) by (simp add: sys_read_def w0_def PROTO_RECVSZ_def Let_def)
  have rcv: "proto_recv (k_os K) (lib_cb K no_cb) p (emit (Read (li_fd w) (Some (MSG_INFO # data))) w0) (MSG_INFO # data) 0 = Some (if r = -1 then -1 else 1, p, w')"
    using p i(1,6) by (simp add: proto_recv_def recv_framed_def mode_defs lib_cb_def w1_def [symmetric])
  have lp: "li_proto (emit (Read (li_fd w) (Some (MSG_INFO # data))) w0) = Some p" using p(1) by (simp add: w0_def emit_def)
  have "wait_until K no_cb MSG_INFO w = Some (if r = -1 then -1 else 1, w'\<lparr>li_proto := Some p\<rparr>)"
    unfolding wait_until_def w0_def [symmetric] by (subst wait_loop.simps) (simp add: net lp rcv i(2) b(3) Let_def)
  moreover have "li_errno w1 = li_errno w" "events w1 = events w @ [Read (li_fd w) (Some (MSG_INFO # data))]" "li_fd w1 = li_fd w"
    by (simp_all add: w1_def w0_def emit_def)
  ultimately show ?thesis using b(1) i by (intro exI [of _ r] exI [of _ bs] exI [of _ wr] exI [of _ "w'\<lparr>li_proto := Some p\<rparr>"]) simp
qed

lemma readv_start:
  fixes buf bufsz
  assumes "on_line w" "\<not> has_nul key" "k_writev K (events w) (li_fd w) (CMD_READ # key) = r" "r \<noteq> -1"
  defines "w1 \<equiv> w\<lparr>events := events w @ [Writev (li_fd w) (CMD_READ # key) r],
    li_wait := waitret_zero\<lparr>wr_binds := Some [key_bind key], wr_buffer := buf, wr_buffersz := bufsz\<rparr>\<rparr>"
  shows "info_readv K [key_bind key] buf bufsz w = do {
      (r5, w5) \<leftarrow> wait_until K no_cb MSG_INFO w1;
      bs \<leftarrow> wr_binds (li_wait w5);
      if r5 = -1 then let (r6, w6) = info_fail K w5 in Some (r6, bs, wr_buffer (li_wait w5), w6) else Some (0, bs, wr_buffer (li_wait w5), w5) }" "on_line w1"
proof -
  have i: "waitret_init w = (0, w\<lparr>li_wait := waitret_zero\<rparr>)" using assms(1) by (simp add: waitret_init_def on_line_def)
  have l: "on_line (w\<lparr>li_wait := waitret_zero\<rparr>)" using assms(1) by (simp add: on_line_def waitret_zero_def)
  have o: "lib_output K CMD_READ (lit ''%s'') [ArgStr key] (w\<lparr>li_wait := waitret_zero\<rparr>) =
      Some (r, w\<lparr>li_wait := waitret_zero, events := events w @ [Writev (li_fd w) (CMD_READ # key) r]\<rparr>)"
    using lib_output_string [OF l assms(2), of K CMD_READ] assms(3) by (simp add: put_packet_def sys_writev_def emit_def Let_def)
  have w1: "w1 = (w\<lparr>li_wait := waitret_zero, events := events w @ [Writev (li_fd w) (CMD_READ # key) r]\<rparr>)
      \<lparr>li_wait := waitret_zero\<lparr>wr_binds := Some [key_bind key], wr_buffer := buf, wr_buffersz := bufsz\<rparr>\<rparr>" by (cases w) (simp add: w1_def)
  show "info_readv K [key_bind key] buf bufsz w = do {
      (r5, w5) \<leftarrow> wait_until K no_cb MSG_INFO w1;
      bs \<leftarrow> wr_binds (li_wait w5);
      if r5 = -1 then let (r6, w6) = info_fail K w5 in Some (r6, bs, wr_buffer (li_wait w5), w6) else Some (0, bs, wr_buffer (li_wait w5), w5) }"
    using assms(4) by (simp add: info_readv_def key_bind_def i info_open_line [OF l] readv_outputs_def o w1 [unfolded key_bind_def] Let_def)
  show "on_line w1" using assms(1) by (simp add: on_line_def w1_def waitret_zero_def)
qed

lemma read_outcome:
  assumes "on_line w" "\<not> has_nul key" "bufsz \<le> length buf" "k_writev K (events w) (li_fd w) (CMD_READ # key) = r" "r \<noteq> -1"
    "k_read K (events w @ [Writev (li_fd w) (CMD_READ # key) r]) (li_fd w) = Some (MSG_INFO # data)" "length data < PROTO_RECVSZ"
  shows "\<exists>res buf' w'. info_read K key buf bufsz w = Some (res, buf', w') \<and>
    written (events w') = written (events w) @ [(li_fd w, CMD_READ # key)] \<and>
    (if cstr data \<noteq> key \<or> length data = length key then res = -1 \<and> li_errno w' = ENOENT
     else let val = drop (length key + 1) data in
       if bufsz < length val then res = -1 \<and> li_errno w' = ENOMEM \<and> li_fd w' = -1
       else res = int (length val) \<and> buf' = val @ drop (length val) buf \<and> li_fd w' = li_fd w)"
proof -
  define w1 where "w1 = w\<lparr>events := events w @ [Writev (li_fd w) (CMD_READ # key) r],
    li_wait := waitret_zero\<lparr>wr_binds := Some [key_bind key], wr_buffer := buf, wr_buffersz := bufsz\<rparr>\<rparr>"
  note start = readv_start [OF assms(1,2,4,5), where buf = buf and bufsz = bufsz, folded w1_def]
  have lw: "li_wait w1 = waitret_zero\<lparr>wr_binds := Some [key_bind key], wr_buffer := buf, wr_buffersz := bufsz\<rparr>" "li_fd w1 = li_fd w"
    "events w1 = events w @ [Writev (li_fd w) (CMD_READ # key) r]" by (simp_all add: w1_def)
  obtain rb bs wr w2 where 2: "bind_first [key_bind key] data ((li_wait w1)\<lparr>wr_until := MSG_INFO, wr_done := 1\<rparr>) = Some (rb, bs, wr)"
    "wait_until K no_cb MSG_INFO w1 = Some (if rb = -1 then -1 else 1, w2)" "li_wait w2 = wr\<lparr>wr_binds := Some bs\<rparr>"
    "li_errno w2 = (if rb = -1 then ENOMEM else li_errno w1)" "events w2 = events w1 @ [Read (li_fd w) (Some (MSG_INFO # data))]" "li_fd w2 = li_fd w"
    using wait_info [OF start(2), of "key_bind key" key K data] assms(2,3,6,7) lw by (auto simp: waitret_zero_def key_bind_def simp del: bind_first.simps)
  define wr0 where "wr0 = (li_wait w1)\<lparr>wr_until := MSG_INFO, wr_done := 1\<rparr>"
  have wr0: "wr_buflen wr0 = 0" "wr_buffersz wr0 = bufsz" "wr_buffer wr0 = buf" "\<not> wr_info_cb wr0" "\<not> wr_in_cb wr0"
    by (simp_all add: wr0_def lw(1) waitret_zero_def)
  have kb: "b_key (key_bind key) = key" "(key_bind key)\<lparr>b_value := None, b_valuesz := 0\<rparr> = key_bind key" by (simp_all add: key_bind_def)
  obtain rb' bs' wr' where b: "bind_first [key_bind key] data ((li_wait w1)\<lparr>wr_until := MSG_INFO, wr_done := 1\<rparr>) = Some (rb', bs', wr')" "\<not> wr_in_cb wr'"
    "if cstr data \<noteq> key then rb' = 0 \<and> bs' = [key_bind key] \<and> wr_buffer wr' = buf
     else if length key = length data then rb' = 0 \<and> bs' = [key_bind key] \<and> wr_buffer wr' = buf
     else let val = drop (length key + 1) data in
       if bufsz < length val then rb' = -1 \<and> bs' = [key_bind key] \<and> wr_buffer wr' = buf
       else rb' = 0 \<and> bs' = [(key_bind key)\<lparr>b_value := Some 0, b_valuesz := length val\<rparr>] \<and> wr_buffer wr' = val @ drop (length val) buf"
    using bind_one [OF kb(1) assms(2) wr0(1) _ wr0(4), of data] assms(3) wr0(5) unfolding wr0_def [symmetric] wr0(2,3) kb(2) by blast
  have [simp]: "rb' = rb" "bs' = bs" "wr' = wr" using b(1) 2(1) by simp_all
  have wrt: "written (events w2) = written (events w) @ [(li_fd w, CMD_READ # key)]" using 2(5) lw(3) by simp
  have cb: "\<not> wr_in_cb (li_wait w2)" using b(2) 2(3) by simp
  show ?thesis
  proof (cases "rb = -1")
    case True
    then have c: "cstr data = key" "length data \<noteq> length key" "bufsz < length (drop (length key + 1) data)" using b(3) by (auto simp: Let_def split: if_splits)
    have "info_readv K [key_bind key] buf bufsz w = Some (-1, bs, wr_buffer wr, snd (info_close K w2))"
      using start(1) 2(2,3) True by (simp add: info_fail_def Let_def)
    then have "info_read K key buf bufsz w = Some (-1, wr_buffer wr, snd (info_close K w2))" by (simp add: info_read_def)
    moreover have "li_fd w2 \<noteq> -1" using 2(6) assms(1) by (simp add: on_line_def)
    ultimately show ?thesis using c cb 2(4) True wrt by (simp add: info_close_def sys_close_def emit_def Let_def)
  next
    case False
    then have rv: "info_readv K [key_bind key] buf bufsz w = Some (0, bs, wr_buffer wr, w2)" using start(1) 2(2,3) by (simp add: Let_def)
    show ?thesis
    proof (cases "cstr data \<noteq> key \<or> length data = length key")
      case True
      then have "bs = [key_bind key]" using b(3) by (auto split: if_splits)
      then have "info_read K key buf bufsz w = Some (-1, wr_buffer wr, set_errno ENOENT w2)" using rv by (simp add: info_read_def key_bind_def)
      then show ?thesis using True wrt by (simp add: set_errno_def)
    next
      case c: False
      define val where "val = drop (length key + 1) data"
      have v: "bs = [(key_bind key)\<lparr>b_value := Some 0, b_valuesz := length val\<rparr>]" "wr_buffer wr = val @ drop (length val) buf" "length val \<le> bufsz"
        using b(3) False c by (auto simp: Let_def val_def split: if_splits)
      then have "info_read K key buf bufsz w = Some (int (length val), val @ drop (length val) buf, w2)"
        using rv assms(3) by (simp add: info_read_def peek_def poke_def)
      then show ?thesis using c wrt v(3) 2(6) unfolding val_def by (auto simp: Let_def)
    qed
  qed
qed

subsection \<open>Properties\<close>

lemma sample_on_line: "on_line sample_lib"
  by (simp add: on_line_def sample_lib_def waitret_zero_def)





text \<open>
  C39: \<^verbatim>\<open>info_read\<close> takes any \<^verbatim>\<open>INFO\<close> for the answer.  When a notification about another key arrives first, the
  result is an error with \<^verbatim>\<open>ENOENT\<close>, whatever the value of the key is.
\<close>

theorem info_read_other_key:
  assumes "on_line w" "\<not> has_nul key" "bufsz \<le> length buf" "k_writev K (events w) (li_fd w) (CMD_READ # key) = r" "r \<noteq> -1"
    "k_read K (events w @ [Writev (li_fd w) (CMD_READ # key) r]) (li_fd w) = Some (MSG_INFO # data)" "length data < PROTO_RECVSZ" "cstr data \<noteq> key"
  shows "\<exists>buf' w'. info_read K key buf bufsz w = Some (-1, buf', w') \<and> li_errno w' = ENOENT"
  using read_outcome [OF assms(1-7)] assms(8) by auto

theorem info_read_other_key_witness:
  "\<exists>buf' w'. info_read (sample_kernel\<lparr>k_read := \<lambda>ev fd. Some [MSG_INFO, 106, 0, 49]\<rparr>) [107] [0, 0] 2 sample_lib = Some (-1, buf', w') \<and> li_errno w' = ENOENT"
  by (rule info_read_other_key [OF sample_on_line, where r = 2 and data = "[106, 0, 49]"]) (simp_all add: sample_lib_def sample_kernel_def has_nul_def PROTO_RECVSZ_def)

text \<open>
  C40: The loop of \<^verbatim>\<open>open_tcp\<close> over the addresses of a host does not stop at the first connection.  When the first address
  accepts the connection and the second refuses it, the result is a failure, and the socket of the
  connection that was made is never closed.
\<close>

theorem open_tcp_last_wins:
  assumes "tcp_client_addrinfo K hostport w = Some (Inr [(f1, a1), (f2, a2)])" "\<And>ev f. k_socket K ev f \<noteq> -1"
    "\<And>ev s. k_connect K ev s a1 = 0" "\<And>ev s. k_connect K ev s a2 = -1"
  shows "\<exists>s1 s2 w'. open_tcp K hostport w = Some (-1, w') \<and> s1 \<noteq> -1 \<and>
    events w' = events w @ [Socket f1 s1, Connect s1 a1 0, Socket f2 s2, Connect s2 a2 (-1), Close s2]"
  using assms by (simp add: open_tcp_def sys_socket_def sys_connect_def sys_close_def set_last_error_def emit_def Let_def)

theorem open_tcp_last_wins_witness:
  "\<exists>s1 s2 w'. open_tcp dual_kernel (Some (lit ''h:1'')) sample_lib = Some (-1, w') \<and> s1 \<noteq> -1 \<and>
    events w' = [Socket 10 s1, Connect s1 [1] 0, Socket 2 s2, Connect s2 [2] (-1), Close s2]"
proof -
  have "k_socket dual_kernel ev f \<noteq> -1" "k_connect dual_kernel ev s [1] = 0" "k_connect dual_kernel ev s [2] = -1" for ev f s
    by (simp_all add: dual_kernel_def)
  moreover have "tcp_client_addrinfo dual_kernel (Some (lit ''h:1'')) sample_lib = Some (Inr [(10, [1]), (2, [2])])"
    by (simp add: tcp_client_addrinfo_def dual_kernel_def Let_def split: option.splits)
  ultimately show ?thesis
    using open_tcp_last_wins [of dual_kernel "Some (lit ''h:1'')" sample_lib 10 "[1]" 2 "[2]"]
    by (simp add: sample_lib_def)
qed

end
