(* ===== verification/Info_Client.thy ===== *)
theory Info_Client
  imports Libinfo_Ops
begin

text \<open>
  The command line client, \<^verbatim>\<open>src/client/info.c\<close>.  \<^verbatim>\<open>argv\<close> is the list of the arguments; the
  alarm that ends a subscription is a matter of the kernel, which then answers a read with the end
  of the file.  Standard output and standard error are recorded as events.
\<close>

subsection \<open>State and callback\<close>

record client_options =
  co_key_delim :: "bytes option"
  co_timeout :: int
  co_blank :: bool
  co_all :: bool
  co_clear :: bool
  co_socket :: "bytes option"

record client_app = info_lib +
  ca_options :: client_options
  ca_deleted :: nat
  ca_flush :: bool

definition usage_options :: bytes where
  "usage_options =
     lit ''[opts] {[-r] key | -w key=value | -d key | -s pattern}...'' @ [10] @
     lit ''  -r/-w/-d  read/write/delete a key'' @ [10] @
     lit ''  -s        subscribe to pattern (forever)'' @ [10] @
     lit ''options:'' @ [10] @
     lit ''  -b        output a blank line for deleted keys'' @ [10] @
     lit ''  -k[delim] print key name when reading/subscribing'' @ [10] @
     lit ''  -S h:p    connect to TCP host:port'' @ [10] @
     lit ''  -t secs   timeout a subscription'' @ [10] @
     lit ''  -A        print all keys (-k= -t0 -s*)'' @ [10] @
     lit ''  -C        clear all keys'' @ [10]"

definition client_perror :: "kernel \<Rightarrow> bytes \<Rightarrow> client_app \<Rightarrow> client_app" where
  "client_perror K msg w = emit (Stderr (msg @ lit '': '' @ strerror K w @ [10])) w"

definition action_cb :: "kernel \<Rightarrow> bytes \<Rightarrow> bytes option \<Rightarrow> client_app \<Rightarrow> (int \<times> client_app) option" where
  "action_cb K key val w =
     (if co_clear (ca_options w) \<and> val \<noteq> None then do {
        (r, w1) \<leftarrow> info_delete K key w;
        Some (1, if r = -1 then client_perror K (lit ''info_delete'') w1 else w1)
      } else
        let w1 = (if val = None then w\<lparr>ca_deleted := add32 (ca_deleted w) 1\<rparr> else w) in
        if val = None \<and> \<not> co_blank (ca_options w1) then Some (1, w1)
        else
          let prefix = (case co_key_delim (ca_options w1) of None \<Rightarrow> [] | Some d \<Rightarrow> key @ d);
              value = (case val of None \<Rightarrow> [] | Some v \<Rightarrow> v)
          in Some (1, emit (Stdout (prefix @ value @ [10])) w1))"

subsection \<open>The command line\<close>

text \<open>\<^verbatim>\<open>sscanf(arg, "%d", &n)\<close>: white space, a sign and digits, of values that fit.\<close>

definition is_digit :: "byte \<Rightarrow> bool" where
  "is_digit b \<longleftrightarrow> 48 \<le> b \<and> b \<le> 57"

definition scan_int :: "bytes \<Rightarrow> int option" where
  "scan_int s =
     (let s1 = dropWhile (\<lambda>b. b = 32 \<or> (9 \<le> b \<and> b \<le> 13)) s;
          neg = (s1 \<noteq> [] \<and> hd s1 = 45);
          s2 = (if s1 \<noteq> [] \<and> (hd s1 = 45 \<or> hd s1 = 43) then tl s1 else s1);
          ds = takeWhile is_digit s2;
          n = fold (\<lambda>d n. 10 * n + int (unat d - 48)) ds 0
      in if ds = [] then None else Some (if neg then - n else n))"

text \<open>
  The connection options; the result is the rest of the arguments, the options, the error and
  what was printed.
\<close>

function connection_options ::
  "bytes list \<Rightarrow> client_options \<Rightarrow> bytes list \<times> client_options \<times> int \<times> bytes" where
  "connection_options [] opts = ([], opts, 0, [])"
| "connection_options (opt # args) opts =
     (if take 2 opt = lit ''-k'' then
        connection_options args (opts\<lparr>co_key_delim := Some (if drop 2 opt \<noteq> [] then drop 2 opt else [32])\<rparr>)
      else if opt = lit ''-S'' then
        (case args of
           [] \<Rightarrow> (opt # args, opts\<lparr>co_socket := None\<rparr>, 2, [])
         | arg # args1 \<Rightarrow> connection_options args1 (opts\<lparr>co_socket := Some arg\<rparr>))
      else if opt = lit ''-A'' then connection_options args (opts\<lparr>co_all := True\<rparr>)
      else if opt = lit ''-C'' then connection_options args (opts\<lparr>co_clear := True\<rparr>)
      else if opt = lit ''-b'' then connection_options args (opts\<lparr>co_blank := True\<rparr>)
      else if take 2 opt = lit ''-t'' then
        (let (arg, rest) = (if drop 2 opt \<noteq> [] then (Some (drop 2 opt), args)
                            else case args of [] \<Rightarrow> (None, []) | a # as \<Rightarrow> (Some a, as)) in
         case Option.bind arg scan_int of
           None \<Rightarrow> (args, opts, 2, lit ''invalid timeout'' @ [10])
         | Some n \<Rightarrow> connection_options rest (opts\<lparr>co_timeout := n\<rparr>))
      else (opt # args, opts, 0, []))"
  by pat_completeness auto
termination
  by (relation "measure (\<lambda>(args, opts). length args)") (auto split: list.splits if_splits)

text \<open>
  The check of the commands: the error and what was printed.  For the argument \<^verbatim>\<open>-\<close> the
  code finds its NUL in \<^verbatim>\<open>"rwds"\<close> and reads the character behind it, a fault.
\<close>

fun check_commands :: "bytes list \<Rightarrow> (int \<times> bytes) option" where
  "check_commands [] = Some (0, [])"
| "check_commands (opt # args) =
     (if opt = [] \<or> hd opt \<noteq> 45 then check_commands args
      else if length opt = 1 then None
      else if opt ! 1 \<notin> set (lit ''rwds'') then
        Some (2, (if opt ! 1 \<in> set (lit ''ACbkt'') then [45, opt ! 1] @ lit '' specified too late'' @ [10] else []) @
          lit ''bad option '' @ opt @ [10])
      else if drop 2 opt \<noteq> [] then
        if opt ! 1 = of_char CHR ''w'' \<and> 61 \<notin> set (drop 2 opt)
        then Some (2, lit ''missing '' @ [39, 61, 39] @ lit '' after -w'' @ [10])
        else check_commands args
      else case args of
        [] \<Rightarrow> Some (2, lit ''missing arg after '' @ opt @ [10])
      | arg # args1 \<Rightarrow>
          if opt ! 1 = of_char CHR ''w'' \<and> 61 \<notin> set arg
          then Some (2, lit ''missing '' @ [39, 61, 39] @ lit '' after -w'' @ [10])
          else check_commands args1)"

text \<open>One command: its letter and its data.  \<open>Inl\<close> is a jump to \<^verbatim>\<open>fail\<close>; \<open>Inr\<close> tells of a subscription.\<close>

definition exec_command :: "kernel \<Rightarrow> byte \<Rightarrow> bytes \<Rightarrow> client_app \<Rightarrow> ((unit + bool) \<times> client_app) option" where
  "exec_command K cmd data w =
     (let run = (\<lambda>op sub. do { (r, w1) \<leftarrow> op; Some (if r = -1 then Inl () else Inr sub, w1) }) in
      if cmd = of_char CHR ''r'' then run (info_tx_read K data w) False
      else if cmd = of_char CHR ''w'' then
        if 61 \<notin> set data then None
        else
          let key = takeWhile (\<lambda>b. b \<noteq> 61) data; value = drop (length key + 1) data in
          run (info_tx_write K key value w) False
      else if cmd = of_char CHR ''d'' then run (info_tx_delete K data w) False
      else if cmd = of_char CHR ''s'' then run (info_tx_sub K data w) True
      else Some (Inr False, w))"

text \<open>The letter and the data of the next command, and the arguments after it.\<close>

definition next_command :: "bytes \<Rightarrow> bytes list \<Rightarrow> (byte \<times> bytes \<times> bytes list) option" where
  "next_command opt args =
     (if opt = [] \<or> hd opt \<noteq> 45 then Some (if 61 \<in> set opt then of_char CHR ''w'' else of_char CHR ''r'', opt, args)
      else if length opt = 1 then None
      else if drop 2 opt \<noteq> [] then Some (opt ! 1, drop 2 opt, args)
      else case args of [] \<Rightarrow> None | data # rest \<Rightarrow> Some (opt ! 1, data, rest))"

lemma next_command_length: "next_command opt args = Some (cmd, data, rest) \<Longrightarrow> length rest \<le> length args"
  by (auto simp: next_command_def split: if_splits list.splits)

function exec_commands :: "kernel \<Rightarrow> bytes list \<Rightarrow> bool \<Rightarrow> client_app \<Rightarrow> ((unit + bool) \<times> client_app) option" where
  "exec_commands K [] have_subs w = Some (Inr have_subs, w)"
| "exec_commands K (opt # args) have_subs w = do {
     (cmd, data, rest) \<leftarrow> next_command opt args;
     (r, w1) \<leftarrow> exec_command K cmd data w;
     case r of Inl _ \<Rightarrow> Some (Inl (), w1) | Inr sub \<Rightarrow> exec_commands K rest (have_subs \<or> sub) w1
   }"
  by pat_completeness auto
termination
  by (relation "measure (\<lambda>(K, args, have_subs, w). length args)") (auto dest: next_command_length)

subsection \<open>The program\<close>

definition client_fail :: "client_app \<Rightarrow> int \<times> client_app" where
  "client_fail w = (1, emit (Stderr (info_get_last_error w @ [10])) w)"

text \<open>The subscription of \<^verbatim>\<open>-A\<close> and \<^verbatim>\<open>-C\<close>.\<close>

definition client_subscribe_all :: "kernel \<Rightarrow> client_app \<Rightarrow> ((unit + bool) \<times> client_app) option" where
  "client_subscribe_all K w =
     (let opts = ca_options w;
          opts1 = (if co_all opts \<and> co_key_delim opts = None then opts\<lparr>co_key_delim := Some (lit ''='')\<rparr> else opts);
          w1 = w\<lparr>ca_options := opts1\<rparr> in
      if co_all opts1 \<or> co_clear opts1 then do {
        (r, w2) \<leftarrow> info_tx_sub K (lit ''*'') w1;
        if r = -1 then Some (Inl (), w2)
        else do {
          (r2, w3) \<leftarrow> info_tx_unsub K (lit ''*'') w2;
          if r2 = -1 then Some (Inl (), w3)
          else Some (Inr True, if co_timeout (ca_options w3) = -1
            then w3\<lparr>ca_options := (ca_options w3)\<lparr>co_timeout := 0\<rparr>\<rparr> else w3)
        }
      } else Some (Inr False, w1))"

text \<open>From the commit on.\<close>

definition client_finish :: "kernel \<Rightarrow> bytes \<Rightarrow> bool \<Rightarrow> client_app \<Rightarrow> (int \<times> client_app) option" where
  "client_finish K argv0 have_subs w = do {
     let w1 = (if 0 \<le> co_timeout (ca_options w) \<and> \<not> have_subs
               then emit (Stderr (argv0 @ lit '': timeout only applies to subscriptions'' @ [10])) w else w);
     (r, w2) \<leftarrow> info_tx_commit K (Some (action_cb K)) w1;
     if r = -1 then Some (client_fail w2)
     else if have_subs \<and> co_timeout (ca_options w2) \<noteq> 0 then do {
       (r2, w3) \<leftarrow> info_loop K (Some (action_cb K)) (w2\<lparr>ca_flush := True\<rparr>);
       if r2 = -1 then Some (client_fail w3) else Some (int (ca_deleted w3 mod 256), w3)
     } else Some (int (ca_deleted w2 mod 256), w2)
   }"

definition client_main :: "kernel \<Rightarrow> bytes \<Rightarrow> bytes list \<Rightarrow> client_app \<Rightarrow> (int \<times> client_app) option" where
  "client_main K argv0 args w = do {
     let (cmds, opts, error, out) = connection_options args ((ca_options w)\<lparr>co_timeout := -1\<rparr>);
     let w0 = w\<lparr>ca_options := opts\<rparr>;
     (error1, out1) \<leftarrow> (if error \<noteq> 0 then Some (error, out) else check_commands cmds);
     if error1 \<noteq> 0 then
       Some (error1, emit (Stderr (out1 @ lit ''usage: '' @ argv0 @ lit '' '' @ usage_options)) w0)
     else do {
       (r1, w1) \<leftarrow> (case co_socket opts of None \<Rightarrow> Some (0, w0) | Some s \<Rightarrow> info_open K (Some s) w0);
       if r1 = -1 then Some (1, client_perror K (lit ''info_open'') w1)
       else do {
         (r2, w2) \<leftarrow> info_tx_begin K w1;
         if r2 = -1 then Some (client_fail w2)
         else do {
           (r3, w3) \<leftarrow> client_subscribe_all K w2;
           case r3 of
             Inl _ \<Rightarrow> Some (client_fail w3)
           | Inr subs \<Rightarrow> do {
               (r4, w4) \<leftarrow> exec_commands K cmds subs w3;
               case r4 of Inl _ \<Rightarrow> Some (client_fail w4) | Inr subs1 \<Rightarrow> client_finish K argv0 subs1 w4
             }
         }
       }
     }
   }"

end
