(* ===== verification/Spec2Isabelle.thy ===== *)
theory Spec2Isabelle
  imports Linked_List Proto_Text Infod_Safe Libinfo_Correct Info_Client
begin

text \<open>
  infod3 is a small publish/subscribe server for key/value pairs.  A daemon keeps the pairs in a
  memory-mapped file and serves clients over sockets; a library and a command line program are its clients.
  This development models the program in HOL and proves what makes it correct.

  \<^bold>\<open>The parts of the program.\<close>  The daemon's \<^verbatim>\<open>main\<close> (\<^verbatim>\<open>src/daemon/infod.c\<close>) opens the store
  (\<^verbatim>\<open>store.c\<close>), adds listeners to a server (\<^verbatim>\<open>server.c\<close>) and calls its poll loop.  The server accepts connections
  and makes upcalls; the daemon gives every connection a client record with a protocol translator (\<^verbatim>\<open>src/lib/proto*.c\<close>),
  which collects bytes in a receive buffer (\<^verbatim>\<open>rxbuf.c\<close>) and hands complete messages to
  \<^verbatim>\<open>on_app_input\<close>.  Messages read and write the store, and subscriptions are patterns (\<^verbatim>\<open>match.c\<close>) that select the
  writes a client is told about.  Clients hang on linked lists (\<^verbatim>\<open>list.h\<close>).  The library (\<^verbatim>\<open>src/lib/info.c\<close>) uses the same
  translator on the other end, and \<^verbatim>\<open>src/client/info.c\<close> is a program over the library.

  \<^bold>\<open>Conventions.\<close>  A byte is an \<open>8 word\<close>; memory is a byte list with \<open>peek\<close> and \<open>poke\<close>, and an access outside of a block, a
  call through a pointer that is not set, a failed assertion and an endless loop are all the result \<open>None\<close>, so that
  a theorem with a result \<open>Some\<close> excludes them.  C's \<^verbatim>\<open>int\<close> results are \<open>int\<close>; unsigned 32-bit arithmetic that
  may wrap is written with \<open>add32\<close> and \<open>sub32\<close>.  The system is a parameter: the record \<open>os\<close> says which allocations and
  file operations succeed, and the record \<open>kernel\<close> gives the result of every system call as a function of the
  history of calls, so that every behaviour of the network and of the peers is covered.  Loops that
  might run forever are \<^verbatim>\<open>partial_function\<close>s, and where they end that is proved.

  \<^bold>\<open>The theories and what they model.\<close>
  \<^item> \<open>Infod_Prelude\<close>: bytes, C strings, memory, wrap-around and the lemmas the other theories share.
  \<^item> \<open>Pattern_Match\<close>: \<^verbatim>\<open>match.c\<close>.  The matcher against an abstract pattern language, and \<^verbatim>\<open>match_isvalid\<close>.
  \<^item> \<open>Store\<close>: \<^verbatim>\<open>store.c\<close>, with the file as memory and the index as a list of offsets.  \<open>Store_Layout\<close>,
    \<open>Store_File\<close> and \<open>Store_Correct\<close> have the records and gaps that tile the file, the abstraction to a sorted list of
    keyvalues, and that every operation keeps it; \<open>Store_Ops\<close> has the properties: refinement of
    put, delete, lookup and iteration, reopening, binary search against a linear scan, and the behaviour on corrupt files.
  \<^item> \<open>Rxbuf\<close>: \<^verbatim>\<open>rxbuf.c\<close>, refinement to the bytes in use and the bound of 64 KiB.
  \<^item> \<open>Proto\<close>, \<open>Proto_Output\<close>, \<open>Proto_Input\<close>: the translator.  A translator's owner is a record of callbacks over a
    state of any type.  \<open>Proto_Stream\<close> shows that decoding does not depend on how the stream is cut into reads, through the locale
    \<open>stream_decoder\<close>, and the round trip of the binary protocol; \<open>Proto_Text\<close> the same for the text protocol; \<open>Proto_Safe\<close>
    that receiving is total, for every owner that meets the contract \<open>proto_app\<close>.
  \<^item> \<open>Linked_List\<close>: the macros of \<^verbatim>\<open>list.h\<close> on a memory of pointer cells.
  \<^item> \<open>Net\<close>, \<open>Sock\<close>: system calls and socket addresses (\<^verbatim>\<open>sockunix.c\<close>, \<^verbatim>\<open>socktcp.c\<close>).
  \<^item> \<open>Server\<close>: \<^verbatim>\<open>server.c\<close> with the upcalls as parameters.  \<open>Server_Safe\<close> has the invariant of the socket table and, in the
    locale \<open>server_app\<close>, that the poll loop keeps it for every application that meets the contract; \<open>Server_Limit\<close> the
    limit on the number of sockets.
  \<^item> \<open>Infod\<close>, \<open>Infod_Main\<close>: \<^verbatim>\<open>infod.c\<close>, the message handler, the upcalls and \<^verbatim>\<open>main\<close>.  \<open>Infod_Correct\<close> says what each message does;
    \<open>Infod_Safe\<close> interprets the contracts of the translator and the server on the daemon's callbacks and concludes that the daemon
    as a whole is safe and ends.
  \<^item> \<open>Libinfo\<close>, \<open>Libinfo_Ops\<close>: \<^verbatim>\<open>src/lib/info.c\<close>, its static variables as a record that applications extend.
    \<open>Libinfo_Correct\<close> says what its operations send and return.
  \<^item> \<open>Info_Client\<close>: \<^verbatim>\<open>src/client/info.c\<close>.
  \<^item> This theory: a value on its way from one client through the daemon to another.

  \<^bold>\<open>Hypotheses about the system.\<close>  \<open>os_sane\<close>: \<^verbatim>\<open>posix_fallocate\<close> and \<^verbatim>\<open>ftruncate\<close> on the store file succeed.  \<open>kernel_ok\<close>: \<^verbatim>\<open>accept\<close> returns
  fresh descriptors below \<^verbatim>\<open>OPEN_MAX\<close>, a client record can be allocated, no connection brings 4 GiB, and no peer of the
  daemon uses the text protocol; without the last three the daemon can fault, as the findings say.  \<open>asked_only\<close>: \<^verbatim>\<open>poll\<close> reports no
  event on a listener that was not asked for.  \<open>put_may_fail\<close> holds when a put needs memory or file space that is not granted.

  \<^bold>\<open>Bounds.\<close>  The nesting of \<^verbatim>\<open>on_app_input\<close> and \<^verbatim>\<open>buffer_command\<close> is bounded by the depth 2, which is enough since a replayed
  command runs outside of a transaction.  Recursions over the socket table, the lists and the records of the store follow
  their data.  No other fuel is used.

  \<^bold>\<open>Not modelled.\<close>  Signal handlers, \<^verbatim>\<open>openlog\<close>, \<^verbatim>\<open>alarm\<close> and \<^verbatim>\<open>getopt\<close>'s own parsing: the daemon's termination
  flag and the parsed options are parameters.  The text that the translator prints on standard error without a callback is not kept.  Freed
  memory is not tracked beyond the client records: double frees and leaks of heap blocks are not visible.  The build variant
  \<^verbatim>\<open>SMALL\<close> and the test programs are left out.
\<close>

subsection \<open>From one client to another\<close>

text \<open>A daemon with two clients of the unix socket; the first sends a \<^verbatim>\<open>WRITE\<close>, the second a \<^verbatim>\<open>READ\<close>.\<close>

definition unix_client :: "int \<Rightarrow> client" where
  "unix_client fd = (sample_client fd [])\<lparr>c_proto := fresh_proto PROTO_MODE_FRAMED\<rparr>"

definition unix_infod :: infod where
  "unix_infod = sample_infod\<lparr>i_heap := [0 \<mapsto> unix_client 5, 1 \<mapsto> unix_client 6]\<rparr>"

definition unix_kernel :: kernel where
  "unix_kernel = sample_kernel\<lparr>k_read := (\<lambda>ev fd. Some (if fd = 5 then [CMD_WRITE, 107, 0, 118] else [CMD_READ, 107]))\<rparr>"

text \<open>A packet from a client of the unix socket is handed to the message handler.\<close>

lemma ready_packet:
  assumes "i_heap w c = Some cl" "p_mode (c_proto cl) = PROTO_MODE_FRAMED" "p_on_input (c_proto cl) = Set"
    "k_read K (events w) fd = Some (m # d)" "length d < PROTO_RECVSZ" "on_app_input K c m d (emit (Read fd (Some (m # d))) w) = Some (r, w')"
    "i_heap w' c = Some cl'"
  shows "on_net_ready K w (Some c) fd = Some (r, w')"
proof -
  define w1 where "w1 = emit (Read fd (Some (m # d))) w"
  have h: "i_heap w1 c = Some cl" using assms(1) by (simp add: w1_def emit_def)
  have "sys_read K fd PROTO_RECVSZ w = (Some (m # d), w1)" using assms(4,5) by (simp add: sys_read_def Let_def w1_def PROTO_RECVSZ_def)
  moreover have "proto_recv (k_os K) (client_cb K c) (c_proto cl) w1 (m # d) 0 = Some (r, c_proto cl', w')"
    using assms(2,3,6,7) h set_client_same [OF h] by (simp add: proto_recv_def recv_framed_def mode_defs client_cb_def flip: w1_def)
  ultimately show ?thesis using h assms(7) set_client_same [OF assms(7)] by (simp add: on_net_ready_def)
qed

lemma session_read: "session K c cl kvs w \<Longrightarrow> session K c cl kvs (emit e w)"
  by (simp add: session_def clients_listen_def emit_def)

lemma write_ready:
  assumes "session K c cl kvs w" "p_mode (c_proto cl) = PROTO_MODE_FRAMED" "p_on_input (c_proto cl) = Set"
    "k_read K (events w) (c_fd cl) = Some (CMD_WRITE # data)" "length data < PROTO_RECVSZ" "\<not> put_may_fail (k_os K) (the_store w) data"
  obtains w' where "on_net_ready K w (Some c) (c_fd cl) = Some (1, w')" "store_holds (the_store w') (kv_write data kvs)"
    "i_heap w' = i_heap w" "all_clients w' = all_clients w" "i_options w' = i_options w" "length (events w) < length (events w')"
proof -
  define w1 where "w1 = emit (Read (c_fd cl) (Some (CMD_WRITE # data))) w"
  have e: "the_store w1 = the_store w" "i_heap w1 = i_heap w" "all_clients w1 = all_clients w" "i_options w1 = i_options w" by (simp_all add: w1_def emit_def)
  have "length data < 65536" using assms(5) by (simp add: PROTO_RECVSZ_def)
  then obtain s where s: "store_holds s (kv_write data kvs)" "on_app_input K c CMD_WRITE data w1 =
    Some (1, if write_changes data kvs then notify_each K data (map (\<lambda>c. the (i_heap w1 c)) (all_clients w1)) (w1\<lparr>the_store := s\<rparr>) else w1\<lparr>the_store := s\<rparr>)"
    using write_session [OF session_read [OF assms(1)], of data "Read (c_fd cl) (Some (CMD_WRITE # data))", folded w1_def] assms(6) e(1) by auto
  define w' where "w' = (if write_changes data kvs then notify_each K data (map (\<lambda>c. the (i_heap w1 c)) (all_clients w1)) (w1\<lparr>the_store := s\<rparr>) else w1\<lparr>the_store := s\<rparr>)"
  have oo: "output_only (w1\<lparr>the_store := s\<rparr>) w'" using output_only_each by (simp add: w'_def)
  note o = output_only_simps [OF oo]
  have "length (events w1) \<le> length (events w')" using oo by (auto simp: output_only_def)
  then have len: "length (events w) < length (events w')" by (simp add: w1_def emit_def)
  have "i_heap w c = Some cl" using assms(1) by (simp add: session_def)
  then have "on_net_ready K w (Some c) (c_fd cl) = Some (1, w')"
    using ready_packet [OF _ assms(2-5), of c 1 w' cl] s(2) o(2) e(2) by (simp add: w'_def w1_def)
  then show thesis using that s(1) o e len by simp
qed

lemma cstr_keyvalue: "\<not> has_nul key \<Longrightarrow> cstr (key @ 0 # val) = key"
  by (induction key) auto

lemma read_ready:
  assumes "session K c cl kvs w" "p_mode (c_proto cl) = PROTO_MODE_FRAMED" "p_on_input (c_proto cl) = Set" "p_on_sendv (c_proto cl) = Set" "\<not> has_nul key"
    "k_read K (events w) (c_fd cl) = Some (CMD_READ # key)" "length key < PROTO_RECVSZ"
  shows "\<exists>r w'. on_net_ready K w (Some c) (c_fd cl) = Some (r, w') \<and>
    written (events w') = written (events w) @ [(c_fd cl, MSG_INFO # (case kv_map kvs key of Some kv \<Rightarrow> kv | None \<Rightarrow> key))]"
proof -
  define w1 where "w1 = emit (Read (c_fd cl) (Some (CMD_READ # key))) w"
  define ans where "ans = (case kv_map kvs key of Some kv \<Rightarrow> kv | None \<Rightarrow> key)"
  have h: "i_heap w c = Some cl" using assms(1) by (simp add: session_def)
  have "on_app_input K c CMD_READ key w1 = Some (reply K cl MSG_INFO ans w1)"
    using read_session [OF session_read [OF assms(1)] _ assms(5)] assms(7) by (simp add: w1_def ans_def PROTO_RECVSZ_def)
  moreover have "i_heap (snd (reply K cl MSG_INFO ans w1)) c = Some cl"
    using output_only_simps(2) [OF output_only_reply] h by (simp add: w1_def emit_def)
  ultimately have "on_net_ready K w (Some c) (c_fd cl) = Some (reply K cl MSG_INFO ans w1)"
    using ready_packet [OF h assms(2,3,6,7), of "fst (reply K cl MSG_INFO ans w1)" "snd (reply K cl MSG_INFO ans w1)" cl] by (simp add: w1_def)
  moreover have "written (events (snd (reply K cl MSG_INFO ans w1))) = written (events w) @ [(c_fd cl, MSG_INFO # ans)]"
    using assms(2,4) by (simp add: reply_def sys_writev_def emit_def Let_def w1_def wire_msg_def mode_defs)
  ultimately show ?thesis unfolding ans_def [symmetric] by (metis surjective_pairing)
qed

text \<open>
  C2: What one client writes another one reads.  \<^verbatim>\<open>info_write\<close> in one process sends a packet; when the daemon receives
  that packet it stores the value; \<^verbatim>\<open>info_read\<close> in another process sends a packet; when the daemon receives that one it
  answers with a packet; and when the other process receives the answer \<^verbatim>\<open>info_read\<close> returns the value.  The hypotheses
  about reading say that the system delivers the packets that were sent.
\<close>

theorem write_then_read:
  assumes "on_line wa" "on_line wb" "session K c cl kvs w" "session K d dl kvs w"
    "p_mode (c_proto cl) = PROTO_MODE_FRAMED" "p_on_input (c_proto cl) = Set"
    "p_mode (c_proto dl) = PROTO_MODE_FRAMED" "p_on_input (c_proto dl) = Set" "p_on_sendv (c_proto dl) = Set"
    "\<not> has_nul key" "length key + 1 + length val < PROTO_RECVSZ" "\<not> is_ephemeral (key @ 0 # val)" "\<not> put_may_fail (k_os K) (the_store w) (key @ 0 # val)"
    "\<And>ev fd bs. k_writev KA ev fd bs \<noteq> -1" "\<And>ev fd bs. k_writev KB ev fd bs \<noteq> -1" "length val \<le> bufsz" "bufsz \<le> length buf"
    "k_read K (events w) (c_fd cl) = Some (CMD_WRITE # key @ 0 # val)"
    "\<And>ev. length (events w) < length ev \<Longrightarrow> k_read K ev (c_fd dl) = Some (CMD_READ # key)"
    "\<And>ev. length (events wb) < length ev \<Longrightarrow> k_read KB ev (li_fd wb) = Some (MSG_INFO # key @ 0 # val)"
  shows "\<exists>wa' wb' w1 w2 r. info_write KA key (Some val) wa = Some (0, wa') \<and>
    written (events wa') = written (events wa) @ [(li_fd wa, CMD_WRITE # key @ 0 # val)] \<and>
    on_net_ready K w (Some c) (c_fd cl) = Some (1, w1) \<and>
    info_read KB key buf bufsz wb = Some (int (length val), val @ drop (length val) buf, wb') \<and>
    written (events wb') = written (events wb) @ [(li_fd wb, CMD_READ # key)] \<and>
    on_net_ready K w1 (Some d) (c_fd dl) = Some (r, w2) \<and>
    written (events w2) = written (events w1) @ [(c_fd dl, MSG_INFO # key @ 0 # val)]"
proof -
  let ?data = "key @ 0 # val"
  have len: "length ?data < PROTO_RECVSZ" "length val < 65536" "length key < PROTO_RECVSZ" "length key < 65536" using assms(11) by (auto simp: PROTO_RECVSZ_def)
  obtain wa' where a: "info_write KA key (Some val) wa = Some (0, wa')" "written (events wa') = written (events wa) @ [(li_fd wa, CMD_WRITE # ?data)]"
    using write_packet [OF assms(1,10) len(2), of KA] assms(14) by (auto simp: put_packet_def sys_writev_def emit_def Let_def)
  obtain w1 where w1: "on_net_ready K w (Some c) (c_fd cl) = Some (1, w1)" "store_holds (the_store w1) (kv_write ?data kvs)"
    "i_heap w1 = i_heap w" "all_clients w1 = all_clients w" "i_options w1 = i_options w" "length (events w) < length (events w1)"
    using write_ready [OF assms(3,5,6,18) len(1) assms(13)] .
  have key: "cstr ?data = key" "has_nul ?data" using assms(10) cstr_keyvalue by (simp_all add: has_nul_def)
  have "kv_map (kv_write ?data kvs) key = Some ?data"
    using kv_map_put [of kvs ?data] store_holds_ok [of "the_store w" kvs] assms(3,12) key by (simp add: kv_write_def session_def)
  moreover have "session K d dl (kv_write ?data kvs) w1" using assms(4) w1(2-5) by (simp add: session_def clients_listen_def)
  ultimately obtain r w2 where d: "on_net_ready K w1 (Some d) (c_fd dl) = Some (r, w2)" "written (events w2) = written (events w1) @ [(c_fd dl, MSG_INFO # ?data)]"
    using read_ready [OF _ assms(7-10) assms(19) [OF w1(6)] len(3), where c = d and kvs = "kv_write ?data kvs"] by auto
  obtain wb' where b: "info_read KB key buf bufsz wb = Some (int (length val), val @ drop (length val) buf, wb')"
    "written (events wb') = written (events wb) @ [(li_fd wb, CMD_READ # key)]"
    using read_outcome [OF assms(2,10,17) refl assms(15), where data = ?data] assms(16) assms(20) len(1) key(1) by auto
  show ?thesis using a w1(1) b d by blast
qed

lemma unix_sessions: "session unix_kernel 0 (unix_client 5) [] unix_infod" "session unix_kernel 1 (unix_client 6) [] unix_infod"
  using sample_holds good_os_sane
  by (auto simp: session_def unix_infod_def unix_client_def sample_infod_def sample_client_def unix_kernel_def sample_kernel_def clients_listen_def talks_def)

theorem write_then_read_witness:
  "\<exists>wa' wb' w1 w2 r. info_write sample_kernel [107] (Some [118]) sample_lib = Some (0, wa') \<and>
    written (events wa') = [(3, [CMD_WRITE, 107, 0, 118])] \<and>
    on_net_ready unix_kernel unix_infod (Some 0) 5 = Some (1, w1) \<and>
    info_read (sample_kernel\<lparr>k_read := \<lambda>ev fd. Some [MSG_INFO, 107, 0, 118]\<rparr>) [107] [0, 0] 2 sample_lib = Some (1, [118, 0], wb') \<and>
    written (events wb') = [(3, [CMD_READ, 107])] \<and>
    on_net_ready unix_kernel w1 (Some 1) 6 = Some (r, w2) \<and>
    written (events w2) = written (events w1) @ [(6, [MSG_INFO, 107, 0, 118])]"
proof -
  let ?KB = "sample_kernel\<lparr>k_read := \<lambda>ev fd. Some [MSG_INFO, 107, 0, 118]\<rparr>"
  have put: "\<not> put_may_fail (k_os unix_kernel) (the_store unix_infod) ([107] @ 0 # [118])"
    using sample_put by (simp add: unix_kernel_def unix_infod_def)
  have fd: "c_fd (unix_client 5) = 5" "c_fd (unix_client 6) = 6" "p_mode (c_proto (unix_client n)) = PROTO_MODE_FRAMED"
    "p_on_input (c_proto (unix_client n)) = Set" "p_on_sendv (c_proto (unix_client n)) = Set" for n by (simp_all add: unix_client_def sample_client_def)
  have lib: "li_fd sample_lib = 3" "events sample_lib = []" by (simp_all add: sample_lib_def)
  have wr: "k_writev sample_kernel ev fd bs \<noteq> -1" "k_writev ?KB ev fd bs \<noteq> -1" for ev fd bs by (simp_all add: sample_kernel_def)
  have rd: "k_read unix_kernel (events unix_infod) (c_fd (unix_client 5)) = Some (CMD_WRITE # [107] @ 0 # [118])"
    "k_read unix_kernel ev (c_fd (unix_client 6)) = Some (CMD_READ # [107])" "k_read ?KB ev (li_fd sample_lib) = Some (MSG_INFO # [107] @ 0 # [118])" for ev
    by (simp_all add: unix_kernel_def fd)
  have k: "\<not> has_nul [107]" "length [107 :: byte] + 1 + length [118 :: byte] < PROTO_RECVSZ" "\<not> is_ephemeral ([107] @ 0 # [118])"
    by (simp_all add: has_nul_def PROTO_RECVSZ_def is_ephemeral_def)
  have "length [118 :: byte] \<le> 2" "2 \<le> length [0, 0 :: byte]" by simp_all
  from write_then_read [OF sample_on_line sample_on_line unix_sessions fd(3,4,3,4,5) k put wr this rd] show ?thesis by (simp add: fd lib)
qed

end
